(* ===== verification/Prelude.thy ===== *)
theory Prelude
  imports Main "HOL-Library.AList" "HOL-Library.Sublist"
begin

text \<open>
  Shared vocabulary of the development: bytes and Go strings, the value a call
  can end in (a value, a Go error, a run-time panic), Go maps with their
  unspecified iteration order, 64-bit wrap-around, and the theorem collections
  that the component theories feed.

  A Go \<open>string\<close> and a Go \<open>[]byte\<close> are both a list of 8-bit \<open>char\<close>s;
  \<open>len\<close> counts bytes.
\<close>

named_theorems go_map_simps \<open>reading a Go map after it was written\<close>
named_theorems stream_simps \<open>buffer arithmetic of the guacd stream\<close>
named_theorems room_frame \<open>what a room operation leaves unchanged\<close>

type_synonym byte = char

text \<open>How a Go call ends: it returns a value, it returns an error, or it panics.\<close>

datatype ('e, 'a) outcome = Val 'a | Fail 'e | Panic

text \<open>
  \<open>int\<close> of the 64-bit build: the mathematical result reduced to two's complement.
\<close>

definition wrap64 :: "int \<Rightarrow> int" where
  "wrap64 x = (x + 2 ^ 63) mod 2 ^ 64 - 2 ^ 63"

lemma wrap64_id [simp]: "- (2 ^ 63) \<le> x \<Longrightarrow> x < 2 ^ 63 \<Longrightarrow> wrap64 x = x"
  by (simp add: wrap64_def)

lemma wrap64_range: "- (2 ^ 63) \<le> wrap64 x \<and> wrap64 x < 2 ^ 63"
  unfolding wrap64_def using pos_mod_bound [of "2 ^ 64 :: int" "x + 2 ^ 63"]
    pos_mod_sign [of "2 ^ 64 :: int" "x + 2 ^ 63"] by simp

lemma wrap64_nat: "n < 2 ^ 63 \<Longrightarrow> wrap64 (int n) = int n"
proof -
  assume "n < 2 ^ 63"
  then have "int n < 2 ^ 63" by (metis of_nat_less_iff of_nat_numeral of_nat_power)
  then show ?thesis by simp
qed

section \<open>Keyed stores\<close>

text \<open>
  What the program relies on in a Go map (and in the stores it wraps around one):
  the last write to a key is what a read returns, a deleted key is absent, and the
  keys a \<open>range\<close> loop visits are the present ones, each once.
\<close>

locale keyed_store =
  fixes get :: "'m \<Rightarrow> 'k \<Rightarrow> 'v option"
    and put :: "'k \<Rightarrow> 'v \<Rightarrow> 'm \<Rightarrow> 'm"
    and del :: "'k \<Rightarrow> 'm \<Rightarrow> 'm"
    and keys :: "'m \<Rightarrow> 'k list"
    and invar :: "'m \<Rightarrow> bool"
  assumes get_put: "get (put k v m) k' = (if k' = k then Some v else get m k')"
    and get_del: "get (del k m) k' = (if k' = k then None else get m k')"
    and keys_dom: "set (keys m) = {k. get m k \<noteq> None}"
    and invar_put: "invar m \<Longrightarrow> invar (put k v m)"
    and invar_del: "invar m \<Longrightarrow> invar (del k m)"
    and keys_distinct: "invar m \<Longrightarrow> distinct (keys m)"
begin

lemma get_put_same: "get (put k v m) k = Some v"
  by (simp add: get_put)

lemma get_del_same: "get (del k m) k = None"
  by (simp add: get_del)

lemma get_del_put: "get (del k (put k v m)) k' = get (del k m) k'"
  by (simp add: get_del get_put)

lemma keys_put: "set (keys (put k v m)) = insert k (set (keys m))"
  by (auto simp: keys_dom get_put)

lemma keys_del: "set (keys (del k m)) = set (keys m) - {k}"
  by (auto simp: keys_dom get_del)

lemma length_keys_put:
  assumes "invar m"
  shows "length (keys (put k v m)) = (if get m k = None then Suc (length (keys m)) else length (keys m))"
proof -
  have "length (keys (put k v m)) = card (insert k (set (keys m)))"
    using keys_distinct [OF invar_put [OF assms]] by (metis distinct_card keys_put)
  moreover have "length (keys m) = card (set (keys m))"
    using keys_distinct [OF assms] by (simp add: distinct_card)
  moreover have "(k \<in> set (keys m)) = (get m k \<noteq> None)"
    by (simp add: keys_dom)
  ultimately show ?thesis by (metis List.finite_set card_insert_if)
qed

lemma length_keys_del: "invar m \<Longrightarrow> length (keys (del k m)) \<le> length (keys m)"
  by (metis (full_types) Diff_subset List.finite_set card_mono distinct_card invar_del keys_del
      keys_distinct)

text \<open>Deleting a list of keys, one after the other.\<close>

lemma get_fold_del: "get (fold del ks m) k = (if k \<in> set ks then None else get m k)"
  by (induction ks arbitrary: m) (auto simp: get_del)

lemma invar_fold_del: "invar m \<Longrightarrow> invar (fold del ks m)"
  by (induction ks arbitrary: m) (auto simp: invar_del)

end

section \<open>Go maps\<close>

text \<open>
  A Go \<open>map[string]V\<close> is an association list with distinct keys. \<open>range\<close> visits
  the keys in an order the language does not fix: every loop over a map takes its
  visiting order from a function on key lists, of which only that it permutes is
  assumed (\<open>is_order\<close>).
\<close>

type_synonym 'v gomap = "(string \<times> 'v) list"

abbreviation map_put :: "string \<Rightarrow> 'v \<Rightarrow> 'v gomap \<Rightarrow> 'v gomap" where
  "map_put \<equiv> AList.update"

abbreviation map_del :: "string \<Rightarrow> 'v gomap \<Rightarrow> 'v gomap" where
  "map_del \<equiv> AList.delete"

abbreviation map_keys :: "'v gomap \<Rightarrow> string list" where
  "map_keys m \<equiv> map fst m"

definition map_ok :: "'v gomap \<Rightarrow> bool" where
  "map_ok m \<longleftrightarrow> distinct (map_keys m)"

definition is_order :: "(string list \<Rightarrow> string list) \<Rightarrow> bool" where
  "is_order ord \<longleftrightarrow> (\<forall>ks. set (ord ks) = set ks \<and> length (ord ks) = length ks)"

lemma is_order_id [simp]: "is_order (\<lambda>ks. ks)"
  by (simp add: is_order_def)

lemma is_order_rev [simp]: "is_order rev"
  by (simp add: is_order_def)

lemma order_set [simp]: "is_order ord \<Longrightarrow> set (ord ks) = set ks"
  by (simp add: is_order_def)

lemma order_length [simp]: "is_order ord \<Longrightarrow> length (ord ks) = length ks"
  by (simp add: is_order_def)

lemma order_distinct: "is_order ord \<Longrightarrow> distinct ks \<Longrightarrow> distinct (ord ks)"
  by (metis card_distinct distinct_card order_length order_set)

interpretation gm: keyed_store "map_of :: 'v gomap \<Rightarrow> string \<Rightarrow> 'v option" map_put map_del map_keys map_ok
proof
  fix m :: "'v gomap" and k k' :: string and v :: 'v
  show "map_of (map_put k v m) k' = (if k' = k then Some v else map_of m k')"
    by (simp add: update_conv')
  show "map_of (map_del k m) k' = (if k' = k then None else map_of m k')"
    by (simp add: delete_conv')
  show "set (map_keys m) = {k. map_of m k \<noteq> None}"
    by (auto simp: map_of_eq_None_iff)
  show "map_ok m \<Longrightarrow> map_ok (map_put k v m)"
    by (simp add: map_ok_def distinct_update)
  show "map_ok m \<Longrightarrow> map_ok (map_del k m)"
    by (simp add: map_ok_def distinct_delete)
  show "map_ok m \<Longrightarrow> distinct (map_keys m)"
    by (simp add: map_ok_def)
qed

lemmas go_map [go_map_simps] = gm.get_put gm.get_del gm.get_fold_del

lemma map_ok_Nil [simp]: "map_ok []"
  by (simp add: map_ok_def)

lemma map_ok_single [simp]: "map_ok [kv]"
  by (simp add: map_ok_def)

lemma length_map_put: "map_ok m \<Longrightarrow>
    length (map_put k v m) = (if map_of m k = None then Suc (length m) else length m)"
  using gm.length_keys_put [of m k v] by simp

lemma map_put_present: "map_of m k \<noteq> None \<Longrightarrow> map_keys (map_put k v m) = map_keys m"
  by (metis map_of_eq_None_iff list.set_map update_keys)

lemma map_key_mem: "map_of m k = Some v \<Longrightarrow> k \<in> set (map_keys m)"
  by (metis gm.keys_dom mem_Collect_eq option.distinct(1))

section \<open>Lists\<close>

lemma drop_hd_tl: "i < length xs \<Longrightarrow> drop i xs = xs ! i # drop (Suc i) xs"
  by (rule Cons_nth_drop_Suc [symmetric])

lemma nth_append_left_drop: "drop (length xs) (xs @ ys) = ys" and "take (length xs) (xs @ ys) = xs"
  by simp_all

end
