(* ===== verification/GoStd.thy ===== *)
theory GoStd
  imports Prelude
begin

text \<open>
  The parts of Go's standard library the program uses on bytes and strings:
  \<open>unicode/utf8\<close> (DecodeRune, AppendRune), \<open>strconv\<close> (Atoi, decimal printing),
  \<open>bytes\<close>/\<open>strings\<close> (HasPrefix, Contains, Split, Join, IndexByte, TrimSpace on
  ASCII) and the string encoder of \<open>encoding/json\<close>. Runes are code points of
  type \<open>nat\<close>.
\<close>

section \<open>Bytes and digits\<close>

definition ord :: "byte \<Rightarrow> nat" where
  "ord c = of_char c"

definition chr :: "nat \<Rightarrow> byte" where
  "chr n = char_of n"

lemma ord_less [simp]: "ord c < 256"
  by (simp add: ord_def)

lemma ord_chr [simp]: "n < 256 \<Longrightarrow> ord (chr n) = n"
  by (simp add: ord_def chr_def)

lemma chr_ord [simp]: "chr (ord c) = c"
  by (simp add: ord_def chr_def)

lemma ord_Char [simp]: "ord (Char b0 b1 b2 b3 b4 b5 b6 b7) = of_char (Char b0 b1 b2 b3 b4 b5 b6 b7)"
  by (simp add: ord_def)

lemma ord_inj: "ord a = ord b \<longleftrightarrow> a = b"
  by (metis chr_ord)

definition is_digit :: "byte \<Rightarrow> bool" where
  "is_digit c \<longleftrightarrow> 48 \<le> ord c \<and> ord c \<le> 57"

definition digit_val :: "byte \<Rightarrow> nat" where
  "digit_val c = ord c - 48"

definition digit_char :: "nat \<Rightarrow> byte" where
  "digit_char d = chr (48 + d)"

lemma digit_char [simp]: "d < 10 \<Longrightarrow> is_digit (digit_char d)" "d < 10 \<Longrightarrow> digit_val (digit_char d) = d"
  by (simp_all add: is_digit_def digit_val_def digit_char_def)

lemma is_digit_neq: "is_digit c \<Longrightarrow> c \<noteq> CHR ''.''" "is_digit c \<Longrightarrow> c \<noteq> CHR ''+''"
  "is_digit c \<Longrightarrow> c \<noteq> CHR ''-''" "is_digit c \<Longrightarrow> c \<noteq> CHR '';''" "is_digit c \<Longrightarrow> c \<noteq> CHR '',''"
  by (auto simp: is_digit_def ord_def)

text \<open>\<open>fmt.Sprintf("%d", n)\<close> of a non-negative number.\<close>

fun dec :: "nat \<Rightarrow> string" where
  "dec n = (if n < 10 then [digit_char n] else dec (n div 10) @ [digit_char (n mod 10)])"

declare dec.simps [simp del]

definition dec_int :: "int \<Rightarrow> string" where
  "dec_int i = (if i < 0 then ''-'' @ dec (nat (- i)) else dec (nat i))"

lemma dec_not_Nil [simp]: "dec n \<noteq> []"
  by (subst dec.simps) simp

lemma dec_digits: "c \<in> set (dec n) \<Longrightarrow> is_digit c"
proof (induction n rule: dec.induct)
  case (1 n)
  then show ?case
    by (cases "n < 10") (auto simp: dec.simps [of n])
qed

section \<open>\<open>strconv.Atoi\<close>\<close>

datatype num_error = ErrSyntax | ErrRange

text \<open>
  \<open>strconv.ParseUint(s, 10, 64)\<close> after the empty-string test: the digits are read
  left to right and the first bad one (or the first overflow) decides the error.
\<close>

fun ParseUint_digits :: "nat \<Rightarrow> string \<Rightarrow> num_error + nat" where
  "ParseUint_digits n [] = Inr n"
| "ParseUint_digits n (c # cs) =
     (if is_digit c
      then (let n1 = n * 10 + digit_val c
            in if n1 < 2 ^ 64 then ParseUint_digits n1 cs else Inl ErrRange)
      else Inl ErrSyntax)"

definition Atoi :: "string \<Rightarrow> num_error + int" where
  "Atoi s =
     (if s = [] then Inl ErrSyntax
      else let neg = (hd s = CHR ''-'');
               t = (if hd s = CHR ''+'' \<or> hd s = CHR ''-'' then tl s else s)
           in if t = [] then Inl ErrSyntax
              else case ParseUint_digits 0 t of
                     Inl e \<Rightarrow> Inl e
                   | Inr un \<Rightarrow>
                       if \<not> neg \<and> 2 ^ 63 \<le> un then Inl ErrRange
                       else if neg \<and> 2 ^ 63 < un then Inl ErrRange
                       else Inr (if neg then - int un else int un))"

lemma ParseUint_digits_append:
  "ParseUint_digits n (xs @ ys) =
     (case ParseUint_digits n xs of Inl e \<Rightarrow> Inl e | Inr m \<Rightarrow> ParseUint_digits m ys)"
  by (induction n xs rule: ParseUint_digits.induct) (auto simp: Let_def)

lemma ParseUint_dec: "n < 2 ^ 64 \<Longrightarrow> ParseUint_digits 0 (dec n) = Inr n"
proof (induction n rule: dec.induct)
  case (1 n)
  show ?case
  proof (cases "n < 10")
    case True
    with "1.prems" show ?thesis by (simp add: dec.simps [of n] Let_def)
  next
    case False
    then have "n div 10 < 2 ^ 64" using "1.prems" by simp
    with "1.IH" False have "ParseUint_digits 0 (dec (n div 10)) = Inr (n div 10)" by simp
    moreover have "n div 10 * 10 + n mod 10 = n" by simp
    ultimately show ?thesis using False "1.prems"
      by (simp add: dec.simps [of n] ParseUint_digits_append Let_def)
  qed
qed

lemma Atoi_dec: "n < 2 ^ 63 \<Longrightarrow> Atoi (dec n) = Inr (int n)"
proof -
  assume n: "n < 2 ^ 63"
  have "is_digit (hd (dec n))" by (rule dec_digits [of _ n]) simp
  then have "hd (dec n) \<noteq> CHR ''+''" and "hd (dec n) \<noteq> CHR ''-''" by (auto dest: is_digit_neq)
  with n show ?thesis by (simp add: Atoi_def ParseUint_dec)
qed

section \<open>\<open>unicode/utf8\<close>\<close>

definition RuneError :: nat where
  "RuneError = 0xFFFD"

text \<open>
  The tables \<open>first\<close> and \<open>acceptRanges\<close>: for a leading byte that starts a
  multi-byte sequence, its size and the range of the second byte.
\<close>

definition lead :: "nat \<Rightarrow> (nat \<times> nat \<times> nat) option" where
  "lead b =
     (if b < 0xC2 then None
      else if b \<le> 0xDF then Some (2, 0x80, 0xBF)
      else if b = 0xE0 then Some (3, 0xA0, 0xBF)
      else if b = 0xED then Some (3, 0x80, 0x9F)
      else if b \<le> 0xEF then Some (3, 0x80, 0xBF)
      else if b = 0xF0 then Some (4, 0x90, 0xBF)
      else if b \<le> 0xF3 then Some (4, 0x80, 0xBF)
      else if b = 0xF4 then Some (4, 0x80, 0x8F)
      else None)"

definition cont :: "nat \<Rightarrow> bool" where
  "cont b \<longleftrightarrow> 0x80 \<le> b \<and> b \<le> 0xBF"

definition DecodeRune :: "byte list \<Rightarrow> nat \<times> nat" where
  "DecodeRune p =
     (case p of
        [] \<Rightarrow> (RuneError, 0)
      | c0 # _ \<Rightarrow>
          let p0 = ord c0 in
          if p0 < 0x80 then (p0, 1)
          else case lead p0 of
                 None \<Rightarrow> (RuneError, 1)
               | Some (sz, lo, hi) \<Rightarrow>
                   if length p < sz then (RuneError, 1)
                   else let b1 = ord (p ! 1) in
                     if b1 < lo \<or> hi < b1 then (RuneError, 1)
                     else if sz \<le> 2 then ((p0 mod 0x20) * 0x40 + b1 mod 0x40, 2)
                     else let b2 = ord (p ! 2) in
                       if \<not> cont b2 then (RuneError, 1)
                       else if sz \<le> 3
                       then ((p0 mod 0x10) * 0x1000 + (b1 mod 0x40) * 0x40 + b2 mod 0x40, 3)
                       else let b3 = ord (p ! 3) in
                         if \<not> cont b3 then (RuneError, 1)
                         else ((p0 mod 0x08) * 0x40000 + (b1 mod 0x40) * 0x1000
                                 + (b2 mod 0x40) * 0x40 + b3 mod 0x40, 4))"

definition valid_rune :: "nat \<Rightarrow> bool" where
  "valid_rune r \<longleftrightarrow> r \<le> 0x10FFFF \<and> \<not> (0xD800 \<le> r \<and> r \<le> 0xDFFF)"

text \<open>The bytes that \<open>utf8.AppendRune\<close> appends.\<close>

definition EncodeRune :: "nat \<Rightarrow> byte list" where
  "EncodeRune r0 =
     (let r = (if valid_rune r0 then r0 else RuneError) in
      if r < 0x80 then [chr r]
      else if r < 0x800 then [chr (0xC0 + r div 0x40), chr (0x80 + r mod 0x40)]
      else if r < 0x10000
      then [chr (0xE0 + r div 0x1000), chr (0x80 + (r div 0x40) mod 0x40), chr (0x80 + r mod 0x40)]
      else [chr (0xF0 + r div 0x40000), chr (0x80 + (r div 0x1000) mod 0x40),
            chr (0x80 + (r div 0x40) mod 0x40), chr (0x80 + r mod 0x40)])"

definition utf8 :: "nat list \<Rightarrow> byte list" where
  "utf8 rs = concat (map EncodeRune rs)"

lemma utf8_Nil [simp]: "utf8 [] = []"
  by (simp add: utf8_def)

lemma utf8_Cons [simp]: "utf8 (r # rs) = EncodeRune r @ utf8 rs"
  by (simp add: utf8_def)

lemma utf8_append: "utf8 (rs @ ss) = utf8 rs @ utf8 ss"
  by (simp add: utf8_def)

lemma EncodeRune_not_Nil [simp]: "EncodeRune r \<noteq> []"
  by (simp add: EncodeRune_def Let_def)

lemma length_EncodeRune_pos [simp]: "0 < length (EncodeRune r)"
  by simp

lemma length_EncodeRune_ge: "Suc 0 \<le> length (EncodeRune r)"
  by (simp add: Suc_le_eq)

lemma length_utf8_ge: "length rs \<le> length (utf8 rs)"
proof (induction rs)
  case (Cons r rs)
  then show ?case using length_EncodeRune_ge [of r] by simp
qed simp

lemma DecodeRune_size: "snd (DecodeRune p) \<le> length p"
  by (auto simp: DecodeRune_def lead_def Let_def Suc_le_eq not_less split: list.split)

lemma DecodeRune_Nil [simp]: "DecodeRune [] = (RuneError, 0)"
  by (simp add: DecodeRune_def)

lemma DecodeRune_pos: "p \<noteq> [] \<Longrightarrow> 0 < snd (DecodeRune p)"
  by (auto simp: DecodeRune_def lead_def Let_def split: list.split)

lemma DecodeRune_ascii: "ord c < 0x80 \<Longrightarrow> DecodeRune (c # cs) = (ord c, 1)"
  by (simp add: DecodeRune_def)

text \<open>Encoding then decoding: the decoder reads back the rune and exactly its bytes.\<close>

lemma DecodeRune_seq2:
  assumes "lead (ord c0) = Some (2, lo, hi)" and "0x80 \<le> ord c0"
    and "lo \<le> ord c1" and "ord c1 \<le> hi"
  shows "DecodeRune (c0 # c1 # rest) = ((ord c0 mod 0x20) * 0x40 + ord c1 mod 0x40, 2)"
  using assms by (simp add: DecodeRune_def Let_def)

lemma DecodeRune_seq3:
  assumes "lead (ord c0) = Some (3, lo, hi)" and "0x80 \<le> ord c0"
    and "lo \<le> ord c1" and "ord c1 \<le> hi" and "cont (ord c2)"
  shows "DecodeRune (c0 # c1 # c2 # rest) =
    ((ord c0 mod 0x10) * 0x1000 + (ord c1 mod 0x40) * 0x40 + ord c2 mod 0x40, 3)"
  using assms by (simp add: DecodeRune_def Let_def)

lemma DecodeRune_seq4:
  assumes "lead (ord c0) = Some (4, lo, hi)" and "0x80 \<le> ord c0"
    and "lo \<le> ord c1" and "ord c1 \<le> hi" and "cont (ord c2)" and "cont (ord c3)"
  shows "DecodeRune (c0 # c1 # c2 # c3 # rest) =
    ((ord c0 mod 0x08) * 0x40000 + (ord c1 mod 0x40) * 0x1000 + (ord c2 mod 0x40) * 0x40
       + ord c3 mod 0x40, 4)"
  using assms by (simp add: DecodeRune_def Let_def)

lemma six_bits:
  assumes "b < 0x40"
  shows "(0x80 + b) mod 0x40 = (b :: nat)" and "cont (0x80 + b)" and "ord (chr (0x80 + b)) = 0x80 + b"
  using assms mod_add_self1 [of "0x40" "0x40 + b"] by (simp_all add: cont_def)

lemma split_base3: "(n :: nat) = n div 0x1000 * 0x1000 + (n div 0x40) mod 0x40 * 0x40 + n mod 0x40"
proof -
  have "n div 0x1000 = n div 0x40 div 0x40" by (simp add: div_mult2_eq)
  then have "n div 0x40 = n div 0x1000 * 0x40 + (n div 0x40) mod 0x40" by simp
  moreover have "n = n div 0x40 * 0x40 + n mod 0x40" by simp
  ultimately show ?thesis by linarith
qed

lemma split_base4: "(n :: nat) = n div 0x40000 * 0x40000 + (n div 0x1000) mod 0x40 * 0x1000
    + (n div 0x40) mod 0x40 * 0x40 + n mod 0x40"
proof -
  have "n div 0x40000 = n div 0x1000 div 0x40" by (simp add: div_mult2_eq)
  then have "n div 0x1000 = n div 0x40000 * 0x40 + (n div 0x1000) mod 0x40" by simp
  then show ?thesis using split_base3 [of n] by linarith
qed

lemma DecodeRune_2:
  assumes "0x80 \<le> r" and "r < 0x800"
  shows "DecodeRune (EncodeRune r @ rest) = (r, length (EncodeRune r))"
proof -
  define a b where "a = r div 0x40" and "b = r mod 0x40"
  have r: "r = a * 0x40 + b" by (simp add: a_def b_def)
  have a: "2 \<le> a" "a < 0x20" and b: "b < 0x40"
    using assms by (auto simp: a_def b_def)
  have "valid_rune r" using assms by (simp add: valid_rune_def)
  then have enc: "EncodeRune r = [chr (0xC0 + a), chr (0x80 + b)]"
    using assms by (simp add: EncodeRune_def a_def b_def)
  have o: "ord (chr (0xC0 + a)) = 0xC0 + a" using a by simp
  have l: "lead (0xC0 + a) = Some (2, 0x80, 0xBF)" using a by (simp add: lead_def)
  have m: "(0xC0 + a) mod 0x20 = a" using mod_mult_self3 [of 6 "0x20" a] a by simp
  have "DecodeRune (chr (0xC0 + a) # chr (0x80 + b) # rest) = (a * 0x40 + b, 2)"
    using b by (subst DecodeRune_seq2) (simp_all only: o l m six_bits, simp_all)
  then show ?thesis by (simp add: enc flip: r)
qed

lemma DecodeRune_3:
  assumes "0x800 \<le> r" and "r < 0x10000" and v: "valid_rune r"
  shows "DecodeRune (EncodeRune r @ rest) = (r, length (EncodeRune r))"
proof -
  define a b c where "a = r div 0x1000" and "b = (r div 0x40) mod 0x40" and "c = r mod 0x40"
  have r: "r = a * 0x1000 + b * 0x40 + c"
    unfolding a_def b_def c_def by (rule split_base3)
  have a: "a < 16" and b: "b < 0x40" and c: "c < 0x40"
    using assms by (auto simp: a_def b_def c_def)
  have lo: "a = 0 \<Longrightarrow> 0x20 \<le> b" using assms(1) r b c by simp
  have hi: "a = 0xD \<Longrightarrow> b < 0x20" using v r b c by (auto simp: valid_rune_def)
  have enc: "EncodeRune r = [chr (0xE0 + a), chr (0x80 + b), chr (0x80 + c)]"
    using assms by (simp add: EncodeRune_def a_def b_def c_def)
  have o: "ord (chr (0xE0 + a)) = 0xE0 + a" using a by simp
  have l: "lead (0xE0 + a) = Some (3, if a = 0 then 0xA0 else 0x80, if a = 0xD then 0x9F else 0xBF)"
    using a by (auto simp: lead_def)
  have m: "(0xE0 + a) mod 0x10 = a" using mod_mult_self3 [of 14 "0x10" a] a by simp
  have "DecodeRune (chr (0xE0 + a) # chr (0x80 + b) # chr (0x80 + c) # rest)
      = (a * 0x1000 + b * 0x40 + c, 3)"
    using b c lo hi by (subst DecodeRune_seq3) (simp_all only: o l m six_bits, auto)
  then show ?thesis by (simp add: enc flip: r)
qed

lemma DecodeRune_4:
  assumes "0x10000 \<le> r" and "r \<le> 0x10FFFF"
  shows "DecodeRune (EncodeRune r @ rest) = (r, length (EncodeRune r))"
proof -
  define a b c d where "a = r div 0x40000" and "b = (r div 0x1000) mod 0x40"
    and "c = (r div 0x40) mod 0x40" and "d = r mod 0x40"
  have r: "r = a * 0x40000 + b * 0x1000 + c * 0x40 + d"
    unfolding a_def b_def c_def d_def by (rule split_base4)
  have a: "a \<le> 4" using assms by (simp add: a_def)
  have b: "b < 0x40" and c: "c < 0x40" and d: "d < 0x40"
    by (auto simp: b_def c_def d_def)
  have lo: "a = 0 \<Longrightarrow> 0x10 \<le> b" using assms(1) r b c d by simp
  have hi: "a = 4 \<Longrightarrow> b < 0x10" using assms(2) r b c d by simp
  have "valid_rune r" using assms by (simp add: valid_rune_def)
  then have enc: "EncodeRune r = [chr (0xF0 + a), chr (0x80 + b), chr (0x80 + c), chr (0x80 + d)]"
    using assms by (simp add: EncodeRune_def a_def b_def c_def d_def)
  have o: "ord (chr (0xF0 + a)) = 0xF0 + a" using a by simp
  have l: "lead (0xF0 + a) = Some (4, if a = 0 then 0x90 else 0x80, if a = 4 then 0x8F else 0xBF)"
    using a by (auto simp: lead_def)
  have m: "(0xF0 + a) mod 0x08 = a" using mod_mult_self3 [of 30 "0x08" a] a by simp
  have "DecodeRune (chr (0xF0 + a) # chr (0x80 + b) # chr (0x80 + c) # chr (0x80 + d) # rest)
      = (a * 0x40000 + b * 0x1000 + c * 0x40 + d, 4)"
    using b c d lo hi by (subst DecodeRune_seq4) (simp_all only: o l m six_bits, auto)
  then show ?thesis by (simp add: enc flip: r)
qed

lemma DecodeRune_EncodeRune:
  assumes "valid_rune r"
  shows "DecodeRune (EncodeRune r @ rest) = (r, length (EncodeRune r))"
proof -
  consider "r < 0x80" | "0x80 \<le> r" "r < 0x800" | "0x800 \<le> r" "r < 0x10000" | "0x10000 \<le> r"
    by linarith
  then show ?thesis
  proof cases
    case 1
    with assms show ?thesis by (simp add: EncodeRune_def DecodeRune_def)
  next
    case 4
    with assms show ?thesis by (simp add: DecodeRune_4 valid_rune_def)
  qed (use assms DecodeRune_2 DecodeRune_3 in blast)+
qed

end
