(* ===== verification/GoStrings.thy ===== *)
theory GoStrings
  imports GoStd
begin

text \<open>
  The string functions of \<open>strings\<close> and \<open>bytes\<close> that the program calls, and the
  encoder of \<open>encoding/json\<close> for the values it marshals.
\<close>

section \<open>Prefixes, searching, splitting\<close>

fun HasPrefix :: "byte list \<Rightarrow> byte list \<Rightarrow> bool" where
  "HasPrefix s [] = True"
| "HasPrefix [] (y # ys) = False"
| "HasPrefix (x # xs) (y # ys) = (x = y \<and> HasPrefix xs ys)"

lemma HasPrefix_iff: "HasPrefix s p \<longleftrightarrow> prefix p s"
  by (induction s p rule: HasPrefix.induct) auto

lemma HasPrefix_append [simp]: "HasPrefix (p @ s) p"
  by (simp add: HasPrefix_iff)

lemma HasPrefix_appendI: "HasPrefix s p \<Longrightarrow> HasPrefix (s @ t) p"
  by (auto simp: HasPrefix_iff prefix_def)

fun Contains :: "string \<Rightarrow> string \<Rightarrow> bool" where
  "Contains [] sub = (sub = [])"
| "Contains (x # xs) sub = (HasPrefix (x # xs) sub \<or> Contains xs sub)"

lemma Contains_iff: "Contains s sub \<longleftrightarrow> sublist sub s"
  by (induction s sub rule: Contains.induct) (auto simp: HasPrefix_iff sublist_Cons_right)

text \<open>\<open>strings.Split(s, sep)\<close> for a one-byte separator.\<close>

fun Split :: "byte \<Rightarrow> string \<Rightarrow> string list" where
  "Split c [] = [[]]"
| "Split c (x # xs) =
     (if x = c then [] # Split c xs
      else case Split c xs of [] \<Rightarrow> [[x]] | y # ys \<Rightarrow> (x # y) # ys)"

fun Join :: "string \<Rightarrow> string list \<Rightarrow> string" where
  "Join sep [] = []"
| "Join sep [x] = x"
| "Join sep (x # y # ys) = x @ sep @ Join sep (y # ys)"

lemma Split_not_Nil [simp]: "Split c s \<noteq> []"
  by (induction s) (auto split: list.split)

lemma Join_Split: "Join [c] (Split c s) = s"
proof (induction s)
  case (Cons x xs)
  obtain y ys where "Split c xs = y # ys" by (meson Split_not_Nil list.exhaust)
  with Cons show ?case by (cases ys) auto
qed simp

lemma Split_free: "c \<notin> set s \<Longrightarrow> Split c s = [s]"
  by (induction s) auto

lemma Split_at: "c \<notin> set a \<Longrightarrow> Split c (a @ c # b) = a # Split c b"
  by (induction a) auto

text \<open>\<open>bytes.IndexByte\<close>: the first index, or \<open>-1\<close>.\<close>

fun IndexByte_from :: "nat \<Rightarrow> byte list \<Rightarrow> byte \<Rightarrow> int" where
  "IndexByte_from i [] c = -1"
| "IndexByte_from i (x # xs) c = (if x = c then int i else IndexByte_from (Suc i) xs c)"

definition IndexByte :: "byte list \<Rightarrow> byte \<Rightarrow> int" where
  "IndexByte s c = IndexByte_from 0 s c"

text \<open>\<open>strings.TrimSpace\<close>: the encodings of the Unicode spaces are stripped at both ends.\<close>

definition spaces :: "nat list" where
  "spaces = [9, 10, 11, 12, 13, 32, 0x85, 0xA0, 0x1680] @ [0x2000..<0x200B] @ [0x2028, 0x2029, 0x202F, 0x205F, 0x3000]"

definition space_at :: "byte list \<Rightarrow> nat" where
  "space_at s = (let (r, size) = DecodeRune s in if s \<noteq> [] \<and> r \<in> set spaces then size else 0)"

function TrimLeft :: "byte list \<Rightarrow> byte list" where
  "TrimLeft s = (if s \<noteq> [] \<and> 0 < space_at s then TrimLeft (drop (space_at s) s) else s)"
  by pat_completeness auto
termination
  by (relation "measure length") auto

declare TrimLeft.simps [simp del]

text \<open>The shortest suffix that is one encoded space.\<close>

definition space_end :: "byte list \<Rightarrow> nat" where
  "space_end s = (case filter (\<lambda>n. n \<le> length s \<and> space_at (drop (length s - n) s) = n) [1, 2, 3] of
     [] \<Rightarrow> 0 | n # _ \<Rightarrow> n)"

lemma space_end_le: "space_end s \<le> length s"
proof (cases "filter (\<lambda>n. n \<le> length s \<and> space_at (drop (length s - n) s) = n) [1, 2, 3]")
  case (Cons n ns)
  then have "n \<in> set (filter (\<lambda>n. n \<le> length s \<and> space_at (drop (length s - n) s) = n) [1, 2, 3])" by simp
  then have "n \<le> length s" unfolding set_filter by blast
  with Cons show ?thesis by (simp only: space_end_def list.case)
qed (simp only: space_end_def list.case)

function TrimRight :: "byte list \<Rightarrow> byte list" where
  "TrimRight s = (if s \<noteq> [] \<and> 0 < space_end s then TrimRight (take (length s - space_end s) s) else s)"
  by pat_completeness auto
termination
  by (relation "measure length") auto

declare TrimRight.simps [simp del]

definition TrimSpace :: "string \<Rightarrow> string" where
  "TrimSpace s = TrimRight (TrimLeft s)"

section \<open>\<open>encoding/base64\<close>\<close>

definition b64_val :: "byte \<Rightarrow> nat option" where
  "b64_val c = (let n = ord c in
     if 65 \<le> n \<and> n \<le> 90 then Some (n - 65)
     else if 97 \<le> n \<and> n \<le> 122 then Some (n - 71)
     else if 48 \<le> n \<and> n \<le> 57 then Some (n + 4)
     else if n = 43 then Some 62 else if n = 47 then Some 63 else None)"

definition b64_bytes :: "nat \<Rightarrow> nat \<Rightarrow> nat \<Rightarrow> nat \<Rightarrow> byte list" where
  "b64_bytes a b c d =
     (let v = ((a * 64 + b) * 64 + c) * 64 + d
      in [chr (v div 65536), chr (v div 256 mod 256), chr (v mod 256)])"

fun b64_quads :: "byte list \<Rightarrow> byte list option" where
  "b64_quads [] = Some []"
| "b64_quads [a, b, c, d] =
     (case (b64_val a, b64_val b, b64_val c, b64_val d) of
        (Some x, Some y, Some z, Some u) \<Rightarrow> Some (b64_bytes x y z u)
      | (Some x, Some y, Some z, None) \<Rightarrow> if d = CHR ''='' then Some (take 2 (b64_bytes x y z 0)) else None
      | (Some x, Some y, None, None) \<Rightarrow> if c = CHR ''='' \<and> d = CHR ''='' then Some (take 1 (b64_bytes x y 0 0)) else None
      | _ \<Rightarrow> None)"
| "b64_quads (a # b # c # d # e # cs) =
     (case (b64_val a, b64_val b, b64_val c, b64_val d, b64_quads (e # cs)) of
        (Some x, Some y, Some z, Some u, Some bs) \<Rightarrow> Some (b64_bytes x y z u @ bs)
      | _ \<Rightarrow> None)"
| "b64_quads cs = None"

text \<open>\<open>base64.StdEncoding.DecodeString\<close>: line breaks are skipped, padding is required.\<close>

definition b64_decode :: "string \<Rightarrow> byte list option" where
  "b64_decode s = b64_quads (filter (\<lambda>c. ord c \<noteq> 10 \<and> ord c \<noteq> 13) s)"

section \<open>\<open>encoding/json\<close>\<close>

definition hex_digit :: "nat \<Rightarrow> byte" where
  "hex_digit d = (if d < 10 then chr (48 + d) else chr (87 + d))"

definition json_safe :: "nat \<Rightarrow> bool" where
  "json_safe b \<longleftrightarrow> 0x20 \<le> b \<and> b < 0x80 \<and> b \<noteq> 0x22 \<and> b \<noteq> 0x5C \<and> b \<noteq> 0x3C \<and> b \<noteq> 0x3E \<and> b \<noteq> 0x26"

definition json_escape :: "nat \<Rightarrow> string" where
  "json_escape b =
     (if b = 0x22 \<or> b = 0x5C then [CHR 0x5C, chr b]
      else if b = 8 then [CHR 0x5C, CHR ''b'']
      else if b = 12 then [CHR 0x5C, CHR ''f'']
      else if b = 10 then [CHR 0x5C, CHR ''n'']
      else if b = 13 then [CHR 0x5C, CHR ''r'']
      else if b = 9 then [CHR 0x5C, CHR ''t'']
      else [CHR 0x5C, CHR ''u'', CHR ''0'', CHR ''0'', hex_digit (b div 16), hex_digit (b mod 16)])"

function json_body :: "byte list \<Rightarrow> string" where
  "json_body [] = []"
| "json_body (c # cs) =
     (let b = ord c in
      if b < 0x80 then (if json_safe b then [c] else json_escape b) @ json_body cs
      else let (r, size) = DecodeRune (c # cs) in
        (if r = RuneError \<and> size = 1 then [CHR 0x5C, CHR ''u'', CHR ''f'', CHR ''f'', CHR ''f'', CHR ''d'']
         else if r = 0x2028 \<or> r = 0x2029
         then [CHR 0x5C, CHR ''u'', CHR ''2'', CHR ''0'', CHR ''2'', hex_digit (r mod 16)]
         else take size (c # cs)) @ json_body (drop size (c # cs)))"
  by pat_completeness auto
termination
proof (relation "measure length", goal_cases)
  case (3 c cs x p r size)
  then have "0 < size" using DecodeRune_pos [of "c # cs"] by (metis list.distinct(1) snd_conv)
  then show ?case by simp
qed auto

definition json_string :: "string \<Rightarrow> string" where
  "json_string s = [CHR 0x22] @ json_body s @ [CHR 0x22]"

datatype json =
  JNull | JBool bool | JInt int | JStr string | JArr "json list" | JObj "(string \<times> json) list"

text \<open>\<open>json.Marshal\<close>; the members of an object are listed in the order they are written.\<close>

fun json_enc :: "json \<Rightarrow> string" where
  "json_enc JNull = ''null''"
| "json_enc (JBool b) = (if b then ''true'' else ''false'')"
| "json_enc (JInt i) = dec_int i"
| "json_enc (JStr s) = json_string s"
| "json_enc (JArr js) = ''['' @ Join '','' (map json_enc js) @ '']''"
| "json_enc (JObj kvs) =
     ''{'' @ Join '','' (map (\<lambda>(k, v). json_string k @ '':'' @ json_enc v) kvs) @ ''}''"

lemma json_body_safe:
  assumes "\<forall>c \<in> set s. json_safe (ord c)"
  shows "json_body s = s"
  using assms by (induction s) (auto simp: Let_def json_safe_def)

end
