(* ===== verification/GuacErrors.thy ===== *)
theory GuacErrors
  imports GoStrings
begin

text \<open>
  \<open>pkg/status.go\<close> and \<open>pkg/errors.go\<close>: the Guacamole status codes, the error kinds and
  the error values. An \<open>error\<close> value is a \<open>*ErrGuac\<close> or any other error (\<open>Raw\<close>,
  with its text); the code tells them apart with type assertions.
\<close>

section \<open>Statuses (\<open>status.go\<close>)\<close>

datatype Status =
    Undefined | Success | Unsupported | ServerError | ServerBusy | UpstreamTimeout
  | UpstreamError | ResourceNotFound | ResourceConflict | ResourceClosed | UpstreamNotFound
  | UpstreamUnavailable | SessionConflict | SessionTimeout | SessionClosed | ClientBadRequest
  | ClientUnauthorized | ClientForbidden | ClientTimeout | ClientOverrun | ClientBadType
  | ClientTooMany

text \<open>The value of the Go constant (\<open>Success\<close> is the second line of the block, so 1).\<close>

fun Status_iota :: "Status \<Rightarrow> int" where
  "Status_iota Undefined = -1"
| "Status_iota Success = 1"
| "Status_iota Unsupported = 2"
| "Status_iota ServerError = 3"
| "Status_iota ServerBusy = 4"
| "Status_iota UpstreamTimeout = 5"
| "Status_iota UpstreamError = 6"
| "Status_iota ResourceNotFound = 7"
| "Status_iota ResourceConflict = 8"
| "Status_iota ResourceClosed = 9"
| "Status_iota UpstreamNotFound = 10"
| "Status_iota UpstreamUnavailable = 11"
| "Status_iota SessionConflict = 12"
| "Status_iota SessionTimeout = 13"
| "Status_iota SessionClosed = 14"
| "Status_iota ClientBadRequest = 15"
| "Status_iota ClientUnauthorized = 16"
| "Status_iota ClientForbidden = 17"
| "Status_iota ClientTimeout = 18"
| "Status_iota ClientOverrun = 19"
| "Status_iota ClientBadType = 20"
| "Status_iota ClientTooMany = 21"

lemma Status_iota_inj: "Status_iota s = Status_iota t \<longleftrightarrow> s = t"
  by (cases s; cases t) simp_all

text \<open>Statuses are ordered as the integers they are in Go.\<close>

instantiation Status :: linorder
begin

definition less_eq_Status :: "Status \<Rightarrow> Status \<Rightarrow> bool" where
  "s \<le> t \<longleftrightarrow> Status_iota s \<le> Status_iota t"

definition less_Status :: "Status \<Rightarrow> Status \<Rightarrow> bool" where
  "s < t \<longleftrightarrow> Status_iota s < Status_iota t"

instance
  by standard (auto simp: less_eq_Status_def less_Status_def Status_iota_inj)

end

record statusData =
  status_name :: string
  httpCode :: int
  websocketCode :: int
  guacCode :: int

definition newStatusData :: "string \<Rightarrow> int \<Rightarrow> int \<Rightarrow> int \<Rightarrow> statusData" where
  "newStatusData n h w g = \<lparr>status_name = n, httpCode = h, websocketCode = w, guacCode = g\<rparr>"

fun guacamoleStatusMap :: "Status \<Rightarrow> statusData option" where
  "guacamoleStatusMap Undefined = None"
| "guacamoleStatusMap Success = Some (newStatusData ''Success'' 200 1000 0x0000)"
| "guacamoleStatusMap Unsupported = Some (newStatusData ''Unsupported'' 501 1011 0x0100)"
| "guacamoleStatusMap ServerError = Some (newStatusData ''SERVER_ERROR'' 500 1011 0x0200)"
| "guacamoleStatusMap ServerBusy = Some (newStatusData ''SERVER_BUSY'' 503 1008 0x0201)"
| "guacamoleStatusMap UpstreamTimeout = Some (newStatusData ''UPSTREAM_TIMEOUT'' 504 1011 0x0202)"
| "guacamoleStatusMap UpstreamError = Some (newStatusData ''UPSTREAM_ERROR'' 502 1011 0x0203)"
| "guacamoleStatusMap ResourceNotFound = Some (newStatusData ''RESOURCE_NOT_FOUND'' 404 1002 0x0204)"
| "guacamoleStatusMap ResourceConflict = Some (newStatusData ''RESOURCE_CONFLICT'' 409 1008 0x0205)"
| "guacamoleStatusMap ResourceClosed = Some (newStatusData ''RESOURCE_CLOSED'' 404 1002 0x0206)"
| "guacamoleStatusMap UpstreamNotFound = Some (newStatusData ''UPSTREAM_NOT_FOUND'' 502 1011 0x0207)"
| "guacamoleStatusMap UpstreamUnavailable = Some (newStatusData ''UPSTREAM_UNAVAILABLE'' 502 1011 0x0208)"
| "guacamoleStatusMap SessionConflict = Some (newStatusData ''SESSION_CONFLICT'' 409 1008 0x0209)"
| "guacamoleStatusMap SessionTimeout = Some (newStatusData ''SESSION_TIMEOUT'' 408 1002 0x020A)"
| "guacamoleStatusMap SessionClosed = Some (newStatusData ''SESSION_CLOSED'' 404 1002 0x020B)"
| "guacamoleStatusMap ClientBadRequest = Some (newStatusData ''CLIENT_BAD_REQUEST'' 400 1002 0x0300)"
| "guacamoleStatusMap ClientUnauthorized = Some (newStatusData ''CLIENT_UNAUTHORIZED'' 403 1008 0x0301)"
| "guacamoleStatusMap ClientForbidden = Some (newStatusData ''CLIENT_FORBIDDEN'' 403 1008 0x0303)"
| "guacamoleStatusMap ClientTimeout = Some (newStatusData ''CLIENT_TIMEOUT'' 408 1002 0x0308)"
| "guacamoleStatusMap ClientOverrun = Some (newStatusData ''CLIENT_OVERRUN'' 413 1009 0x030D)"
| "guacamoleStatusMap ClientBadType = Some (newStatusData ''CLIENT_BAD_TYPE'' 415 1003 0x030F)"
| "guacamoleStatusMap ClientTooMany = Some (newStatusData ''CLIENT_TOO_MANY'' 429 1008 0x031D)"

definition Status_String :: "Status \<Rightarrow> string" where
  "Status_String s = (case guacamoleStatusMap s of Some v \<Rightarrow> status_name v | None \<Rightarrow> '''')"

definition GetHTTPStatusCode :: "Status \<Rightarrow> int" where
  "GetHTTPStatusCode s = (case guacamoleStatusMap s of Some v \<Rightarrow> httpCode v | None \<Rightarrow> -1)"

definition GetWebSocketCode :: "Status \<Rightarrow> int" where
  "GetWebSocketCode s = (case guacamoleStatusMap s of Some v \<Rightarrow> websocketCode v | None \<Rightarrow> -1)"

definition GetGuacamoleStatusCode :: "Status \<Rightarrow> int" where
  "GetGuacamoleStatusCode s = (case guacamoleStatusMap s of Some v \<Rightarrow> guacCode v | None \<Rightarrow> -1)"

text \<open>
  \<open>FromGuacamoleStatusCode\<close> ranges over the map; \<open>ks\<close> is the order in which this run
  of the loop visits its keys.
\<close>

fun FromGuacamoleStatusCode :: "Status list \<Rightarrow> int \<Rightarrow> Status" where
  "FromGuacamoleStatusCode [] code = Undefined"
| "FromGuacamoleStatusCode (k # ks) code =
     (if GetGuacamoleStatusCode k = code then k else FromGuacamoleStatusCode ks code)"

definition table_keys :: "Status set" where
  "table_keys = {s. s \<noteq> Undefined}"

lemma GetGuacamoleStatusCode_inj:
  "GetGuacamoleStatusCode s = GetGuacamoleStatusCode t \<longleftrightarrow> s = t"
  by (cases s; cases t) (simp_all add: GetGuacamoleStatusCode_def newStatusData_def)

lemma FromGuacamoleStatusCode_found:
  "s \<in> set ks \<Longrightarrow> FromGuacamoleStatusCode ks (GetGuacamoleStatusCode s) = s"
  by (induction ks) (auto simp: GetGuacamoleStatusCode_inj)

lemma FromGuacamoleStatusCode_absent:
  "\<forall>s \<in> set ks. GetGuacamoleStatusCode s \<noteq> code \<Longrightarrow> FromGuacamoleStatusCode ks code = Undefined"
  by (induction ks) auto

section \<open>Errors (\<open>errors.go\<close>)\<close>

datatype ErrKind =
    ErrClientBadType | ErrClient | ErrClientOverrun | ErrClientTimeout | ErrClientTooMany
  | ErrConnectionClosed | ErrOther | ErrResourceClosed | ErrResourceConflict | ErrResourceNotFound
  | ErrSecurity | ErrServerBusy | ErrServer | ErrSessionClosed | ErrSessionConflict
  | ErrSessionTimeout | ErrUnauthorized | ErrUnsupported | ErrUpstream | ErrUpstreamNotFound
  | ErrUpstreamTimeout | ErrUpstreamUnavailable

fun ErrKind_Status :: "ErrKind \<Rightarrow> Status" where
  "ErrKind_Status ErrClientBadType = ClientBadType"
| "ErrKind_Status ErrClient = ClientBadRequest"
| "ErrKind_Status ErrClientOverrun = ClientOverrun"
| "ErrKind_Status ErrClientTimeout = ClientTimeout"
| "ErrKind_Status ErrClientTooMany = ClientTooMany"
| "ErrKind_Status ErrConnectionClosed = ServerError"
| "ErrKind_Status ErrOther = ServerError"
| "ErrKind_Status ErrResourceClosed = ResourceClosed"
| "ErrKind_Status ErrResourceConflict = ResourceConflict"
| "ErrKind_Status ErrResourceNotFound = ResourceNotFound"
| "ErrKind_Status ErrSecurity = ClientForbidden"
| "ErrKind_Status ErrServerBusy = ServerBusy"
| "ErrKind_Status ErrServer = ServerError"
| "ErrKind_Status ErrSessionClosed = SessionClosed"
| "ErrKind_Status ErrSessionConflict = SessionConflict"
| "ErrKind_Status ErrSessionTimeout = SessionTimeout"
| "ErrKind_Status ErrUnauthorized = ClientUnauthorized"
| "ErrKind_Status ErrUnsupported = Unsupported"
| "ErrKind_Status ErrUpstream = UpstreamError"
| "ErrKind_Status ErrUpstreamNotFound = UpstreamNotFound"
| "ErrKind_Status ErrUpstreamTimeout = UpstreamTimeout"
| "ErrKind_Status ErrUpstreamUnavailable = UpstreamUnavailable"

text \<open>
  The message arguments of \<open>NewError\<close>, which joins them with a comma. The text of a
  \<open>strconv.NumError\<close> quotes its input with Go's printable-character tables, so it is
  kept as the error it is the text of.
\<close>

datatype err_text = Txt string | NumErr num_error string

record ErrGuac =
  err_args :: "err_text list"
  err_Status :: Status
  err_Kind :: ErrKind

datatype go_error = Guac ErrGuac | Raw string

definition NewError :: "ErrKind \<Rightarrow> err_text list \<Rightarrow> go_error" where
  "NewError e args = Guac \<lparr>err_args = args, err_Status = ErrKind_Status e, err_Kind = e\<rparr>"

type_synonym 'a res = "(go_error, 'a) outcome"

text \<open>The kind of a guac error; \<open>None\<close> for an error of another type.\<close>

fun error_kind :: "go_error \<Rightarrow> ErrKind option" where
  "error_kind (Guac e) = Some (err_Kind e)"
| "error_kind (Raw s) = None"

lemma error_kind_NewError [simp]: "error_kind (NewError k args) = Some k"
  by (simp add: NewError_def)

text \<open>Looking a status up by its own Guacamole code gives the status back, for every
  status (the undefined one included) and whatever order the loop over the status map
  visits its keys in.\<close>

theorem status_code_roundtrip:
  assumes "set ks = table_keys"
  shows "FromGuacamoleStatusCode ks (GetGuacamoleStatusCode s) = s"
proof (cases "s = Undefined")
  case True
  have "GetGuacamoleStatusCode t \<noteq> GetGuacamoleStatusCode Undefined" if "t \<in> set ks" for t
    using that assms by (auto simp: GetGuacamoleStatusCode_inj table_keys_def)
  with True show ?thesis by (simp add: FromGuacamoleStatusCode_absent)
next
  case False
  with assms show ?thesis by (simp add: FromGuacamoleStatusCode_found table_keys_def)
qed

text \<open>The statuses of the table, in the order of the source.\<close>

definition status_table_order :: "Status list" where
  "status_table_order =
     [Success, Unsupported, ServerError, ServerBusy, UpstreamTimeout, UpstreamError, ResourceNotFound,
      ResourceConflict, ResourceClosed, UpstreamNotFound, UpstreamUnavailable, SessionConflict,
      SessionTimeout, SessionClosed, ClientBadRequest, ClientUnauthorized, ClientForbidden,
      ClientTimeout, ClientOverrun, ClientBadType, ClientTooMany]"

lemma set_status_table_order: "set status_table_order = table_keys"
proof -
  have "s \<in> set status_table_order \<longleftrightarrow> s \<noteq> Undefined" for s
    by (cases s) (simp_all add: status_table_order_def)
  then show ?thesis by (auto simp: table_keys_def)
qed

lemma status_code_roundtrip_witness:
  "FromGuacamoleStatusCode (rev status_table_order) (GetGuacamoleStatusCode SessionTimeout) = SessionTimeout"
  by (rule status_code_roundtrip) (simp add: set_status_table_order)

text \<open>Whatever a caller passes to \<open>NewError\<close>, the error is a guac error of that kind,
  its status is one of the table, and what the servers answer with is an error in both
  protocols: an HTTP code from 400 up and a WebSocket close code that is not the normal
  closure 1000.\<close>

theorem NewError_status_is_error:
  "\<exists>g. NewError k args = Guac g \<and> err_Kind g = k \<and> err_args g = args \<and> err_Status g \<in> table_keys \<and>
     400 \<le> GetHTTPStatusCode (err_Status g) \<and> GetHTTPStatusCode (err_Status g) < 600 \<and>
     1000 < GetWebSocketCode (err_Status g) \<and> GetWebSocketCode (err_Status g) < 1012"
  by (cases k) (simp_all add: NewError_def table_keys_def GetHTTPStatusCode_def GetWebSocketCode_def
      newStatusData_def)

end
