(* ===== verification/Instruction.thy ===== *)
theory Instruction
  imports GuacErrors
begin

text \<open>
  \<open>pkg/instruction.go\<close>: Guacamole instructions, their printer (\<open>String\<close>, with the
  cached text) and the parser \<open>Parse\<close>. The printer counts bytes, the parser counts
  code points; the lemmas say where the two agree.
\<close>

section \<open>The instruction and its printer\<close>

record Instruction =
  Opcode :: string
  Args :: "string list"
  cache :: string

definition NewInstruction :: "string \<Rightarrow> string list \<Rightarrow> Instruction" where
  "NewInstruction opcode args = \<lparr>Opcode = opcode, Args = args, cache = []\<rparr>"

definition elem_text :: "string \<Rightarrow> string" where
  "elem_text value = dec (length value) @ ''.'' @ value"

fun args_text :: "string \<Rightarrow> string list \<Rightarrow> string" where
  "args_text c [] = c @ '';''"
| "args_text c (value # args) = args_text (c @ '','' @ elem_text value) args"

text \<open>\<open>String\<close> returns the text and leaves it in the instruction's cache.\<close>

definition Instruction_String :: "Instruction \<Rightarrow> string \<times> Instruction" where
  "Instruction_String i =
     (if 0 < length (cache i) then (cache i, i)
      else let t = args_text (elem_text (Opcode i)) (Args i) in (t, i\<lparr>cache := t\<rparr>))"

definition Instruction_Byte :: "Instruction \<Rightarrow> byte list \<times> Instruction" where
  "Instruction_Byte i = Instruction_String i"

text \<open>The bytes a fresh instruction is sent as.\<close>

definition ins_bytes :: "string \<Rightarrow> string list \<Rightarrow> byte list" where
  "ins_bytes opcode args = fst (Instruction_Byte (NewInstruction opcode args))"

section \<open>The parser\<close>

text \<open>The loop that collects \<open>length\<close> runes of the element; it returns the element and
  the data after it.\<close>

fun take_runes :: "nat \<Rightarrow> byte list \<Rightarrow> byte list \<times> byte list" where
  "take_runes 0 d = ([], d)"
| "take_runes (Suc n) d =
     (let (r, size) = DecodeRune d;
          (element, rest) = take_runes n (drop size d)
      in (EncodeRune r @ element, rest))"

lemma length_take_runes: "length (snd (take_runes n d)) \<le> length d"
proof (induction n arbitrary: d)
  case (Suc n)
  then show ?case
    by (auto simp: Let_def split: prod.split) (metis Suc.IH diff_le_self le_trans length_drop snd_conv)
qed simp

text \<open>
  The outer loop over \<open>data[elementStart:]\<close>. A missing terminator is an index out of
  range, a run-time panic; a negative length runs the rune loop zero times.
\<close>

function Parse_loop :: "byte list \<Rightarrow> string list \<Rightarrow> (string list) res" where
  "Parse_loop d elements =
     (if d = [] then Val elements
      else if CHR ''.'' \<notin> set d
      then Fail (NewError ErrServer [Txt ''ReadSome returned incomplete instruction.''])
      else let ltext = takeWhile (\<lambda>c. c \<noteq> CHR ''.'') d in
        case Atoi ltext of
          Inl e \<Rightarrow> Fail (NewError ErrServer
                     [Txt ''ReadSome returned wrong pattern instruction.'', NumErr e ltext])
        | Inr len \<Rightarrow>
            let (element, rest) = take_runes (nat len) (drop (length ltext + 1) d) in
            if rest = [] then Panic
            else if hd rest = CHR '';'' then Val (elements @ [element])
            else Parse_loop (tl rest) (elements @ [element]))"
  by pat_completeness auto
termination
proof (relation "measure (\<lambda>(d, elements). length d)", goal_cases)
  case (2 d elements lt len p element rest)
  then have "rest = snd (take_runes (nat len) (drop (length lt + 1) d))" by (metis snd_conv)
  then have "length rest \<le> length d" using length_take_runes [of "nat len" "drop (length lt + 1) d"] by simp
  moreover have "length (tl rest) < length rest" using 2 by (cases rest) auto
  ultimately show ?case by simp
qed auto

declare Parse_loop.simps [simp del]

definition Parse :: "byte list \<Rightarrow> Instruction res" where
  "Parse data =
     (case Parse_loop data [] of
        Val (opcode # args) \<Rightarrow> Val (NewInstruction opcode args)
      | Val [] \<Rightarrow> Panic
      | Fail e \<Rightarrow> Fail e
      | Panic \<Rightarrow> Panic)"

section \<open>The wire format\<close>

text \<open>
  The format the peer speaks: each element is the number of its code points, a dot and
  its UTF-8 text; elements are separated by commas and closed by a semicolon.
\<close>

definition wire_elem :: "nat list \<Rightarrow> byte list" where
  "wire_elem rs = dec (length rs) @ ''.'' @ utf8 rs"

fun wire :: "nat list list \<Rightarrow> byte list" where
  "wire [] = []"
| "wire [e] = wire_elem e @ '';''"
| "wire (e # f # es) = wire_elem e @ '','' @ wire (f # es)"

definition valid_elem :: "nat list \<Rightarrow> bool" where
  "valid_elem rs \<longleftrightarrow> (\<forall>r \<in> set rs. valid_rune r) \<and> length rs < 2 ^ 63"

lemma take_runes_utf8:
  "\<forall>r \<in> set rs. valid_rune r \<Longrightarrow> take_runes (length rs) (utf8 rs @ rest) = (utf8 rs, rest)"
  by (induction rs) (auto simp: DecodeRune_EncodeRune)

lemma dec_no_dot: "CHR ''.'' \<notin> set (dec n)"
  by (meson dec_digits is_digit_neq(1))

lemma takeWhile_dec: "takeWhile (\<lambda>c. c \<noteq> CHR ''.'') (dec n @ CHR ''.'' # rest) = dec n"
  using dec_no_dot [of n] by (subst takeWhile_append2) auto

text \<open>One round of the parser on a well-formed element.\<close>

lemma Parse_loop_elem:
  assumes "valid_elem e"
  shows "Parse_loop (wire_elem e @ c # rest) els =
    (if c = CHR '';'' then Val (els @ [utf8 e]) else Parse_loop rest (els @ [utf8 e]))"
proof -
  have "wire_elem e @ c # rest = dec (length e) @ CHR ''.'' # (utf8 e @ c # rest)"
    by (simp add: wire_elem_def)
  moreover have "Atoi (dec (length e)) = Inr (int (length e))"
    using assms by (simp add: Atoi_dec valid_elem_def)
  moreover have "take_runes (length e) (utf8 e @ c # rest) = (utf8 e, c # rest)"
    using assms by (simp add: take_runes_utf8 valid_elem_def)
  ultimately show ?thesis
    by (subst Parse_loop.simps) (simp add: takeWhile_dec Let_def)
qed

lemma Parse_loop_wire:
  assumes "es \<noteq> []" and "\<forall>e \<in> set es. valid_elem e"
  shows "Parse_loop (wire es @ rest) els = Val (els @ map utf8 es)"
  using assms
proof (induction es arbitrary: els rule: wire.induct)
  case (2 e)
  then show ?case by (simp add: Parse_loop_elem)
next
  case (3 e f es)
  then show ?case by (simp add: Parse_loop_elem)
qed simp

section \<open>Where printer and parser agree\<close>

definition is_ascii :: "string \<Rightarrow> bool" where
  "is_ascii s \<longleftrightarrow> (\<forall>c \<in> set s. ord c < 0x80)"

lemma utf8_ascii: "is_ascii s \<Longrightarrow> utf8 (map ord s) = s"
proof (induction s)
  case (Cons c s)
  then have "EncodeRune (ord c) = [c]"
    by (simp add: EncodeRune_def valid_rune_def is_ascii_def)
  with Cons show ?case by (simp add: is_ascii_def)
qed simp

lemma valid_elem_ascii: "is_ascii s \<Longrightarrow> length s < 2 ^ 63 \<Longrightarrow> valid_elem (map ord s)"
  by (auto simp: valid_elem_def is_ascii_def valid_rune_def)

lemma wire_elem_ascii: "is_ascii s \<Longrightarrow> wire_elem (map ord s) = elem_text s"
  by (simp add: wire_elem_def elem_text_def utf8_ascii)

lemma args_text_append: "args_text c args = c @ args_text [] args"
proof (induction args arbitrary: c)
  case (Cons a args)
  show ?case
    using Cons [of "c @ '','' @ elem_text a"] Cons [of "'','' @ elem_text a"] by simp
qed simp

lemma wire_ascii:
  "is_ascii s \<Longrightarrow> \<forall>a \<in> set args. is_ascii a \<Longrightarrow>
    wire (map (map ord) (s # args)) = args_text (elem_text s) args"
proof (induction args arbitrary: s)
  case Nil
  then show ?case by (simp add: wire_elem_ascii)
next
  case (Cons a args)
  then have "wire (map (map ord) (a # args)) = args_text (elem_text a) args" by simp
  moreover have "args_text (elem_text s) (a # args) = elem_text s @ '','' @ args_text (elem_text a) args"
    using args_text_append [of "elem_text s @ '','' @ elem_text a" args]
      args_text_append [of "elem_text a" args] by simp
  ultimately show ?case using Cons.prems by (simp add: wire_elem_ascii)
qed

lemma ins_bytes_text: "ins_bytes opcode args = args_text (elem_text opcode) args"
  by (simp add: ins_bytes_def Instruction_Byte_def Instruction_String_def NewInstruction_def Let_def)

lemma ins_bytes_wire:
  "is_ascii opcode \<Longrightarrow> \<forall>a \<in> set args. is_ascii a \<Longrightarrow>
    ins_bytes opcode args = wire (map (map ord) (opcode # args))"
  by (simp only: ins_bytes_text wire_ascii)


section \<open>Properties\<close>

text \<open>C28: the parser reads back every well-formed instruction of the wire format, with any
  Unicode text in its elements, and ignores what follows the terminator.\<close>

theorem Parse_wire:
  assumes "valid_elem e" and "\<forall>f \<in> set es. valid_elem f"
  shows "Parse (wire (e # es) @ rest) = Val (NewInstruction (utf8 e) (map utf8 es))"
  using assms by (simp add: Parse_def Parse_loop_wire)

text \<open>A CJK argument, as in the stream test of the repository.\<close>

lemma Parse_wire_witness:
  "Parse (wire [map ord ''copy'', [0x4E2D, 0x6587]] @ ''x'')
     = Val (NewInstruction ''copy'' [utf8 [0x4E2D, 0x6587]])"
proof -
  have "valid_elem (map ord ''copy'')" and "\<forall>f \<in> set [[0x4E2D, 0x6587]]. valid_elem f"
    by (simp_all add: valid_elem_def valid_rune_def ord_def)
  moreover have "utf8 (map ord ''copy'') = ''copy''"
    by (rule utf8_ascii) (simp add: is_ascii_def ord_def)
  ultimately show ?thesis using Parse_wire [of "map ord ''copy''" "[[0x4E2D, 0x6587]]" "''x''"]
    by (simp only: list.map)
qed

lemma Parse_ins_bytes:
  assumes "is_ascii opcode" and "\<forall>a \<in> set args. is_ascii a"
    and "length opcode < 2 ^ 63" and "\<forall>a \<in> set args. length a < 2 ^ 63"
  shows "Parse (ins_bytes opcode args @ rest) = Val (NewInstruction opcode args)"
proof -
  have "valid_elem (map ord opcode)" and "\<forall>f \<in> set (map (map ord) args). valid_elem f"
    using assms by (auto simp: valid_elem_ascii)
  moreover have "map utf8 (map (map ord) args) = args"
    using assms(2) by (induction args) (simp_all add: utf8_ascii)
  ultimately show ?thesis
    using assms(1,2) Parse_loop_wire [of "map (map ord) (opcode # args)" rest "[]"]
    by (simp add: ins_bytes_wire Parse_def utf8_ascii del: wire.simps)
qed

text \<open>Parsing what \<open>String\<close> prints gives the instruction back when its opcode and
  arguments are ASCII; the bytes after its terminator are not looked at.\<close>

theorem Parse_String_ascii:
  assumes "is_ascii opcode" and "\<forall>a \<in> set args. is_ascii a"
    and "length opcode < 2 ^ 63" and "\<forall>a \<in> set args. length a < 2 ^ 63"
  shows "Parse (ins_bytes opcode args @ rest) = Val (NewInstruction opcode args)"
  using assms by (rule Parse_ins_bytes)

lemma Parse_String_ascii_witness:
  "Parse (ins_bytes ''select'' [''hi'', []] @ '';'') = Val (NewInstruction ''select'' [''hi'', []])"
  by (rule Parse_String_ascii) (simp_all add: is_ascii_def ord_def)

lemma dec_inj: "m < 2 ^ 63 \<Longrightarrow> n < 2 ^ 63 \<Longrightarrow> dec m = dec n \<Longrightarrow> m = n"
  by (metis Atoi_dec nat_int sum.inject(2))

lemma length_EncodeRune_ascii: "length (EncodeRune r) = Suc 0 \<longleftrightarrow> r < 0x80"
  by (auto simp: EncodeRune_def RuneError_def valid_rune_def Let_def)

lemma length_utf8_ascii: "length (utf8 rs) = length rs \<longleftrightarrow> (\<forall>r \<in> set rs. r < 0x80)"
proof (induction rs)
  case (Cons r rs)
  have "length (EncodeRune r) + length (utf8 rs) = Suc (length rs) \<longleftrightarrow>
      length (EncodeRune r) = Suc 0 \<and> length (utf8 rs) = length rs"
    using length_utf8_ge [of rs] length_EncodeRune_ge [of r] by linarith
  also have "\<dots> \<longleftrightarrow> r < 0x80 \<and> (\<forall>r \<in> set rs. r < 0x80)"
    by (simp only: length_EncodeRune_ascii Cons.IH)
  finally show ?case by simp
qed simp

lemma elem_eq_iff:
  assumes "length (utf8 e) < 2 ^ 63"
  shows "elem_text (utf8 e) @ xs = wire_elem e @ ys \<longleftrightarrow> (\<forall>r \<in> set e. r < 0x80) \<and> xs = ys"
proof -
  have "length e < 2 ^ 63" using assms length_utf8_ge [of e] by simp
  moreover have "dec (length (utf8 e)) = dec (length e)"
    if "elem_text (utf8 e) @ xs = wire_elem e @ ys"
    using arg_cong [OF that, of "takeWhile (\<lambda>c. c \<noteq> CHR ''.'')"]
    by (simp add: elem_text_def wire_elem_def takeWhile_dec)
  ultimately have "length (utf8 e) = length e"
    if "elem_text (utf8 e) @ xs = wire_elem e @ ys"
    using that assms dec_inj by blast
  then show ?thesis
    by (auto simp: length_utf8_ascii [symmetric] elem_text_def wire_elem_def)
qed

text \<open>What \<open>String\<close> prints is the wire format of the same elements exactly when all of
  them are ASCII: the printer puts the byte length where the peer (and \<open>Parse\<close>) count
  code points.\<close>

theorem String_is_wire_iff:
  assumes "\<forall>f \<in> set (e # es). length (utf8 f) < 2 ^ 63"
  shows "ins_bytes (utf8 e) (map utf8 es) = wire (e # es) \<longleftrightarrow>
    (\<forall>f \<in> set (e # es). \<forall>r \<in> set f. r < 0x80)"
  using assms
proof (induction es arbitrary: e)
  case Nil
  then show ?case using elem_eq_iff [of e "'';''" "'';''"] by (simp add: ins_bytes_text)
next
  case (Cons f es)
  have "ins_bytes (utf8 e) (map utf8 (f # es)) =
      elem_text (utf8 e) @ '','' @ ins_bytes (utf8 f) (map utf8 es)"
    using args_text_append [of "elem_text (utf8 e) @ '','' @ elem_text (utf8 f)"]
      args_text_append [of "elem_text (utf8 f)"] by (simp add: ins_bytes_text)
  then have "ins_bytes (utf8 e) (map utf8 (f # es)) = wire (e # f # es) \<longleftrightarrow>
      (\<forall>r \<in> set e. r < 0x80) \<and> ins_bytes (utf8 f) (map utf8 es) = wire (f # es)"
    using Cons.prems elem_eq_iff [of e "'','' @ ins_bytes (utf8 f) (map utf8 es)" "'','' @ wire (f # es)"]
    by simp
  also have "\<dots> \<longleftrightarrow> (\<forall>g \<in> set (e # f # es). \<forall>r \<in> set g. r < 0x80)"
    using Cons by simp
  finally show ?case .
qed

lemma String_is_wire_iff_witness:
  "ins_bytes (utf8 [0x61]) (map utf8 [[0xE9]]) \<noteq> wire [[0x61], [0xE9]]"
  using String_is_wire_iff [of "[0x61]" "[[0xE9]]"]
  by (simp add: EncodeRune_def valid_rune_def del: wire.simps)

text \<open>Asking for more runes than the data holds eats the terminator too.\<close>

lemma take_runes_Nil: "snd (take_runes n []) = []"
  by (induction n) (auto simp: Let_def split: prod.split)

lemma take_runes_over:
  assumes "\<forall>r \<in> set rs. valid_rune r" and "length rs < n"
  shows "snd (take_runes n (utf8 rs @ '';'')) = []"
  using assms
proof (induction rs arbitrary: n)
  case Nil
  then obtain m where "n = Suc m" by (cases n) auto
  then show ?case by (simp add: case_prod_beta DecodeRune_ascii ord_def take_runes_Nil)
next
  case (Cons r rs)
  then obtain m where "n = Suc m" and "length rs < m" by (cases n) auto
  with Cons show ?case by (simp add: case_prod_beta DecodeRune_EncodeRune)
qed

lemma Parse_loop_over:
  assumes "\<forall>r \<in> set rs. valid_rune r" and "\<exists>r \<in> set rs. 0x80 \<le> r" and "length (utf8 rs) < 2 ^ 63"
  shows "Parse_loop (elem_text (utf8 rs) @ '';'') els = Panic"
proof -
  have "length rs < length (utf8 rs)"
    using assms(2) length_utf8_ge [of rs] length_utf8_ascii [of rs] by (auto simp: order_le_less)
  then have "snd (take_runes (length (utf8 rs)) (utf8 rs @ '';'')) = []"
    using assms(1) take_runes_over by blast
  then show ?thesis
    using assms(3) by (subst Parse_loop.simps)
      (simp add: elem_text_def takeWhile_dec Atoi_dec Let_def case_prod_beta)
qed

text \<open>An instruction whose last argument holds a character outside ASCII does not
  survive the program's own printer and parser: \<open>Parse\<close> reads past the end of the
  data and panics.\<close>

theorem Parse_String_nonascii_panics:
  assumes "is_ascii opcode" and "\<forall>a \<in> set args. is_ascii a"
    and "length opcode < 2 ^ 63" and "\<forall>a \<in> set args. length a < 2 ^ 63"
    and "\<forall>r \<in> set rs. valid_rune r" and "\<exists>r \<in> set rs. 0x80 \<le> r" and "length (utf8 rs) < 2 ^ 63"
  shows "Parse (ins_bytes opcode (args @ [utf8 rs])) = Panic"
proof -
  have "Parse_loop (args_text (elem_text opcode) (args @ [utf8 rs])) els = Panic" for els
    using assms(1-4)
  proof (induction args arbitrary: opcode els)
    case Nil
    then have "valid_elem (map ord opcode)" by (simp add: valid_elem_ascii)
    from Parse_loop_elem [OF this, of "CHR '',''" "elem_text (utf8 rs) @ '';''" els]
    show ?case using Nil assms(5-7) by (simp add: wire_elem_ascii Parse_loop_over)
  next
    case (Cons a args)
    then have "valid_elem (map ord opcode)" by (simp add: valid_elem_ascii)
    note step = Parse_loop_elem [OF this, of "CHR '',''" "args_text (elem_text a) (args @ [utf8 rs])" els]
    have "args_text (elem_text opcode) ((a # args) @ [utf8 rs]) =
        elem_text opcode @ CHR '','' # args_text (elem_text a) (args @ [utf8 rs])"
      using args_text_append [of "elem_text opcode @ '','' @ elem_text a" "args @ [utf8 rs]"]
        args_text_append [of "elem_text a" "args @ [utf8 rs]"] by simp
    with step Cons show ?case by (simp add: wire_elem_ascii)
  qed
  then show ?thesis by (simp add: Parse_def ins_bytes_text)
qed

lemma Parse_String_nonascii_panics_witness:
  "Parse (ins_bytes ''AACMD'' ([''1'', ''check-user''] @ [utf8 [0x4E2D]])) = Panic"
  by (rule Parse_String_nonascii_panics)
    (simp_all add: is_ascii_def ord_def valid_rune_def EncodeRune_def)

text \<open>What the decoder returns is always a rune the encoder accepts.\<close>

lemma take_runes_valid: "\<exists>rs. fst (take_runes n d) = utf8 rs \<and> (\<forall>r \<in> set rs. valid_rune r)"
proof (induction n arbitrary: d)
  case 0
  show ?case by (auto intro: exI [of _ "[]"])
next
  case (Suc n)
  obtain r size where d: "DecodeRune d = (r, size)" by fastforce
  obtain rs where rs: "fst (take_runes n (drop size d)) = utf8 rs" "\<forall>r \<in> set rs. valid_rune r"
    using Suc by blast
  let ?r = "if valid_rune r then r else RuneError"
  have "valid_rune RuneError" by (simp add: valid_rune_def RuneError_def)
  then have "EncodeRune r = EncodeRune ?r" and "valid_rune ?r"
    by (simp_all add: EncodeRune_def)
  with rs d show ?case
    by (intro exI [of _ "?r # rs"]) (simp add: case_prod_beta Let_def)
qed

lemma Parse_loop_valid:
  assumes "Parse_loop d els = Val es"
  shows "\<exists>fs. es = els @ map utf8 fs \<and> (\<forall>f \<in> set fs. \<forall>r \<in> set f. valid_rune r)"
  using assms
proof (induction d els arbitrary: es rule: Parse_loop.induct)
  case (1 d els)
  show ?case
  proof (cases "d = [] \<or> CHR ''.'' \<notin> set d")
    case True
    with "1.prems" show ?thesis
      by (subst (asm) Parse_loop.simps) (auto split: if_splits intro: exI [of _ "[]"])
  next
    case False
    let ?lt = "takeWhile (\<lambda>c. c \<noteq> CHR ''.'') d"
    from False "1.prems" obtain len where len: "Atoi ?lt = Inr len"
      by (subst (asm) Parse_loop.simps) (auto simp: Let_def split: sum.splits)
    obtain el rest where tr: "take_runes (nat len) (drop (length ?lt + 1) d) = (el, rest)" by fastforce
    then obtain rs where el: "el = utf8 rs" and rs: "\<forall>r \<in> set rs. valid_rune r"
      by (metis fst_conv take_runes_valid)
    have unf: "Parse_loop d els = (if rest = [] then Panic
        else if hd rest = CHR '';'' then Val (els @ [el]) else Parse_loop (tl rest) (els @ [el]))"
      using False len tr by (subst Parse_loop.simps) (simp add: Let_def)
    show ?thesis
    proof (cases "rest = [] \<or> hd rest = CHR '';''")
      case True
      with unf "1.prems" el rs show ?thesis by (auto split: if_splits intro!: exI [of _ "[rs]"])
    next
      case r: False
      with unf "1.prems" have "Parse_loop (tl rest) (els @ [el]) = Val es" by simp
      then obtain fs where "es = (els @ [el]) @ map utf8 fs" "\<forall>f \<in> set fs. \<forall>r \<in> set f. valid_rune r"
        using "1.IH" [OF _ _ refl len tr [symmetric] refl] False r by auto
      with el rs show ?thesis by (intro exI [of _ "rs # fs"]) simp
    qed
  qed
qed

text \<open>Every element of a parsed instruction is well-formed UTF-8, whatever the bytes of
  the message were.\<close>

theorem Parse_elements_valid:
  assumes "Parse data = Val i"
  shows "\<forall>t \<in> set (Opcode i # Args i). \<exists>rs. t = utf8 rs \<and> (\<forall>r \<in> set rs. valid_rune r)"
proof -
  from assms obtain opcode args where es: "Parse_loop data [] = Val (opcode # args)"
    and i: "i = NewInstruction opcode args"
    by (auto simp: Parse_def split: outcome.splits list.splits)
  from Parse_loop_valid [OF es] obtain fs where fs: "opcode # args = map utf8 fs"
    and v: "\<forall>f \<in> set fs. \<forall>r \<in> set f. valid_rune r" by (metis append_Nil)
  show ?thesis unfolding i NewInstruction_def Instruction.simps fs using v by auto
qed

lemma Parse_elements_valid_witness:
  "\<exists>i. Parse [CHR ''1'', CHR ''.'', chr 0xFF, CHR '';''] = Val i \<and>
     (\<forall>t \<in> set (Opcode i # Args i). \<exists>rs. t = utf8 rs \<and> (\<forall>r \<in> set rs. valid_rune r))"
proof -
  have "Parse_loop [CHR ''1'', CHR ''.'', chr 0xFF, CHR '';''] [] = Val [EncodeRune RuneError]"
    by (subst Parse_loop.simps)
      (simp add: Atoi_def is_digit_def digit_val_def ord_def chr_def Let_def DecodeRune_def lead_def)
  then have "Parse [CHR ''1'', CHR ''.'', chr 0xFF, CHR '';''] = Val (NewInstruction (EncodeRune RuneError) [])"
    by (simp add: Parse_def)
  with Parse_elements_valid [OF this] show ?thesis by blast
qed

end
