(* ===== verification/Reader.thy ===== *)
theory Reader
  imports Instruction
begin

text \<open>
  The interface \<open>InstructionReader\<close> of \<open>pkg/tunnel.go\<close>, which the websocket and the
  HTTP server read guacd through, and what they rely on: the bytes handed out are the
  next bytes of the peer, in order and without loss, and a read without an error hands
  out at least one.
\<close>

text \<open>
  Go returns the pair (instruction, err). \<open>None\<close> around it is a call that never
  returns, \<open>RPanic\<close> a run-time panic.
\<close>

datatype read_result = Ret "byte list" "go_error option" | RPanic

text \<open>The instructions of \<open>n\<close> successful reads in a row.\<close>

fun read_n :: "('s \<Rightarrow> (read_result \<times> 's) option) \<Rightarrow> nat \<Rightarrow> 's \<Rightarrow> (byte list list \<times> 's) option" where
  "read_n rd 0 s = Some ([], s)"
| "read_n rd (Suc n) s =
     (case rd s of
        Some (Ret ins None, s1) \<Rightarrow>
          (case read_n rd n s1 of Some (xs, s2) \<Rightarrow> Some (ins # xs, s2) | None \<Rightarrow> None)
      | _ \<Rightarrow> None)"

locale instruction_reader =
  fixes ReadSome :: "'s \<Rightarrow> (read_result \<times> 's) option"
    and Available :: "'s \<Rightarrow> bool"
    and Flush :: "'s \<Rightarrow> 's"
    and pending :: "'s \<Rightarrow> byte list"
    and invar :: "'s \<Rightarrow> bool"
  assumes read_ret: "invar s \<Longrightarrow> ReadSome s = Some (Ret ins e, s') \<Longrightarrow> invar s' \<and> pending s = ins @ pending s'"
    and read_some: "invar s \<Longrightarrow> ReadSome s = Some (Ret ins None, s') \<Longrightarrow> ins \<noteq> []"
    and available: "invar s \<Longrightarrow> Available s \<Longrightarrow> pending s \<noteq> []"
    and flush: "invar s \<Longrightarrow> invar (Flush s) \<and> pending (Flush s) = pending s"
begin

lemma read_n_pending:
  "invar s \<Longrightarrow> read_n ReadSome n s = Some (xs, s') \<Longrightarrow>
     invar s' \<and> pending s = concat xs @ pending s' \<and> length xs = n \<and> [] \<notin> set xs"
proof (induction n arbitrary: s xs)
  case (Suc n)
  from Suc.prems(2) obtain ins s1 ys where r: "ReadSome s = Some (Ret ins None, s1)"
    and n: "read_n ReadSome n s1 = Some (ys, s')" and xs: "xs = ins # ys"
    by (auto split: option.splits prod.splits read_result.splits)
  from Suc.IH [OF _ n] read_ret [OF Suc.prems(1) r] read_some [OF Suc.prems(1) r] xs
  show ?case by auto
qed simp

lemma read_n_bound: "invar s \<Longrightarrow> read_n ReadSome n s = Some (xs, s') \<Longrightarrow> n \<le> length (pending s)"
proof (induction n arbitrary: s xs)
  case (Suc n)
  from Suc.prems(2) obtain ins s1 ys where r: "ReadSome s = Some (Ret ins None, s1)"
    and n: "read_n ReadSome n s1 = Some (ys, s')"
    by (auto split: option.splits prod.splits read_result.splits)
  have "n \<le> length (pending s1)" using Suc.IH [OF _ n] read_ret [OF Suc.prems(1) r] by simp
  moreover have "0 < length ins" using read_some [OF Suc.prems(1) r] by simp
  moreover have "length (pending s) = length ins + length (pending s1)"
    using read_ret [OF Suc.prems(1) r] by simp
  ultimately show ?case by linarith
qed simp

end

end
