(* ===== verification/GuacStream.thy ===== *)
theory GuacStream
  imports Reader
begin

text \<open>
  \<open>pkg/stream.go\<close>: the connection to guacd. The receive buffer is modelled as the code
  has it, a window \<open>buffer = reset[boff : boff + blen]\<close> of one backing array of
  \<open>3 * MaxGuacMessage\<close> bytes: \<open>ReadSome\<close> slides the window forward, \<open>Flush\<close> copies it
  back to the front, \<open>conn.Read\<close> writes behind it.

  The network connection is a \<open>net.Conn\<close>: a script of what its reads will deliver
  (bytes, an error, or both) and of how its writes end.
\<close>

section \<open>The connection\<close>

definition MaxGuacMessage :: nat where
  "MaxGuacMessage = 8192"

text \<open>An error of the connection: a \<open>net.Error\<close> with its \<open>Timeout()\<close>, or any other.\<close>

datatype conn_err = NetErr bool string | OtherErr string

fun conn_err_text :: "conn_err \<Rightarrow> string" where
  "conn_err_text (NetErr t s) = s"
| "conn_err_text (OtherErr s) = s"

definition closed_err :: conn_err where
  "closed_err = NetErr False ''use of closed network connection''"

datatype read_event = Arrive "byte list" "conn_err option"

record Conn =
  incoming :: "read_event list"
  outgoing :: "byte list list"
  write_script :: "(nat \<times> conn_err) option list"
  conn_closed :: bool

text \<open>
  \<open>conn.Read(p)\<close> with \<open>len(p) = k\<close>: nothing is read into an empty slice; a chunk larger
  than the slice is delivered in parts; after the script the peer has closed (EOF).
\<close>

fun Conn_Read :: "Conn \<Rightarrow> nat \<Rightarrow> byte list \<times> conn_err option \<times> Conn" where
  "Conn_Read c k =
     (if conn_closed c then ([], Some closed_err, c)
      else if k = 0 then ([], None, c)
      else case incoming c of
             [] \<Rightarrow> ([], Some (OtherErr ''EOF''), c)
           | Arrive bs e # es \<Rightarrow>
               if length bs \<le> k then (bs, e, c\<lparr>incoming := es\<rparr>)
               else (take k bs, None, c\<lparr>incoming := Arrive (drop k bs) e # es\<rparr>))"

declare Conn_Read.simps [simp del]

text \<open>\<open>conn.Write(data)\<close>: all of the data, or a prefix of it and an error.\<close>

fun Conn_Write :: "Conn \<Rightarrow> byte list \<Rightarrow> nat \<times> conn_err option \<times> Conn" where
  "Conn_Write c data =
     (if conn_closed c then (0, Some closed_err, c)
      else case write_script c of
             [] \<Rightarrow> (length data, None, c\<lparr>outgoing := outgoing c @ [data]\<rparr>)
           | None # ws \<Rightarrow> (length data, None, c\<lparr>outgoing := outgoing c @ [data], write_script := ws\<rparr>)
           | Some (n, e) # ws \<Rightarrow>
               (min n (length data), Some e,
                c\<lparr>outgoing := outgoing c @ [take n data], write_script := ws\<rparr>))"

declare Conn_Write.simps [simp del]

section \<open>The stream\<close>

record Stream =
  conn :: Conn
  ConnectionID :: string
  timeout :: int
  parseStart :: nat
  reset :: "byte list"
  boff :: nat
  blen :: nat

definition NewStream :: "Conn \<Rightarrow> int \<Rightarrow> Stream" where
  "NewStream c t =
     \<lparr>conn = c, ConnectionID = [], timeout = t, parseStart = 0,
      reset = replicate (MaxGuacMessage * 3) (chr 0), boff = 0, blen = 0\<rparr>"

text \<open>The slice \<open>s.buffer\<close> and its capacity.\<close>

definition buffer :: "Stream \<Rightarrow> byte list" where
  "buffer s = take (blen s) (drop (boff s) (reset s))"

definition buf_cap :: "Stream \<Rightarrow> nat" where
  "buf_cap s = length (reset s) - boff s"

definition Stream_Write :: "Stream \<Rightarrow> byte list \<Rightarrow> nat \<times> go_error option \<times> Stream" where
  "Stream_Write s data =
     (if conn_closed (conn s) then (0, Some (Raw (conn_err_text closed_err)), s)
      else let (n, e, c) = Conn_Write (conn s) data
           in (n, map_option (\<lambda>e. Raw (conn_err_text e)) e, s\<lparr>conn := c\<rparr>))"

definition Available :: "Stream \<Rightarrow> bool" where
  "Available s \<longleftrightarrow> 0 < length (buffer s)"

definition Flush :: "Stream \<Rightarrow> Stream" where
  "Flush s = s\<lparr>reset := buffer s @ drop (length (buffer s)) (reset s), boff := 0\<rparr>"

definition Stream_Close :: "Stream \<Rightarrow> Stream" where
  "Stream_Close s = s\<lparr>conn := (conn s)\<lparr>conn_closed := True\<rparr>\<rparr>"

section \<open>The parse loop over the buffer\<close>

text \<open>\<open>for c := 0; c < elementLength; c++\<close>: skip that many runes from index \<open>i\<close>.\<close>

fun skip_runes :: "byte list \<Rightarrow> nat \<Rightarrow> nat \<Rightarrow> nat" where
  "skip_runes buf 0 i = i"
| "skip_runes buf (Suc n) i = skip_runes buf n (i + snd (DecodeRune (drop i buf)))"

text \<open>
  How one run of \<open>parseLoop\<close> ends: more data is needed, an instruction ends before the
  index, a terminator is neither semicolon nor comma, a length holds a non-digit, or
  the terminator is read past the end of the slice (a panic). All but \<open>Complete\<close>
  carry the new \<open>parseStart\<close>.
\<close>

datatype scan_res =
  NeedMore nat | Complete nat | BadTerminator nat | NonNumeric byte nat | ScanPanic nat

lemma skip_runes_ge: "i \<le> skip_runes buf n i"
proof (induction n arbitrary: i)
  case (Suc n)
  have "i \<le> i + snd (DecodeRune (drop i buf))" by simp
  also have "\<dots> \<le> skip_runes buf (Suc n) i" by (simp add: Suc)
  finally show ?case .
qed simp

function scan :: "byte list \<Rightarrow> nat \<Rightarrow> int \<Rightarrow> nat \<Rightarrow> scan_res" where
  "scan buf i elementLength ps =
     (if i < length buf
      then let readChar = buf ! i; j = i + 1 in
        if is_digit readChar
        then scan buf j (wrap64 (elementLength * 10 + int (digit_val readChar))) ps
        else if readChar = CHR ''.''
        then (if int (length buf) \<le> wrap64 (int j + elementLength) then NeedMore ps
              else let t = skip_runes buf (nat elementLength) j in
                if length buf \<le> t then ScanPanic ps
                else let terminator = buf ! t; k = t + 1 in
                  if terminator = CHR '';'' then Complete k
                  else if terminator = CHR '','' then scan buf k 0 k
                  else BadTerminator k)
        else NonNumeric readChar ps
      else NeedMore ps)"
  by pat_completeness auto
termination
proof (relation "measure (\<lambda>(buf, i, elementLength, ps). length buf - i)", goal_cases)
  case (3 buf i elementLength ps readChar j t terminator k)
  then have "j \<le> t" using skip_runes_ge by simp
  with 3 show ?case by simp
qed auto

declare scan.simps [simp del]

section \<open>\<open>ReadSome\<close>\<close>

text \<open>
  The named result \<open>err\<close> keeps the error of an earlier \<open>Read\<close> that also delivered
  bytes, so the loop carries it.
\<close>

definition append_read :: "Stream \<Rightarrow> byte list \<Rightarrow> Stream" where
  "append_read s bs =
     s\<lparr>reset := take (boff s + blen s) (reset s) @ bs @ drop (boff s + blen s + length bs) (reset s),
       blen := blen s + length bs\<rparr>"

definition make_room :: "Stream \<Rightarrow> Stream" where
  "make_room s = (if buf_cap s < MaxGuacMessage then Flush s else s)"

fun read_error :: "conn_err \<Rightarrow> go_error" where
  "read_error (NetErr True e) = NewError ErrUpstreamTimeout [Txt ''Connection to guacd timed out.'', Txt e]"
| "read_error (NetErr False e) = NewError ErrConnectionClosed [Txt ''Connection to guacd is closed.'', Txt e]"
| "read_error (OtherErr e) = NewError ErrServer [Txt e]"

definition next_err :: "byte list \<Rightarrow> conn_err option \<Rightarrow> go_error option" where
  "next_err bs e = (if bs = [] then Some (NewError ErrServer [Txt ''read 0 bytes''])
                    else map_option (\<lambda>e. Raw (conn_err_text e)) e)"

definition terminator_text :: string where
  "terminator_text = ''Element terminator of instruction was not '' @ [CHR 0x27, CHR '';'', CHR 0x27]
     @ '' nor '' @ [CHR 0x27, CHR '','', CHR 0x27]"

text \<open>The loop: \<open>None\<close> is the loop that never returns.\<close>

partial_function (option) read_loop :: "Stream \<Rightarrow> go_error option \<Rightarrow> (read_result \<times> Stream) option" where
  "read_loop s err =
     (case scan (buffer s) (parseStart s) 0 (parseStart s) of
        Complete i \<Rightarrow>
          Some (Ret (take i (buffer s)) err,
                s\<lparr>parseStart := 0, boff := boff s + i, blen := blen s - i\<rparr>)
      | BadTerminator ps \<Rightarrow>
          Some (Ret [] (Some (NewError ErrServer [Txt terminator_text])), s\<lparr>parseStart := ps\<rparr>)
      | NonNumeric c ps \<Rightarrow>
          Some (Ret [] (Some (NewError ErrServer
                  [Txt ''Non-numeric character in element length:'', Txt (EncodeRune (ord c))])),
                s\<lparr>parseStart := ps\<rparr>)
      | ScanPanic ps \<Rightarrow> Some (RPanic, s\<lparr>parseStart := ps\<rparr>)
      | NeedMore ps \<Rightarrow>
          (let s1 = make_room (s\<lparr>parseStart := ps\<rparr>);
               r = Conn_Read (conn s1) (buf_cap s1 - blen s1);
               n = fst r; e = fst (snd r); s2 = s1\<lparr>conn := snd (snd r)\<rparr>
           in if e \<noteq> None \<and> n = []
              then Some (Ret [] (Some (read_error (the e))), s2)
              else read_loop (append_read s2 n) (next_err n e)))"

definition ReadSome :: "Stream \<Rightarrow> (read_result \<times> Stream) option" where
  "ReadSome s =
     (if conn_closed (conn s) then Some (Ret [] (Some (Raw (conn_err_text closed_err))), s)
      else read_loop s None)"


section \<open>The window\<close>

definition stream_ok :: "Stream \<Rightarrow> bool" where
  "stream_ok s \<longleftrightarrow> length (reset s) = MaxGuacMessage * 3 \<and> boff s + blen s \<le> length (reset s)
     \<and> parseStart s \<le> blen s"

lemma NewStream_ok [simp]: "stream_ok (NewStream c t)"
  by (simp add: stream_ok_def NewStream_def)

lemma buffer_NewStream [simp]: "buffer (NewStream c t) = []"
  by (simp add: buffer_def NewStream_def)

lemma length_buffer [stream_simps]: "stream_ok s \<Longrightarrow> length (buffer s) = blen s"
  unfolding stream_ok_def buffer_def by (simp add: min_def) arith

lemma buffer_conn [simp]: "buffer (s\<lparr>conn := c\<rparr>) = buffer s"
  and buffer_parseStart [simp]: "buffer (s\<lparr>parseStart := n\<rparr>) = buffer s"
  by (simp_all add: buffer_def)

lemma stream_ok_conn [simp]: "stream_ok (s\<lparr>conn := c\<rparr>) = stream_ok s"
  by (simp add: stream_ok_def)

lemma buffer_Flush [stream_simps]:
  "stream_ok s \<Longrightarrow> buffer (Flush s) = buffer s"
  using length_buffer [of s] by (simp add: Flush_def buffer_def [of "_\<lparr>reset := _, boff := _\<rparr>"])

lemma Flush_fields [simp]: "parseStart (Flush s) = parseStart s" "blen (Flush s) = blen s"
  "conn (Flush s) = conn s" "boff (Flush s) = 0" "ConnectionID (Flush s) = ConnectionID s"
  by (simp_all add: Flush_def)

lemma stream_ok_Flush [stream_simps]: "stream_ok s \<Longrightarrow> stream_ok (Flush s)"
  using length_buffer [of s] by (auto simp: Flush_def stream_ok_def)

lemma make_room_fields [simp]: "parseStart (make_room s) = parseStart s" "blen (make_room s) = blen s"
  "conn (make_room s) = conn s" "ConnectionID (make_room s) = ConnectionID s"
  by (simp_all add: make_room_def)

lemma buffer_make_room [stream_simps]: "stream_ok s \<Longrightarrow> buffer (make_room s) = buffer s"
  by (simp add: make_room_def buffer_Flush)

lemma stream_ok_make_room [stream_simps]: "stream_ok s \<Longrightarrow> stream_ok (make_room s)"
  by (simp add: make_room_def stream_ok_Flush)

lemma Flush_cap: "stream_ok s \<Longrightarrow> buf_cap (Flush s) = MaxGuacMessage * 3"
  using stream_ok_Flush [of s] by (simp add: buf_cap_def stream_ok_def)

text \<open>While less than a full message is buffered, the read has room.\<close>

lemma make_room_cap: "stream_ok s \<Longrightarrow> blen s < MaxGuacMessage \<Longrightarrow> blen s < buf_cap (make_room s)"
  using Flush_cap [of s] by (auto simp: make_room_def)

lemma buffer_append_read:
  assumes "stream_ok s" and "length bs \<le> buf_cap s - blen s"
  shows "buffer (append_read s bs) = buffer s @ bs"
proof -
  let ?xs = "take (boff s + blen s) (reset s)"
  let ?zs = "drop (boff s + blen s + length bs) (reset s)"
  have len: "length ?xs = boff s + blen s" using assms(1) by (simp add: stream_ok_def)
  have buf: "drop (boff s) ?xs = buffer s" by (simp add: buffer_def drop_take)
  have "buffer (append_read s bs) = take (blen s + length bs) (drop (boff s) (?xs @ bs @ ?zs))"
    by (simp add: buffer_def append_read_def del: drop_append take_append)
  also have "drop (boff s) (?xs @ bs @ ?zs) = buffer s @ bs @ ?zs"
    using len buf by simp
  also have "take (blen s + length bs) (buffer s @ bs @ ?zs) = buffer s @ bs"
    using length_buffer [OF assms(1)] by simp
  finally show ?thesis .
qed

lemma stream_ok_append_read:
  assumes "stream_ok s" and "length bs \<le> buf_cap s - blen s"
  shows "stream_ok (append_read s bs)"
  using assms by (auto simp: stream_ok_def append_read_def buf_cap_def)

lemma append_read_fields [simp]: "parseStart (append_read s bs) = parseStart s"
  "conn (append_read s bs) = conn s" "blen (append_read s bs) = blen s + length bs"
  "ConnectionID (append_read s bs) = ConnectionID s"
  by (simp_all add: append_read_def)

lemma buffer_advance:
  "buffer (s\<lparr>parseStart := 0, boff := boff s + i, blen := blen s - i\<rparr>) = drop i (buffer s)"
  by (simp add: buffer_def drop_take add.commute)

lemma stream_ok_advance:
  "stream_ok s \<Longrightarrow> i \<le> blen s \<Longrightarrow> stream_ok (s\<lparr>parseStart := 0, boff := boff s + i, blen := blen s - i\<rparr>)"
  by (simp add: stream_ok_def)

section \<open>Bounds of the parse loop\<close>

fun scan_start :: "scan_res \<Rightarrow> nat \<Rightarrow> nat" where
  "scan_start (NeedMore ps) d = ps"
| "scan_start (Complete i) d = d"
| "scan_start (BadTerminator ps) d = ps"
| "scan_start (NonNumeric c ps) d = ps"
| "scan_start (ScanPanic ps) d = ps"

lemma scan_bounds:
  assumes "ps \<le> length buf"
  shows "scan_start (scan buf i e ps) 0 \<le> length buf \<and>
    (\<forall>k. scan buf i e ps = Complete k \<longrightarrow> 0 < k \<and> k \<le> length buf)"
  using assms
proof (induction buf i e ps rule: scan.induct)
  case (1 buf i e ps)
  define j where "j = i + 1"
  define t where "t = skip_runes buf (nat e) j"
  consider "\<not> i < length buf" | "i < length buf" "is_digit (buf ! i)"
    | "i < length buf" "\<not> is_digit (buf ! i)" "buf ! i \<noteq> CHR ''.''"
    | "i < length buf" "\<not> is_digit (buf ! i)" "buf ! i = CHR ''.''"
    by blast
  then show ?case
  proof cases
    case 2
    with "1.IH"(1) [OF 2(1) refl refl 2(2) "1.prems"] show ?thesis
      by (subst (1 2) scan.simps) simp
  next
    case 4
    note un = scan.simps [of buf i e ps]
    show ?thesis
    proof (cases "int (length buf) \<le> wrap64 (int j + e) \<or> length buf \<le> t \<or> buf ! t \<noteq> CHR '',''")
      case True
      with 4 "1.prems" show ?thesis by (subst (1 2) un) (auto simp: Let_def j_def t_def)
    next
      case False
      then have "t + 1 \<le> length buf" by simp
      with "1.IH"(2) [OF 4(1) refl refl 4(2,3) _ _ _ refl refl] False 4
      show ?thesis by (subst (1 2) un) (simp add: Let_def j_def t_def)
    qed
  qed (use "1.prems" scan.simps [of buf i e ps] in simp_all)
qed

lemma scan_start_le: "ps \<le> length buf \<Longrightarrow> scan_start (scan buf i e ps) 0 \<le> length buf"
  using scan_bounds by blast

lemma scan_Complete: "ps \<le> length buf \<Longrightarrow> scan buf i e ps = Complete k \<Longrightarrow> 0 < k \<and> k \<le> length buf"
  using scan_bounds by blast


section \<open>The parse loop on well-formed data\<close>

lemma skip_runes_utf8:
  assumes "\<forall>r \<in> set rs. valid_rune r"
  shows "skip_runes (pre @ utf8 rs @ rest) (length rs) (length pre) = length pre + length (utf8 rs)"
  using assms
proof (induction rs arbitrary: pre)
  case (Cons r rs)
  have "skip_runes (pre @ utf8 (r # rs) @ rest) (length (r # rs)) (length pre)
      = skip_runes ((pre @ EncodeRune r) @ utf8 rs @ rest) (length rs) (length (pre @ EncodeRune r))"
    using Cons.prems by (simp add: DecodeRune_EncodeRune)
  also have "\<dots> = length (pre @ EncodeRune r) + length (utf8 rs)"
    using Cons.prems by (intro Cons.IH) simp
  finally show ?case by simp
qed simp

definition len_step :: "int \<Rightarrow> byte \<Rightarrow> int" where
  "len_step e c = wrap64 (e * 10 + int (digit_val c))"

lemma scan_digit:
  "is_digit c \<Longrightarrow> scan (pre @ c # rest) (length pre) e ps =
     scan (pre @ c # rest) (length pre + 1) (len_step e c) ps"
  by (subst scan.simps) (simp add: Let_def len_step_def)

lemma scan_digits:
  assumes "\<forall>c \<in> set ds. is_digit c"
  shows "scan (pre @ ds @ rest) (length pre) e ps =
     scan (pre @ ds @ rest) (length pre + length ds) (foldl len_step e ds) ps"
  using assms
proof (induction ds arbitrary: pre e)
  case (Cons d ds)
  have "scan (pre @ (d # ds) @ rest) (length pre) e ps
      = scan ((pre @ [d]) @ ds @ rest) (length (pre @ [d])) (len_step e d) ps"
    using Cons.prems scan_digit [of d pre "ds @ rest" e ps] by simp
  also have "\<dots> = scan ((pre @ [d]) @ ds @ rest) (length (pre @ [d]) + length ds)
      (foldl len_step (len_step e d) ds) ps"
    using Cons.prems by (intro Cons.IH) simp
  finally show ?case by simp
qed simp

lemma foldl_len_dec: "n < 2 ^ 63 \<Longrightarrow> foldl len_step 0 (dec n) = int n"
proof (induction n rule: dec.induct)
  case (1 n)
  show ?case
  proof (cases "n < 10")
    case True
    then show ?thesis by (simp add: dec.simps [of n] len_step_def wrap64_nat)
  next
    case False
    then have "n div 10 < 2 ^ 63" using "1.prems" by simp
    with "1.IH" False have ih: "foldl len_step 0 (dec (n div 10)) = int (n div 10)" by simp
    have "int (n div 10) * 10 + int (n mod 10) = int n"
      by (metis div_mult_mod_eq of_nat_add of_nat_mult of_nat_numeral)
    then have "len_step (int (n div 10)) (digit_char (n mod 10)) = int n"
      using wrap64_nat [OF "1.prems"] by (simp add: len_step_def)
    with ih False show ?thesis by (simp add: dec.simps [of n])
  qed
qed

text \<open>At the dot: the loop has read the length.\<close>

lemma scan_dot:
  assumes "n < 2 ^ 63"
  shows "scan (pre @ dec n @ CHR ''.'' # rest) (length pre) 0 ps =
    (let buf = pre @ dec n @ CHR ''.'' # rest; j = length pre + length (dec n) + 1 in
     if int (length buf) \<le> wrap64 (int j + int n) then NeedMore ps
     else let t = skip_runes buf n j in
       if length buf \<le> t then ScanPanic ps
       else if buf ! t = CHR '';'' then Complete (t + 1)
       else if buf ! t = CHR '','' then scan buf (t + 1) 0 (t + 1)
       else BadTerminator (t + 1))"
proof -
  have "\<forall>c \<in> set (dec n). is_digit c" using dec_digits by blast
  from scan_digits [OF this, of pre "CHR ''.'' # rest" 0 ps]
  have "scan (pre @ dec n @ CHR ''.'' # rest) (length pre) 0 ps =
      scan (pre @ dec n @ CHR ''.'' # rest) (length pre + length (dec n)) (int n) ps"
    by (simp only: foldl_len_dec [OF assms])
  moreover have "\<not> is_digit CHR ''.''" by (simp add: is_digit_def ord_def)
  ultimately show ?thesis
    by (subst (asm) (2) scan.simps) (simp add: nth_append Let_def)
qed

text \<open>A whole element and its terminator, anywhere in the buffer.\<close>

lemma scan_elem:
  assumes "valid_elem e" and "length pre + length (wire_elem e) < 2 ^ 63"
  shows "scan (pre @ wire_elem e @ c # rest) (length pre) 0 ps =
    (let k = length pre + length (wire_elem e) + 1 in
     if c = CHR '';'' then Complete k
     else if c = CHR '','' then scan (pre @ wire_elem e @ c # rest) k 0 k
     else BadTerminator k)"
proof -
  let ?n = "length e"
  let ?p = "pre @ dec ?n @ ''.''"
  let ?buf = "?p @ utf8 e @ c # rest"
  have w: "pre @ wire_elem e @ c # rest = pre @ dec ?n @ CHR ''.'' # (utf8 e @ c # rest)"
    by (simp add: wire_elem_def)
  have lp: "length ?p = length pre + length (dec ?n) + 1" by simp
  have n: "?n < 2 ^ 63" and v: "\<forall>r \<in> set e. valid_rune r" using assms(1) by (auto simp: valid_elem_def)
  have le: "?n \<le> length (utf8 e)" by (rule length_utf8_ge)
  have "length ?p + ?n < 2 ^ 63" using assms(2) le by (simp add: wire_elem_def)
  then have wr: "wrap64 (int (length ?p) + int ?n) = int (length ?p + ?n)"
    using wrap64_nat [of "length ?p + ?n"] by (simp only: of_nat_add)
  have r1: "\<not> int (length ?buf) \<le> int (length ?p + ?n)"
    and r2: "\<not> length ?buf \<le> length ?p + length (utf8 e)" using le by simp_all
  have sk: "skip_runes ?buf ?n (length ?p) = length ?p + length (utf8 e)"
    using skip_runes_utf8 [OF v, of ?p "c # rest"] .
  have nth: "?buf ! (length ?p + length (utf8 e)) = c"
    by (metis append.assoc length_append nth_append_length)
  have lw: "length pre + length (wire_elem e) + 1 = length ?p + length (utf8 e) + 1"
    by (simp add: wire_elem_def)
  have eq: "pre @ dec ?n @ CHR ''.'' # (utf8 e @ c # rest) = ?buf" by simp
  note sd = scan_dot [OF n, of pre "utf8 e @ c # rest" ps, unfolded Let_def lp [symmetric] eq wr sk nth]
  show ?thesis
    unfolding w eq lw Let_def sd by (simp only: r1 r2 if_False)
qed

lemma scan_wire:
  assumes "es \<noteq> []" and "\<forall>e \<in> set es. valid_elem e"
    and "length pre + length (wire es) < 2 ^ 63"
  shows "scan (pre @ wire es @ rest) (length pre) 0 ps = Complete (length pre + length (wire es))"
  using assms
proof (induction es arbitrary: pre ps rule: wire.induct)
  case (2 e)
  then show ?case using scan_elem [of e pre "CHR '';''" rest ps] by simp
next
  case (3 e f es)
  let ?p = "pre @ wire_elem e @ '',''"
  have "scan (pre @ wire (e # f # es) @ rest) (length pre) 0 ps
      = scan (?p @ wire (f # es) @ rest) (length ?p) 0 (length ?p)"
    using 3 scan_elem [of e pre "CHR '',''" "wire (f # es) @ rest" ps] by simp
  also have "\<dots> = Complete (length ?p + length (wire (f # es)))"
    using "3.prems" by (intro "3.IH") simp_all
  finally show ?case by simp
qed simp

text \<open>A proper prefix of an ASCII element and its terminator asks for more.\<close>

lemma scan_elem_prefix:
  assumes "is_ascii s" and "x @ y = elem_text s" and "length pre + length x + length s < 2 ^ 63"
  shows "scan (pre @ x) (length pre) 0 ps = NeedMore ps"
proof (cases "length x \<le> length (dec (length s))")
  case True
  then have "x = take (length x) (dec (length s))"
    using assms(2) by (metis append_eq_conv_conj elem_text_def take_append take_all_iff
        append.right_neutral diff_is_0_eq take0)
  then have "\<forall>c \<in> set x. is_digit c" by (metis dec_digits in_set_takeD)
  from scan_digits [OF this, of pre "[]" 0 ps] show ?thesis
    by (subst (asm) (2) scan.simps) simp
next
  case False
  let ?n = "length s"
  define u where "u = drop (length (dec ?n)) x"
  have "x = dec ?n @ u"
    using assms(2) False by (simp add: u_def elem_text_def append_eq_append_conv_if split: if_splits)
      (metis append_take_drop_id)
  moreover from this have "u @ y = CHR ''.'' # s" using assms(2) by (simp add: elem_text_def)
  moreover have "u \<noteq> []" using False by (simp add: u_def)
  ultimately obtain x' where x: "x = dec ?n @ CHR ''.'' # x'" and x': "x' @ y = s"
    by (cases u) auto
  have "length x' \<le> ?n" using x' by auto
  have n: "?n < 2 ^ 63" using assms(3) by simp
  have "length pre + length (dec ?n) + 1 + ?n < 2 ^ 63" using assms(3) x by simp
  then have "wrap64 (int (length pre + length (dec ?n) + 1) + int ?n)
      = int (length pre + length (dec ?n) + 1 + ?n)"
    using wrap64_nat by (simp only: of_nat_add [symmetric])
  then show ?thesis
    unfolding x scan_dot [OF n] using \<open>length x' \<le> ?n\<close> by (simp add: Let_def)
qed


section \<open>Resuming inside an instruction\<close>

text \<open>\<open>k\<close> is a place where an element of the instruction text \<open>T\<close> starts.\<close>

definition boundary :: "byte list \<Rightarrow> nat \<Rightarrow> bool" where
  "boundary T k \<longleftrightarrow> k \<le> length T \<and>
     (\<exists>s args. is_ascii s \<and> (\<forall>a \<in> set args. is_ascii a) \<and> drop k T = args_text (elem_text s) args)"

lemma args_text_Cons: "args_text c (a # args) = c @ CHR '','' # args_text (elem_text a) args"
  using args_text_append [of "c @ '','' @ elem_text a" args] args_text_append [of "elem_text a" args]
  by simp

declare args_text.simps(2) [simp del] args_text_Cons [simp]

lemma boundary_ins_bytes:
  "is_ascii opcode \<Longrightarrow> \<forall>a \<in> set args. is_ascii a \<Longrightarrow> boundary (ins_bytes opcode args) 0"
  unfolding boundary_def ins_bytes_text by (auto intro!: exI [of _ opcode] exI [of _ args])

lemma length_elem_text: "length s \<le> length (elem_text s)"
  by (simp add: elem_text_def)

lemma elem_text_valid: "is_ascii s \<Longrightarrow> length (elem_text s) < 2 ^ 63 \<Longrightarrow> valid_elem (map ord s)"
  using length_elem_text [of s] by (intro valid_elem_ascii) auto

lemma scan_partial:
  assumes "is_ascii s" and "\<forall>a \<in> set args. is_ascii a"
    and "x @ y = args_text (elem_text s) args" and "y \<noteq> []"
    and "length pre + 2 * length (args_text (elem_text s) args) < 2 ^ 63"
  shows "\<exists>k. scan (pre @ x) (length pre) 0 (length pre) = NeedMore k \<and> length pre \<le> k \<and>
    k \<le> length (pre @ x) \<and> boundary (pre @ x @ y) k"
  using assms
proof (induction args arbitrary: s pre x)
  case Nil
  obtain z where z: "x @ z = elem_text s"
    using Nil.prems(3,4) by (cases y rule: rev_cases) auto
  then have "length x \<le> length (elem_text s)" by (metis length_append le_add1)
  then have "scan (pre @ x) (length pre) 0 (length pre) = NeedMore (length pre)"
    using length_elem_text [of s] Nil.prems(1,5) by (intro scan_elem_prefix [OF _ z]) auto
  moreover have "boundary (pre @ x @ y) (length pre)"
    using Nil.prems by (auto simp: boundary_def intro!: exI [of _ s] exI [of _ "[] :: string list"])
  ultimately show ?case by auto
next
  case (Cons a args)
  note tx = Cons.prems(3) [unfolded args_text_Cons]
  show ?case
  proof (cases "length x \<le> length (elem_text s)")
    case True
    with tx obtain z where z: "x @ z = elem_text s"
      by (metis append_eq_append_conv_if append_take_drop_id)
    then have "length x \<le> length (elem_text s)" by (metis length_append le_add1)
    moreover have "length (elem_text s) \<le> length (args_text (elem_text s) (a # args))"
      by (simp only: args_text_Cons length_append)
    ultimately have "scan (pre @ x) (length pre) 0 (length pre) = NeedMore (length pre)"
      using length_elem_text [of s] Cons.prems(1,5) by (intro scan_elem_prefix [OF _ z]) linarith+
    moreover have "boundary (pre @ x @ y) (length pre)"
      using Cons.prems by (auto simp: boundary_def intro!: exI [of _ s] exI [of _ "a # args"])
    ultimately show ?thesis by auto
  next
    case False
    define u where "u = drop (length (elem_text s)) x"
    have "x = elem_text s @ u"
      using tx False by (simp add: u_def append_eq_append_conv_if split: if_splits)
        (metis append_take_drop_id)
    moreover from this have "u @ y = CHR '','' # args_text (elem_text a) args" using tx by simp
    moreover have "u \<noteq> []" using False by (simp add: u_def)
    ultimately obtain v where x: "x = elem_text s @ CHR '','' # v"
      and v: "v @ y = args_text (elem_text a) args" by (cases u) auto
    let ?p = "pre @ elem_text s @ '',''"
    have bound: "length ?p + 2 * length (args_text (elem_text a) args) < 2 ^ 63"
      using Cons.prems(5) by (simp add: args_text_Cons)
    have "valid_elem (map ord s)"
      using Cons.prems(1,5) by (intro elem_text_valid) (auto simp: args_text_Cons)
    from scan_elem [OF this, of pre "CHR '',''" v "length pre"] Cons.prems(1,5)
    have "scan (pre @ x) (length pre) 0 (length pre) = scan (?p @ v) (length ?p) 0 (length ?p)"
      by (simp add: x wire_elem_ascii args_text_Cons)
    moreover obtain k where "scan (?p @ v) (length ?p) 0 (length ?p) = NeedMore k"
      "length ?p \<le> k" "k \<le> length (?p @ v)" "boundary (?p @ v @ y) k"
      using Cons.IH [OF _ _ v Cons.prems(4) bound] Cons.prems(2) by auto
    ultimately show ?thesis by (intro exI [of _ k]) (auto simp: x)
  qed
qed

lemma scan_resume:
  assumes "boundary T ps" and "T = buf @ y" and "y \<noteq> []" and "ps \<le> length buf" and "length T < 2 ^ 62"
  shows "\<exists>k. scan buf ps 0 ps = NeedMore k \<and> k \<le> length buf \<and> boundary T k"
proof -
  from assms(1) obtain s args where a: "is_ascii s" "\<forall>a \<in> set args. is_ascii a"
    and d: "drop ps T = args_text (elem_text s) args" by (auto simp: boundary_def)
  have buf: "take ps buf @ drop ps buf = buf" and l: "length (take ps buf) = ps"
    using assms(4) by simp_all
  have "drop ps buf @ y = args_text (elem_text s) args" using assms(2,4) d by simp
  moreover have "ps + 2 * length (args_text (elem_text s) args) < 2 ^ 63"
    using assms(2,4,5) arg_cong [OF d, of length] by auto
  moreover have "take ps buf @ drop ps buf @ y = T" using assms(2) by (simp flip: append_assoc)
  ultimately show ?thesis
    using scan_partial [OF a _ assms(3), of "drop ps buf" "take ps buf"] by (simp only: buf l) blast
qed

lemma scan_full:
  assumes "boundary T k" and "length T < 2 ^ 63"
  shows "scan (T @ rest) k 0 ps = Complete (length T)"
proof -
  from assms(1) obtain s args where k: "k \<le> length T" and a: "is_ascii s" "\<forall>a \<in> set args. is_ascii a"
    and d: "drop k T = args_text (elem_text s) args" by (auto simp: boundary_def)
  let ?es = "map (map ord) (s # args)"
  have w: "wire ?es = drop k T" using a d by (simp only: wire_ascii)
  have len: "\<forall>a \<in> set (s # args). length a \<le> length (args_text (elem_text s) args)"
  proof (induction args arbitrary: s)
    case Nil
    then show ?case using length_elem_text by (simp add: le_SucI)
  next
    case (Cons b args)
    from Cons [of b] show ?case using length_elem_text [of s]
      by (auto simp only: args_text_Cons length_append list.size set_simps) (auto intro: le_SucI trans_le_add2)
  qed
  have "length (args_text (elem_text s) args) < 2 ^ 63" using d assms(2) by (metis length_drop less_imp_diff_less)
  then have "\<forall>e \<in> set ?es. valid_elem e" using a len
    by (auto intro!: valid_elem_ascii dest: order.strict_trans1)
  from scan_wire [OF _ this, of "take k T" rest ps] w k assms(2)
  show ?thesis by (simp del: wire.simps flip: append_assoc)
qed

section \<open>What is still to be read\<close>

fun event_bytes :: "read_event \<Rightarrow> byte list" where
  "event_bytes (Arrive bs e) = bs"

definition all_bytes :: "read_event list \<Rightarrow> byte list" where
  "all_bytes es = concat (map event_bytes es)"

text \<open>The bytes of the peer that \<open>ReadSome\<close> has not yet returned.\<close>

definition pending :: "Stream \<Rightarrow> byte list" where
  "pending s = buffer s @ all_bytes (incoming (conn s))"

text \<open>The bytes that arrive before the first read that reports an error.\<close>

fun arrivals :: "read_event list \<Rightarrow> byte list" where
  "arrivals [] = []"
| "arrivals (Arrive bs None # es) = bs @ arrivals es"
| "arrivals (Arrive bs (Some e) # es) = []"

definition read_work :: "Conn \<Rightarrow> nat" where
  "read_work c = sum_list (map (\<lambda>ev. Suc (length (event_bytes ev))) (incoming c))"

lemma Conn_Read_pending:
  assumes "Conn_Read c k = (bs, e, c')"
  shows "all_bytes (incoming c) = bs @ all_bytes (incoming c')" and "length bs \<le> k"
    and "conn_closed c' = conn_closed c" and "outgoing c' = outgoing c"
    and "write_script c' = write_script c"
  using assms by (auto simp: Conn_Read.simps all_bytes_def split: if_splits list.splits read_event.splits)

text \<open>A read into a non-empty slice makes progress through the clean part of the script.\<close>

lemma Conn_Read_clean:
  assumes "\<not> conn_closed c" and "0 < k" and "arrivals (incoming c) \<noteq> []"
  obtains bs c' where "Conn_Read c k = (bs, None, c')" and "length bs \<le> k"
    and "arrivals (incoming c) = bs @ arrivals (incoming c')" and "read_work c' < read_work c"
    and "\<not> conn_closed c'" and "outgoing c' = outgoing c"
proof -
  from assms(3) obtain bs es where "incoming c = Arrive bs None # es"
    by (cases "incoming c" rule: arrivals.cases) auto
  then show ?thesis
    using that assms by (cases "length bs \<le> k")
      (auto simp: Conn_Read.simps read_work_def)
qed


section \<open>What \<open>ReadSome\<close> does to the stream\<close>

text \<open>
  Every return of the loop: nothing is lost and nothing is reordered. The bytes
  returned are the front of what was pending, and an error returns none of them.
\<close>

definition read_post :: "Stream \<Rightarrow> read_result \<Rightarrow> Stream \<Rightarrow> bool" where
  "read_post s r s' \<longleftrightarrow>
     (\<forall>ins e. r = Ret ins e \<longrightarrow>
        stream_ok s' \<and> conn_closed (conn s') = conn_closed (conn s) \<and>
        pending s = ins @ pending s' \<and> (e = None \<longrightarrow> ins \<noteq> []) \<and>
        outgoing (conn s') = outgoing (conn s) \<and> write_script (conn s') = write_script (conn s) \<and>
        ConnectionID s' = ConnectionID s)"

lemma read_step:
  assumes "stream_ok s" and "parseStart s \<le> ps" and "ps \<le> blen s"
    and s1: "s1 = make_room (s\<lparr>parseStart := ps\<rparr>)"
    and rd: "Conn_Read (conn s1) (buf_cap s1 - blen s1) = (bs, e, c)"
  shows "stream_ok (append_read (s1\<lparr>conn := c\<rparr>) bs)"
    and "buffer (append_read (s1\<lparr>conn := c\<rparr>) bs) = buffer s @ bs"
    and "pending (append_read (s1\<lparr>conn := c\<rparr>) bs) = pending s"
    and "stream_ok s1" and "buffer s1 = buffer s" and "conn s1 = conn s"
    and "ConnectionID s1 = ConnectionID s"
proof -
  have ok: "stream_ok (s\<lparr>parseStart := ps\<rparr>)" using assms(1,3) by (simp add: stream_ok_def)
  show ok1: "stream_ok s1" and b1: "buffer s1 = buffer s" and c1: "conn s1 = conn s"
    and "ConnectionID s1 = ConnectionID s"
    using ok by (simp_all add: s1 stream_simps)
  have cap: "buf_cap (s1\<lparr>conn := c\<rparr>) = buf_cap s1" by (simp add: buf_cap_def)
  note rp = Conn_Read_pending [OF rd]
  show "stream_ok (append_read (s1\<lparr>conn := c\<rparr>) bs)"
    using ok1 rp(2) by (intro stream_ok_append_read) (simp_all add: cap)
  show b: "buffer (append_read (s1\<lparr>conn := c\<rparr>) bs) = buffer s @ bs"
    using ok1 rp(2) b1 by (subst buffer_append_read) (simp_all add: cap)
  show "pending (append_read (s1\<lparr>conn := c\<rparr>) bs) = pending s"
    using rp(1) by (simp add: pending_def b c1)
qed

lemma read_loop_post:
  assumes "read_loop s err = Some rs"
  shows "stream_ok s \<longrightarrow> read_post s (fst rs) (snd rs)"
proof (rule read_loop.raw_induct
    [where P = "\<lambda>s err rs. stream_ok s \<longrightarrow> read_post s (fst rs) (snd rs)", OF _ assms(1)])
  fix f :: "Stream \<Rightarrow> go_error option \<Rightarrow> (read_result \<times> Stream) option" and s err rs
  assume IH: "\<And>s err rs. f s err = Some rs \<Longrightarrow> stream_ok s \<longrightarrow> read_post s (fst rs) (snd rs)"
  let ?sc = "scan (buffer s) (parseStart s) 0 (parseStart s)"
  assume eq: "(case ?sc of
        NeedMore ps \<Rightarrow>
          (let s1 = make_room (s\<lparr>parseStart := ps\<rparr>);
               r = Conn_Read (conn s1) (buf_cap s1 - blen s1);
               n = fst r; e = fst (snd r); s2 = s1\<lparr>conn := snd (snd r)\<rparr>
           in if e \<noteq> None \<and> n = []
              then Some (Ret [] (Some (read_error (the e))), s2)
              else f (append_read s2 n) (next_err n e))
      | Complete i \<Rightarrow>
          Some (Ret (take i (buffer s)) err,
                s\<lparr>parseStart := 0, boff := boff s + i, blen := blen s - i\<rparr>)
      | BadTerminator ps \<Rightarrow>
          Some (Ret [] (Some (NewError ErrServer [Txt terminator_text])), s\<lparr>parseStart := ps\<rparr>)
      | NonNumeric c ps \<Rightarrow>
          Some (Ret [] (Some (NewError ErrServer
                  [Txt ''Non-numeric character in element length:'', Txt (EncodeRune (ord c))])),
                s\<lparr>parseStart := ps\<rparr>)
      | ScanPanic ps \<Rightarrow> Some (RPanic, s\<lparr>parseStart := ps\<rparr>)) = Some rs"
  show "stream_ok s \<longrightarrow> read_post s (fst rs) (snd rs)"
  proof
    assume ok: "stream_ok s"
    then have ps: "parseStart s \<le> length (buffer s)" and len: "length (buffer s) = blen s"
      by (simp_all add: length_buffer) (simp add: stream_ok_def)
    have start: "scan_start ?sc 0 \<le> blen s" using scan_start_le [OF ps] len by metis
    have okp: "k \<le> blen s \<Longrightarrow> stream_ok (s\<lparr>parseStart := k\<rparr>)" for k using ok by (simp add: stream_ok_def)
    show "read_post s (fst rs) (snd rs)"
    proof (cases ?sc)
      case (NeedMore k)
      define s1 where "s1 = make_room (s\<lparr>parseStart := k\<rparr>)"
      obtain bs e c where rd: "Conn_Read (conn s1) (buf_cap s1 - blen s1) = (bs, e, c)"
        using prod_cases3 by blast
      have k: "k \<le> blen s" using start NeedMore by simp
      have s1': "s1 = make_room ((s\<lparr>parseStart := 0\<rparr>)\<lparr>parseStart := k\<rparr>)" by (simp add: s1_def)
      have ok0: "stream_ok (s\<lparr>parseStart := 0\<rparr>)" by (rule okp) simp
      have p0: "pending (s\<lparr>parseStart := 0\<rparr>) = pending s" by (simp add: pending_def)
      note st = read_step [OF ok0 _ _ s1' rd, simplified, OF k, unfolded p0]
      note rp = Conn_Read_pending [OF rd]
      show ?thesis
      proof (cases "e \<noteq> None \<and> bs = []")
        case True
        with eq NeedMore rd have "rs = (Ret [] (Some (read_error (the e))), s1\<lparr>conn := c\<rparr>)"
          by (simp add: s1_def [symmetric] Let_def)
        then show ?thesis using st rp True by (simp add: read_post_def pending_def)
      next
        case False
        with eq NeedMore rd have "f (append_read (s1\<lparr>conn := c\<rparr>) bs) (next_err bs e) = Some rs"
          by (simp add: s1_def [symmetric] Let_def split: if_splits)
        from IH [OF this] st(1) have "read_post (append_read (s1\<lparr>conn := c\<rparr>) bs) (fst rs) (snd rs)" by simp
        then show ?thesis using st rp by (simp add: read_post_def)
      qed
    next
      case (Complete i)
      then have i: "0 < i" "i \<le> blen s" using scan_Complete [OF ps Complete] len by auto
      with eq Complete ok show ?thesis
        using stream_ok_advance [OF ok i(2)] len
        by (auto simp: read_post_def pending_def buffer_advance)
    qed (use eq ok start okp in \<open>auto simp: read_post_def pending_def\<close>)
  qed
qed

lemma ReadSome_post:
  "ReadSome s = Some (r, s') \<Longrightarrow> stream_ok s \<Longrightarrow> read_post s r s'"
  using read_loop_post [of s None "(r, s')"]
  by (auto simp: ReadSome_def read_post_def split: if_splits)


text \<open>The stream is an instruction reader.\<close>

interpretation guacd: instruction_reader ReadSome Available Flush pending stream_ok
proof
  fix s s' :: Stream and ins e
  show "stream_ok s \<Longrightarrow> ReadSome s = Some (Ret ins e, s') \<Longrightarrow> stream_ok s' \<and> pending s = ins @ pending s'"
    using ReadSome_post [of s "Ret ins e" s'] by (simp add: read_post_def)
  show "stream_ok s \<Longrightarrow> ReadSome s = Some (Ret ins None, s') \<Longrightarrow> ins \<noteq> []"
    using ReadSome_post [of s "Ret ins None" s'] by (simp add: read_post_def)
  show "stream_ok s \<Longrightarrow> Available s \<Longrightarrow> pending s \<noteq> []"
    by (auto simp: Available_def pending_def)
  show "stream_ok s \<Longrightarrow> stream_ok (Flush s) \<and> pending (Flush s) = pending s"
    by (simp add: stream_simps pending_def)
qed

section \<open>Properties\<close>

lemma read_loop_reassembles:
  assumes "stream_ok s" and "\<not> conn_closed (conn s)" and "boundary T (parseStart s)"
    and "length T \<le> MaxGuacMessage"
    and "buffer s @ arrivals (incoming (conn s)) = T @ rest"
    and "err = None \<or> length (buffer s) < length T"
  shows "\<exists>s'. read_loop s err = Some (Ret T None, s') \<and> stream_ok s' \<and> parseStart s' = 0 \<and>
    \<not> conn_closed (conn s') \<and> outgoing (conn s') = outgoing (conn s) \<and>
    buffer s' @ arrivals (incoming (conn s')) = rest"
  using assms
proof (induction "read_work (conn s)" arbitrary: s err rule: less_induct)
  case less
  have T: "length T < 2 ^ 62" using less.prems(4) by (simp add: MaxGuacMessage_def)
  have len: "length (buffer s) = blen s" and psl: "parseStart s \<le> blen s"
    using less.prems(1) length_buffer by (auto simp: stream_ok_def)
  show ?case
  proof (cases "length T \<le> blen s")
    case True
    then obtain v where v: "buffer s = T @ v"
      using less.prems(5) len by (metis append_eq_append_conv_if append_take_drop_id)
    with scan_full [OF less.prems(3), of v] T
    have "scan (buffer s) (parseStart s) 0 (parseStart s) = Complete (length T)" by simp
    then show ?thesis
      using less.prems v True len stream_ok_advance [OF less.prems(1) True]
      by (subst read_loop.simps) (simp add: buffer_advance)
  next
    case False
    define y where "y = drop (blen s) T"
    have Tb: "T = buffer s @ y" and y: "y \<noteq> []"
      using less.prems(5) len False by (auto simp: y_def append_eq_append_conv_if split: if_splits)
    obtain k where sc: "scan (buffer s) (parseStart s) 0 (parseStart s) = NeedMore k"
      and k: "k \<le> blen s" "boundary T k"
      using scan_resume [OF less.prems(3) Tb y psl [folded len] T] len by auto
    define s0 s1 where "s0 = s\<lparr>parseStart := k\<rparr>" and "s1 = make_room s0"
    have ok0: "stream_ok s0" using less.prems(1) k(1) by (simp add: s0_def stream_ok_def)
    have room: "0 < buf_cap s1 - blen s1"
      using make_room_cap [OF ok0] False less.prems(4) by (simp add: s1_def s0_def)
    have c1: "conn s1 = conn s" by (simp add: s1_def s0_def)
    have arr: "arrivals (incoming (conn s1)) = y @ rest" using less.prems(5) Tb c1 by simp
    obtain bs c where rd: "Conn_Read (conn s1) (buf_cap s1 - blen s1) = (bs, None, c)"
      and bs: "length bs \<le> buf_cap s1 - blen s1" "arrivals (incoming (conn s1)) = bs @ arrivals (incoming c)"
      and w: "read_work c < read_work (conn s1)" "\<not> conn_closed c" "outgoing c = outgoing (conn s1)"
      using Conn_Read_clean [of "conn s1" "buf_cap s1 - blen s1"] room less.prems(2) arr y c1 by auto
    define s2 where "s2 = append_read (s1\<lparr>conn := c\<rparr>) bs"
    have unf: "read_loop s err = read_loop s2 (next_err bs None)"
      using rd by (subst read_loop.simps) (simp add: sc s0_def [symmetric] s1_def [symmetric] s2_def)
    have s0': "s1 = make_room ((s0\<lparr>parseStart := 0\<rparr>)\<lparr>parseStart := k\<rparr>)" by (simp add: s1_def s0_def)
    have "stream_ok (s0\<lparr>parseStart := 0\<rparr>)" using ok0 by (simp add: stream_ok_def)
    note st = read_step [OF this _ _ s0' rd, simplified, folded s2_def]
    have ok2: "stream_ok s2" and b2: "buffer s2 = buffer s @ bs"
      using st(1,2) k(1) by (simp_all add: s0_def)
    have "next_err bs None = None \<or> length (buffer s2) < length T"
      using b2 len False by (auto simp: next_err_def)
    moreover have "buffer s2 @ arrivals (incoming (conn s2)) = T @ rest"
      using b2 arr bs(2) Tb by (simp add: s2_def)
    ultimately show ?thesis
      using less.hyps [of s2 "next_err bs None"] ok2 w c1 k(2) less.prems(2,4)
      by (simp add: unf) (simp add: s2_def s1_def s0_def)
  qed
qed


lemma ReadSome_whole:
  assumes "stream_ok s" and "\<not> conn_closed (conn s)" and "parseStart s = 0" and "boundary T 0"
    and "length T \<le> MaxGuacMessage"
    and "buffer s @ arrivals (incoming (conn s)) = T @ rest"
  shows "\<exists>s'. ReadSome s = Some (Ret T None, s') \<and> stream_ok s' \<and>
    parseStart s' = 0 \<and> \<not> conn_closed (conn s') \<and> outgoing (conn s') = outgoing (conn s) \<and>
    buffer s' @ arrivals (incoming (conn s')) = rest"
  using read_loop_reassembles [of s T rest None] assms by (simp add: ReadSome_def)

text \<open>C10: an ASCII instruction of at most \<open>MaxGuacMessage\<close> bytes is returned whole and byte
  for byte, however the network cuts it into chunks (empty reads included); the loop
  returns, and what follows the instruction stays to be read.\<close>

theorem ReadSome_reassembles:
  assumes "stream_ok s" and "\<not> conn_closed (conn s)" and "parseStart s = 0"
    and "is_ascii opcode" and "\<forall>a \<in> set args. is_ascii a"
    and "length (ins_bytes opcode args) \<le> MaxGuacMessage"
    and "buffer s @ arrivals (incoming (conn s)) = ins_bytes opcode args @ rest"
  shows "\<exists>s'. ReadSome s = Some (Ret (ins_bytes opcode args) None, s') \<and> stream_ok s' \<and>
    parseStart s' = 0 \<and> \<not> conn_closed (conn s') \<and> outgoing (conn s') = outgoing (conn s) \<and>
    buffer s' @ arrivals (incoming (conn s')) = rest"
  using assms by (intro ReadSome_whole boundary_ins_bytes)

definition demo_conn :: "read_event list \<Rightarrow> Conn" where
  "demo_conn es = \<lparr>incoming = es, outgoing = [], write_script = [], conn_closed = False\<rparr>"

lemma demo_conn_fields [simp]: "incoming (demo_conn es) = es" "conn_closed (demo_conn es) = False"
  "outgoing (demo_conn es) = []" "write_script (demo_conn es) = []"
  by (simp_all add: demo_conn_def)

lemma NewStream_fields [simp]: "conn (NewStream c t) = c" "parseStart (NewStream c t) = 0"
  by (simp_all add: NewStream_def)

lemma ReadSome_reassembles_witness:
  "\<exists>s'. ReadSome (NewStream (demo_conn [Arrive ''4.co'' None, Arrive [] None, Arrive ''py,2.a'' None,
       Arrive ''b;3.nop;'' None]) 15) = Some (Ret ''4.copy,2.ab;'' None, s') \<and>
     buffer s' @ arrivals (incoming (conn s')) = ''3.nop;''"
proof -
  have t: "ins_bytes ''copy'' [''ab''] = ''4.copy,2.ab;''"
    by code_simp
  show ?thesis
    using ReadSome_reassembles [of "NewStream (demo_conn [Arrive ''4.co'' None, Arrive [] None,
        Arrive ''py,2.a'' None, Arrive ''b;3.nop;'' None]) 15" "''copy''" "[''ab'']" "''3.nop;''"]
    by (auto simp: t is_ascii_def ord_def MaxGuacMessage_def)
qed

lemma ReadSome_in_buffer:
  assumes "stream_ok s" and "\<not> conn_closed (conn s)" and "parseStart s = 0"
    and "es \<noteq> []" and "\<forall>e \<in> set es. valid_elem e"
    and "buffer s = wire es @ rest"
  obtains s' where "ReadSome s = Some (Ret (wire es) None, s')" and "conn s' = conn s" and "buffer s' = rest"
    and "stream_ok s'" and "parseStart s' = 0"
proof -
  have "length (wire es) \<le> MaxGuacMessage * 3"
    using length_buffer [OF assms(1)] assms(1,6) by (simp add: stream_ok_def)
  then have "length (wire es) < 2 ^ 63" by (simp add: MaxGuacMessage_def)
  with scan_wire [OF assms(4,5), of "[]" rest 0] assms(3,6)
  have "scan (buffer s) (parseStart s) 0 (parseStart s) = Complete (length (wire es))" by simp
  then have "\<exists>s'. ReadSome s = Some (Ret (wire es) None, s') \<and> conn s' = conn s \<and> buffer s' = rest \<and> parseStart s' = 0"
    using assms by (simp add: ReadSome_def) (subst read_loop.simps, simp add: buffer_advance)
  then obtain s' where r: "ReadSome s = Some (Ret (wire es) None, s')" and s': "conn s' = conn s" "buffer s' = rest" "parseStart s' = 0"
    by blast
  with that ReadSome_post [OF r assms(1)] show thesis by (simp add: read_post_def)
qed

text \<open>An unfinished instruction whose peer has closed the connection.\<close>

lemma ReadSome_EOF:
  assumes "stream_ok s" and "\<not> conn_closed (conn s)" and "incoming (conn s) = []" and "blen s < MaxGuacMessage"
    and "scan (buffer s) (parseStart s) 0 (parseStart s) = NeedMore k"
  obtains s' where "ReadSome s = Some (Ret [] (Some (read_error (OtherErr ''EOF''))), s')"
proof -
  define s1 where "s1 = make_room (s\<lparr>parseStart := k\<rparr>)"
  have "parseStart s \<le> length (buffer s)" using assms(1) length_buffer [OF assms(1)] by (simp add: stream_ok_def)
  from scan_start_le [OF this, of "parseStart s" 0] have "k \<le> blen s"
    using length_buffer [OF assms(1)] by (simp add: assms(5))
  then have ok: "stream_ok (s\<lparr>parseStart := k\<rparr>)" using assms(1) by (simp add: stream_ok_def)
  have "0 < buf_cap s1 - blen s1" using make_room_cap [OF ok] assms(4) by (simp add: s1_def)
  moreover have "conn s1 = conn s" by (simp add: s1_def)
  ultimately have "Conn_Read (conn s1) (buf_cap s1 - blen s1) = ([], Some (OtherErr ''EOF''), conn s1)"
    using assms(2,3) by (simp add: Conn_Read.simps)
  then have "read_loop s None = Some (Ret [] (Some (read_error (OtherErr ''EOF''))), s1\<lparr>conn := conn s1\<rparr>)"
    by (subst read_loop.simps) (simp add: assms(5) s1_def Let_def)
  with that show thesis using assms(2) by (simp add: ReadSome_def)
qed

lemma ReadSome_at_end:
  assumes "stream_ok s" and "\<not> conn_closed (conn s)" and "incoming (conn s) = []" and "blen s < MaxGuacMessage"
    and "scan (buffer s) (parseStart s) 0 (parseStart s) = NeedMore k"
  obtains e s' where "ReadSome s = Some (Ret [] (Some e), s')"
  using ReadSome_EOF [OF assms] by blast

text \<open>An instruction that is in the buffer already, with any Unicode text in it, is
  returned at once and the network is not touched.\<close>

theorem ReadSome_buffered:
  assumes "stream_ok s" and "\<not> conn_closed (conn s)" and "parseStart s = 0"
    and "es \<noteq> []" and "\<forall>e \<in> set es. valid_elem e"
    and "buffer s = wire es @ rest"
  shows "\<exists>s'. ReadSome s = Some (Ret (wire es) None, s') \<and> conn s' = conn s \<and> buffer s' = rest"
  using ReadSome_in_buffer [OF assms] by blast

definition demo_stream :: "byte list \<Rightarrow> Stream" where
  "demo_stream bs = append_read (NewStream (demo_conn []) 15) bs"

lemma demo_stream_simps:
  assumes "length bs \<le> MaxGuacMessage"
  shows "buffer (demo_stream bs) = bs" and "stream_ok (demo_stream bs)"
    and "parseStart (demo_stream bs) = 0" and "conn (demo_stream bs) = demo_conn []"
proof -
  have "length bs \<le> buf_cap (NewStream (demo_conn []) 15) - blen (NewStream (demo_conn []) 15)"
    using assms by (simp add: buf_cap_def NewStream_def)
  then show "buffer (demo_stream bs) = bs" and "stream_ok (demo_stream bs)"
    unfolding demo_stream_def
    by (simp_all add: buffer_append_read stream_ok_append_read)
qed (simp_all add: demo_stream_def)

definition nop_elem :: "nat list" where
  "nop_elem = map ord ''nop''"

lemma wire_nop: "wire [nop_elem] = ''3.nop;''"
proof -
  have "ins_bytes ''nop'' [] = wire (map (map ord) [''nop''])"
    by (rule ins_bytes_wire) (simp_all add: is_ascii_def)
  moreover have "ins_bytes ''nop'' [] = ''3.nop;''" by code_simp
  ultimately show ?thesis by (simp add: nop_elem_def)
qed

lemma valid_nop: "[nop_elem] \<noteq> []" "\<forall>e \<in> set [nop_elem]. valid_elem e"
  by (simp_all add: nop_elem_def valid_elem_def valid_rune_def ord_def)

lemma length_nop: "length (wire [nop_elem]) = 6"
  by (simp only: wire_nop) simp

lemma demo_nop:
  assumes "length rest < 100"
  obtains s1 where "ReadSome (demo_stream (wire [nop_elem] @ rest)) = Some (Ret (wire [nop_elem]) None, s1)"
    and "conn s1 = demo_conn []" and "buffer s1 = rest" and "stream_ok s1" and "parseStart s1 = 0"
    and "stream_ok (demo_stream (wire [nop_elem] @ rest))"
proof -
  have l: "length (wire [nop_elem] @ rest) \<le> MaxGuacMessage"
    using assms by (simp only: length_append length_nop MaxGuacMessage_def)
  note d = demo_stream_simps [OF l]
  have "\<not> conn_closed (conn (demo_stream (wire [nop_elem] @ rest)))" unfolding d(4) by simp
  from ReadSome_in_buffer [OF d(2) this d(3) valid_nop d(1)] that d(2) show thesis unfolding d(4) by blast
qed

lemma scan_Nil: "scan [] 0 0 0 = NeedMore 0"
  by (subst scan.simps) simp

lemma ReadSome_buffered_witness:
  "\<exists>s'. ReadSome (demo_stream (wire [map ord ''copy'', [0x4E2D, 0x6587]] @ ''4.copy''))
     = Some (Ret (wire [map ord ''copy'', [0x4E2D, 0x6587]]) None, s') \<and> buffer s' = ''4.copy''"
proof -
  let ?es = "[map ord ''copy'', [0x4E2D, 0x6587]]"
  have v: "\<forall>e \<in> set ?es. valid_elem e"
    by (simp add: valid_elem_def valid_rune_def ord_def)
  have l: "length (wire ?es @ ''4.copy'') \<le> MaxGuacMessage"
    by (simp add: wire_elem_def dec.simps EncodeRune_def valid_rune_def MaxGuacMessage_def ord_def)
  have "\<not> conn_closed (conn (demo_stream (wire ?es @ ''4.copy'')))"
    by (simp only: demo_stream_simps [OF l] demo_conn_fields) simp
  from ReadSome_buffered [OF demo_stream_simps(2) [OF l] this demo_stream_simps(3) [OF l] _ v
      demo_stream_simps(1) [OF l]]
  show ?thesis by blast
qed

text \<open>C36: over any number of reads in a row nothing is lost, duplicated or reordered: the
  instructions returned are, concatenated, exactly the front of the bytes the peer
  sent, and there are at most as many as bytes.\<close>

theorem reads_conserve_bytes:
  assumes "stream_ok s" and "read_n ReadSome n s = Some (xs, s')"
  shows "pending s = concat xs @ pending s' \<and> length xs = n \<and> [] \<notin> set xs \<and> n \<le> length (pending s)"
  using guacd.read_n_pending [OF assms] guacd.read_n_bound [OF assms] by simp

lemma reads_conserve_bytes_witness:
  "\<exists>xs s'. read_n ReadSome 1 (demo_stream (wire [[0x61]] @ ''x'')) = Some (xs, s') \<and>
     pending (demo_stream (wire [[0x61]] @ ''x'')) = concat xs @ pending s'"
proof -
  let ?s = "demo_stream (wire [[0x61]] @ ''x'')"
  have l: "length (wire [[0x61]] @ ''x'') \<le> MaxGuacMessage"
    by (simp add: wire_elem_def dec.simps EncodeRune_def valid_rune_def MaxGuacMessage_def)
  have "scan (wire [[0x61]] @ ''x'') 0 0 0 = Complete (length (wire [[0x61]]))"
    using scan_wire [of "[[0x61]]" "[]" "''x''" 0]
    by (simp add: valid_elem_def valid_rune_def wire_elem_def dec.simps EncodeRune_def)
  then have "\<exists>s'. read_n ReadSome 1 ?s = Some ([wire [[0x61]]], s')"
    by (simp add: ReadSome_def demo_stream_simps [OF l] del: wire.simps)
      (subst read_loop.simps, simp add: demo_stream_simps [OF l] del: wire.simps)
  then show ?thesis
    using reads_conserve_bytes [OF demo_stream_simps(2) [OF l], of 1] by blast
qed

text \<open>The first read of a new stream.\<close>

lemma read_loop_NewStream:
  assumes "f \<noteq> []" and "length f \<le> MaxGuacMessage"
  shows "read_loop (NewStream (demo_conn (Arrive f None # es)) t) None =
    read_loop (append_read (NewStream (demo_conn es) t) f) None"
    and "buffer (append_read (NewStream (demo_conn es) t) f) = f"
    and "parseStart (append_read (NewStream (demo_conn es) t) f) = 0"
proof -
  let ?s = "NewStream (demo_conn (Arrive f None # es)) t"
  have cap: "buf_cap (NewStream c t) = MaxGuacMessage * 3" and z: "blen (NewStream c t) = 0" for c
    by (simp_all add: buf_cap_def NewStream_def)
  have p: "?s\<lparr>parseStart := 0\<rparr> = ?s" and c: "?s\<lparr>conn := demo_conn es\<rparr> = NewStream (demo_conn es) t"
    by (simp_all add: NewStream_def)
  have mr: "make_room ?s = ?s" by (simp add: make_room_def cap)
  have rd: "Conn_Read (demo_conn (Arrive f None # es)) (MaxGuacMessage * 3) = (f, None, demo_conn es)"
    using assms(2) by (simp add: Conn_Read.simps demo_conn_def MaxGuacMessage_def)
  have sc: "scan [] 0 0 0 = NeedMore 0" by (simp add: scan.simps)
  show "read_loop ?s None = read_loop (append_read (NewStream (demo_conn es) t) f) None"
    using assms(1) by (subst read_loop.simps) (simp add: sc p mr cap z rd c next_err_def)
  show "buffer (append_read (NewStream (demo_conn es) t) f) = f"
    using assms(2) by (subst buffer_append_read) (simp_all add: cap z)
qed simp

text \<open>The parser's room check counts bytes where the length counts characters: when the
  network cuts a message inside a multi-byte character, \<open>ReadSome\<close> reads the
  terminator past the end of the buffer and panics, whatever would arrive next.\<close>

theorem ReadSome_split_character_panics:
  "\<exists>s'. ReadSome (NewStream (demo_conn (Arrive (''1.x,2.'' @ [chr 0xE4, chr 0xB8, chr 0xAD, chr 0xE6]) None # es)) t)
     = Some (RPanic, s')"
proof -
  let ?f = "''1.x,2.'' @ [chr 0xE4, chr 0xB8, chr 0xAD, chr 0xE6]"
  let ?c = "[chr 0xE4, chr 0xB8, chr 0xAD, chr 0xE6]"
  have d: "dec 1 = ''1''" "dec 2 = ''2''" by code_simp+
  have "skip_runes ?f 2 6 = 10"
    by (simp add: numeral_2_eq_2 DecodeRune_def lead_def cont_def)
  moreover have l4: "length ''1.x,'' = 4" and j: "4 + length (dec 2) + 1 = 6"
    and f: "''1.x,'' @ dec 2 @ CHR ''.'' # ?c = ?f" and l10: "length ?f = 10"
    by (simp_all add: d)
  moreover have "(2::nat) < 2 ^ 63" by simp
  note scan_dot [OF this, of "''1.x,''" ?c 4, unfolded l4 j f l10 Let_def]
  ultimately have "scan ?f 4 0 4 = ScanPanic 4" by simp
  moreover have "wire_elem (map ord ''x'') = elem_text ''x''"
    by (rule wire_elem_ascii) (simp add: is_ascii_def)
  then have "valid_elem [0x78]" and "wire_elem [0x78] = ''1.x''"
    using d by (simp_all add: valid_elem_def valid_rune_def elem_text_def)
  moreover have k: "length [] + length ''1.x'' + 1 = 4" by simp
  ultimately have sc: "scan ?f 0 0 0 = ScanPanic 4"
    using scan_elem [of "[0x78]" "[]" "CHR '',''" "dec 2 @ CHR ''.'' # ?c" 0]
    by (simp only: k Let_def) (simp add: d)
  define f where "f = ?f"
  have f0: "f \<noteq> []" "length f \<le> MaxGuacMessage" by (simp_all add: f_def MaxGuacMessage_def)
  have "read_loop (NewStream (demo_conn (Arrive f None # es)) t) None
      = Some (RPanic, (append_read (NewStream (demo_conn es) t) f)\<lparr>parseStart := 4\<rparr>)"
    unfolding read_loop_NewStream(1) [OF f0] using sc [folded f_def]
    by (subst read_loop.simps) (simp add: read_loop_NewStream(2,3) [OF f0])
  then show ?thesis by (simp only: f_def) (simp add: ReadSome_def)
qed

text \<open>C40: a message that fills the window to the end of the array without being complete is
  never moved to the front while the window is at least \<open>MaxGuacMessage\<close> bytes: each
  read is into an empty slice and \<open>ReadSome\<close> spins forever.\<close>

theorem ReadSome_spins:
  assumes "stream_ok s" and "\<not> conn_closed (conn s)"
    and "scan (buffer s) (parseStart s) 0 (parseStart s) = NeedMore (parseStart s)"
    and "blen s = buf_cap s" and "MaxGuacMessage \<le> buf_cap s"
  shows "ReadSome s = None"
proof -
  have same: "append_read s [] = s" using assms(1) by (simp add: append_read_def stream_ok_def)
  have mr: "make_room s = s" using assms(5) by (simp add: make_room_def)
  have rd: "Conn_Read (conn s) (buf_cap s - blen s) = ([], None, conn s)"
    using assms(2,4) by (simp add: Conn_Read.simps)
  have "read_loop s err \<noteq> Some rs" for err rs
  proof
    assume ret: "read_loop s err = Some rs"
    have "s \<noteq> s"
      by (rule read_loop.raw_induct [where P = "\<lambda>u e r. u \<noteq> s", OF _ ret])
        (use assms(3) mr rd same in \<open>fastforce simp: Let_def\<close>)
    then show False by simp
  qed
  then show ?thesis using assms(2) by (cases "read_loop s None") (auto simp: ReadSome_def)
qed

lemma ReadSome_spins_witness:
  "ReadSome \<lparr>conn = demo_conn [Arrive ''more'' None], ConnectionID = [], timeout = 15, parseStart = 0,
     reset = replicate 16384 (chr 0) @ dec 9000 @ CHR ''.'' # replicate 8187 CHR ''x'',
     boff = 16384, blen = 8192\<rparr> = None" (is "ReadSome ?s = None")
proof -
  have l: "length (dec 9000) = 4" by (simp add: dec.simps)
  have b: "buffer ?s = dec 9000 @ CHR ''.'' # replicate 8187 CHR ''x''"
    by (simp add: buffer_def l)
  have ok: "stream_ok ?s" by (simp add: stream_ok_def MaxGuacMessage_def l)
  have "scan (buffer ?s) 0 0 0 = NeedMore 0"
    using scan_dot [of 9000 "[]" "replicate 8187 CHR ''x''" 0] by (simp add: b l)
  then show ?thesis
    using ReadSome_spins [OF ok] by (simp add: buf_cap_def l MaxGuacMessage_def)
qed

end
