(* ===== verification/Handshake.thy ===== *)
theory Handshake
  imports GuacStream
begin

text \<open>
  The handshake with guacd: \<open>ReadOne\<close> (\<open>instruction.go\<close>), \<open>AssertOpcode\<close> and
  \<open>Handshake\<close> (\<open>stream.go\<close>), over the configuration of \<open>config.go\<close>. As for
  \<open>ReadSome\<close>, \<open>None\<close> is a call that never returns.
\<close>

section \<open>Configuration (\<open>config.go\<close>)\<close>

record Config =
  cfg_ConnectionID :: string
  cfg_Protocol :: string
  cfg_Parameters :: "string gomap"
  OptimalScreenWidth :: int
  OptimalScreenHeight :: int
  OptimalResolution :: int
  AudioMimetypes :: "string list"
  VideoMimetypes :: "string list"
  ImageMimetypes :: "string list"

definition NewGuacamoleConfiguration :: Config where
  "NewGuacamoleConfiguration =
     \<lparr>cfg_ConnectionID = [], cfg_Protocol = [], cfg_Parameters = [],
      OptimalScreenWidth = 1024, OptimalScreenHeight = 768, OptimalResolution = 96,
      AudioMimetypes = [], VideoMimetypes = [], ImageMimetypes = []\<rparr>"

section \<open>Reading one instruction\<close>

definition ReadOne :: "Stream \<Rightarrow> (Instruction res \<times> Stream) option" where
  "ReadOne s =
     (case ReadSome s of
        None \<Rightarrow> None
      | Some (RPanic, s') \<Rightarrow> Some (Panic, s')
      | Some (Ret ins (Some e), s') \<Rightarrow> Some (Fail e, s')
      | Some (Ret ins None, s') \<Rightarrow> Some (Parse ins, s'))"

definition AssertOpcode :: "Stream \<Rightarrow> string \<Rightarrow> (Instruction res \<times> Stream) option" where
  "AssertOpcode s opcode =
     (case ReadOne s of
        Some (Val ins, s') \<Rightarrow>
          if length (Opcode ins) = 0
          then Some (Fail (NewError ErrServer
                 [Txt (''End of stream while waiting for '' @ [CHR 0x22] @ opcode @ [CHR 0x22] @ ''.'')]), s')
          else if Opcode ins \<noteq> opcode
          then Some (Fail (NewError ErrServer
                 [Txt (''Expected '' @ [CHR 0x22] @ opcode @ [CHR 0x22] @ '' instruction but instead received ''
                       @ [CHR 0x22] @ Opcode ins @ [CHR 0x22] @ ''.'')]), s')
          else Some (Val ins, s')
      | r \<Rightarrow> r)"

section \<open>The handshake\<close>

text \<open>\<open>s.Write(NewInstruction(op, args...).Byte())\<close>, then the rest unless it failed.\<close>

definition send_then ::
  "string \<Rightarrow> string list \<Rightarrow> Stream \<Rightarrow> (Stream \<Rightarrow> (unit res \<times> Stream) option) \<Rightarrow> (unit res \<times> Stream) option" where
  "send_then opcode args s k =
     (let (n, e, s') = Stream_Write s (ins_bytes opcode args)
      in case e of Some err \<Rightarrow> Some (Fail err, s') | None \<Rightarrow> k s')"

definition expect_then ::
  "string \<Rightarrow> Stream \<Rightarrow> (Instruction \<Rightarrow> Stream \<Rightarrow> (unit res \<times> Stream) option) \<Rightarrow> (unit res \<times> Stream) option" where
  "expect_then opcode s k =
     (case AssertOpcode s opcode of
        None \<Rightarrow> None
      | Some (Val ins, s') \<Rightarrow> k ins s'
      | Some (Fail e, s') \<Rightarrow> Some (Fail e, s')
      | Some (Panic, s') \<Rightarrow> Some (Panic, s'))"

definition param_value :: "Config \<Rightarrow> string \<Rightarrow> string" where
  "param_value config argName = (case map_of (cfg_Parameters config) argName of Some v \<Rightarrow> v | None \<Rightarrow> [])"

definition select_arg :: "Config \<Rightarrow> string" where
  "select_arg config =
     (if length (cfg_ConnectionID config) = 0 then cfg_Protocol config else cfg_ConnectionID config)"

definition size_args :: "Config \<Rightarrow> string list" where
  "size_args config =
     [dec_int (OptimalScreenWidth config), dec_int (OptimalScreenHeight config), dec_int (OptimalResolution config)]"

definition finish_handshake :: "Instruction \<Rightarrow> Stream \<Rightarrow> (unit res \<times> Stream) option" where
  "finish_handshake ready s =
     (case Args ready of
        [] \<Rightarrow> Some (Fail (NewError ErrServer [Txt ''No connection ID received'']), s)
      | cid # _ \<Rightarrow> Some (Val (), (Flush s)\<lparr>ConnectionID := cid\<rparr>))"

definition Handshake :: "Config \<Rightarrow> Stream \<Rightarrow> (unit res \<times> Stream) option" where
  "Handshake config s =
     send_then ''select'' [select_arg config] s (\<lambda>s.
     expect_then ''args'' s (\<lambda>args s.
     send_then ''size'' (size_args config) s (\<lambda>s.
     send_then ''audio'' (AudioMimetypes config) s (\<lambda>s.
     send_then ''video'' (VideoMimetypes config) s (\<lambda>s.
     send_then ''image'' (ImageMimetypes config) s (\<lambda>s.
     send_then ''connect'' (map (param_value config) (Args args)) s (\<lambda>s.
     expect_then ''ready'' s (\<lambda>ready s.
     finish_handshake ready s))))))))"

section \<open>The steps\<close>

text \<open>A stream between two instructions: nothing half-parsed, the connection open and its
  writes succeeding.\<close>

definition at_rest :: "Stream \<Rightarrow> bool" where
  "at_rest s \<longleftrightarrow> stream_ok s \<and> parseStart s = 0 \<and> \<not> conn_closed (conn s) \<and> write_script (conn s) = []"

definition unread :: "Stream \<Rightarrow> byte list" where
  "unread s = buffer s @ arrivals (incoming (conn s))"

lemma send_then_ok:
  assumes "at_rest s"
  obtains s' where "\<And>k. send_then opcode args s k = k s'" and "at_rest s'" and "unread s' = unread s"
    and "outgoing (conn s') = outgoing (conn s) @ [ins_bytes opcode args]" and "ConnectionID s' = ConnectionID s"
proof
  let ?s = "s\<lparr>conn := (conn s)\<lparr>outgoing := outgoing (conn s) @ [ins_bytes opcode args]\<rparr>\<rparr>"
  show "send_then opcode args s k = k ?s" for k
    using assms by (simp add: send_then_def Stream_Write_def Conn_Write.simps at_rest_def)
  show "at_rest ?s" and "unread ?s = unread s"
    using assms by (simp_all add: at_rest_def unread_def)
qed simp_all

text \<open>An instruction the protocol allows: ASCII and at most one message long.\<close>

definition small_ascii :: "string \<Rightarrow> string list \<Rightarrow> bool" where
  "small_ascii opcode args \<longleftrightarrow> is_ascii opcode \<and> (\<forall>a \<in> set args. is_ascii a) \<and>
     length (ins_bytes opcode args) \<le> MaxGuacMessage"

lemma small_ascii_lengths:
  assumes "small_ascii opcode args"
  shows "length opcode < 2 ^ 63" and "\<forall>a \<in> set args. length a < 2 ^ 63"
proof -
  have "\<forall>a \<in> set (opcode # args). length a \<le> length (args_text (elem_text opcode) args)"
  proof (induction args arbitrary: opcode)
    case (Cons b args)
    from Cons [of b] show ?case using length_elem_text [of opcode]
      by (auto intro: le_SucI trans_le_add2)
  qed (use length_elem_text in \<open>simp add: le_SucI\<close>)
  moreover have "length (args_text (elem_text opcode) args) < 2 ^ 63"
    using assms by (simp add: small_ascii_def ins_bytes_text MaxGuacMessage_def)
  ultimately show "length opcode < 2 ^ 63" and "\<forall>a \<in> set args. length a < 2 ^ 63"
    using order.strict_trans1 by (auto simp only: list.set_intros set_simps ball_simps)
qed

lemma ReadOne_ok:
  assumes "at_rest s" and "small_ascii opcode args" and "unread s = ins_bytes opcode args @ rest"
  obtains s' where "ReadOne s = Some (Val (NewInstruction opcode args), s')" and "at_rest s'"
    and "unread s' = rest" and "outgoing (conn s') = outgoing (conn s)" and "ConnectionID s' = ConnectionID s"
proof -
  note a = assms(1) [unfolded at_rest_def] and b = assms(2) [unfolded small_ascii_def]
  obtain s' where r: "ReadSome s = Some (Ret (ins_bytes opcode args) None, s')" and s': "stream_ok s'"
    "parseStart s' = 0" "\<not> conn_closed (conn s')" "outgoing (conn s') = outgoing (conn s)"
    "buffer s' @ arrivals (incoming (conn s')) = rest"
    using ReadSome_whole [of s "ins_bytes opcode args" rest] boundary_ins_bytes a b assms(3)
    by (auto simp: unread_def)
  have "Parse (ins_bytes opcode args @ []) = Val (NewInstruction opcode args)"
    using Parse_ins_bytes b small_ascii_lengths [OF assms(2)] by blast
  with r s' show ?thesis
    using that [of s'] ReadSome_post [OF r] a
    by (simp add: ReadOne_def at_rest_def unread_def read_post_def)
qed


lemma expect_then_ok:
  assumes "at_rest s" and "small_ascii opcode args" and "opcode \<noteq> []" and "unread s = ins_bytes opcode args @ rest"
  obtains s' where "\<And>k. expect_then opcode s k = k (NewInstruction opcode args) s'" and "at_rest s'"
    and "unread s' = rest" and "outgoing (conn s') = outgoing (conn s)" and "ConnectionID s' = ConnectionID s"
proof -
  obtain s' where s': "ReadOne s = Some (Val (NewInstruction opcode args), s')" "at_rest s'"
    "unread s' = rest" "outgoing (conn s') = outgoing (conn s)" "ConnectionID s' = ConnectionID s"
    using ReadOne_ok [OF assms(1,2,4)] by blast
  have "expect_then opcode s k = k (NewInstruction opcode args) s'" for k
    using assms(3) by (simp add: expect_then_def AssertOpcode_def s'(1)) (simp add: NewInstruction_def)
  with that s'(2-) show thesis by blast
qed

section \<open>Properties\<close>

text \<open>What a successful handshake has sent.\<close>

definition handshake_bytes :: "Config \<Rightarrow> string list \<Rightarrow> byte list list" where
  "handshake_bytes config names =
     [ins_bytes ''select'' [select_arg config], ins_bytes ''size'' (size_args config),
      ins_bytes ''audio'' (AudioMimetypes config), ins_bytes ''video'' (VideoMimetypes config),
      ins_bytes ''image'' (ImageMimetypes config),
      ins_bytes ''connect'' (map (param_value config) names)]"

lemma Handshake_succeeds:
  assumes "at_rest s" and "small_ascii ''args'' names" and "small_ascii ''ready'' (cid # extra)"
    and "unread s = ins_bytes ''args'' names @ ins_bytes ''ready'' (cid # extra) @ rest"
  shows "\<exists>s'. Handshake config s = Some (Val (), s') \<and> ConnectionID s' = cid \<and>
    outgoing (conn s') = outgoing (conn s) @ handshake_bytes config names \<and> unread s' = rest"
proof -
  obtain s1 where s1: "\<And>k. send_then ''select'' [select_arg config] s k = k s1" "at_rest s1"
    "unread s1 = unread s" "outgoing (conn s1) = outgoing (conn s) @ [ins_bytes ''select'' [select_arg config]]"
    using send_then_ok [OF assms(1)] by metis
  obtain s2 where s2: "\<And>k. expect_then ''args'' s1 k = k (NewInstruction ''args'' names) s2" "at_rest s2"
    "unread s2 = ins_bytes ''ready'' (cid # extra) @ rest" "outgoing (conn s2) = outgoing (conn s1)"
    using expect_then_ok [OF s1(2) assms(2)] s1(3) assms(4) by (metis list.distinct(1))
  obtain s3 where s3: "\<And>k. send_then ''size'' (size_args config) s2 k = k s3" "at_rest s3"
    "unread s3 = unread s2" "outgoing (conn s3) = outgoing (conn s2) @ [ins_bytes ''size'' (size_args config)]"
    using send_then_ok [OF s2(2)] by metis
  obtain s4 where s4: "\<And>k. send_then ''audio'' (AudioMimetypes config) s3 k = k s4" "at_rest s4"
    "unread s4 = unread s3" "outgoing (conn s4) = outgoing (conn s3) @ [ins_bytes ''audio'' (AudioMimetypes config)]"
    using send_then_ok [OF s3(2)] by metis
  obtain s5 where s5: "\<And>k. send_then ''video'' (VideoMimetypes config) s4 k = k s5" "at_rest s5"
    "unread s5 = unread s4" "outgoing (conn s5) = outgoing (conn s4) @ [ins_bytes ''video'' (VideoMimetypes config)]"
    using send_then_ok [OF s4(2)] by metis
  obtain s6 where s6: "\<And>k. send_then ''image'' (ImageMimetypes config) s5 k = k s6" "at_rest s6"
    "unread s6 = unread s5" "outgoing (conn s6) = outgoing (conn s5) @ [ins_bytes ''image'' (ImageMimetypes config)]"
    using send_then_ok [OF s5(2)] by metis
  obtain s7 where s7: "\<And>k. send_then ''connect'' (map (param_value config) names) s6 k = k s7" "at_rest s7"
    "unread s7 = unread s6"
    "outgoing (conn s7) = outgoing (conn s6) @ [ins_bytes ''connect'' (map (param_value config) names)]"
    using send_then_ok [OF s6(2)] by metis
  have u7: "unread s7 = ins_bytes ''ready'' (cid # extra) @ rest"
    using s3(3) s4(3) s5(3) s6(3) s7(3) s2(3) by simp
  obtain s8 where s8: "\<And>k. expect_then ''ready'' s7 k = k (NewInstruction ''ready'' (cid # extra)) s8" "at_rest s8"
    "unread s8 = rest" "outgoing (conn s8) = outgoing (conn s7)"
    using expect_then_ok [OF s7(2) assms(3) _ u7] by (metis list.distinct(1))
  have "Handshake config s = finish_handshake (NewInstruction ''ready'' (cid # extra)) s8"
    by (simp add: Handshake_def s1(1) s2(1) s3(1) s4(1) s5(1) s6(1) s7(1) s8(1) NewInstruction_def)
  moreover have "outgoing (conn s8) = outgoing (conn s) @ handshake_bytes config names"
    using s1(4) s2(4) s3(4) s4(4) s5(4) s6(4) s7(4) s8(4) by (simp add: handshake_bytes_def)
  moreover have "buffer ((Flush s8)\<lparr>ConnectionID := cid\<rparr>) = buffer (Flush s8)"
    by (simp add: buffer_def)
  then have "unread ((Flush s8)\<lparr>ConnectionID := cid\<rparr>) = rest"
    using s8(2,3) by (simp add: unread_def at_rest_def stream_simps)
  ultimately show ?thesis by (simp add: finish_handshake_def NewInstruction_def)
qed

text \<open>C27: when guacd answers with the names of its parameters and then with a connection id,
  the handshake succeeds in whatever chunks the answers arrive; it has sent select, size,
  audio, video, image and connect in this order, the values of connect in the order of
  the names guacd asked for (empty where the configuration has none), and it has stored
  the connection id.\<close>

theorem Handshake_ok:
  assumes "at_rest s" and "small_ascii ''args'' names" and "small_ascii ''ready'' (cid # extra)"
    and "unread s = ins_bytes ''args'' names @ ins_bytes ''ready'' (cid # extra) @ rest"
  shows "\<exists>s'. Handshake config s = Some (Val (), s') \<and> ConnectionID s' = cid \<and>
    outgoing (conn s') = outgoing (conn s) @ handshake_bytes config names \<and> unread s' = rest"
  using assms by (rule Handshake_succeeds)

lemma Handshake_ok_witness:
  "\<exists>s'. Handshake (NewGuacamoleConfiguration\<lparr>cfg_Protocol := ''rdp'', cfg_Parameters := [(''port'', ''3389'')]\<rparr>)
       (NewStream (demo_conn [Arrive ''4.args,4.host'' None, Arrive '',4.port;5.re'' None,
          Arrive ''ady,3.$id;4.sync;'' None]) 15) = Some (Val (), s') \<and>
     ConnectionID s' = ''$id'' \<and>
     outgoing (conn s') = [''6.select,3.rdp;'', ''4.size,4.1024,3.768,2.96;'', ''5.audio;'', ''5.video;'',
       ''5.image;'', ''7.connect,0.,4.3389;''] \<and> unread s' = ''4.sync;''"
proof -
  let ?c = "NewGuacamoleConfiguration\<lparr>cfg_Protocol := ''rdp'', cfg_Parameters := [(''port'', ''3389'')]\<rparr>"
  let ?s = "NewStream (demo_conn [Arrive ''4.args,4.host'' None, Arrive '',4.port;5.re'' None,
          Arrive ''ady,3.$id;4.sync;'' None]) 15"
  have t: "ins_bytes ''args'' [''host'', ''port''] = ''4.args,4.host,4.port;''"
    "ins_bytes ''ready'' [''$id''] = ''5.ready,3.$id;''"
    by code_simp+
  have h: "handshake_bytes ?c [''host'', ''port''] =
     [''6.select,3.rdp;'', ''4.size,4.1024,3.768,2.96;'', ''5.audio;'', ''5.video;'',
       ''5.image;'', ''7.connect,0.,4.3389;'']"
    by code_simp
  have 1: "at_rest ?s" by (simp add: at_rest_def)
  have 2: "small_ascii ''args'' [''host'', ''port'']" "small_ascii ''ready'' [''$id'']"
    by (simp_all add: small_ascii_def t is_ascii_def ord_def MaxGuacMessage_def)
  have 3: "unread ?s = ins_bytes ''args'' [''host'', ''port''] @ ins_bytes ''ready'' [''$id''] @ ''4.sync;''"
    by (simp add: unread_def t)
  from Handshake_ok [OF 1 2 3, of ?c] show ?thesis
    by (simp add: h)
qed

text \<open>When guacd answers the \<open>select\<close> with anything but \<open>args\<close>, the handshake fails with
  a server error that names both opcodes, and nothing but the \<open>select\<close> has been sent: no
  parameter of the configuration leaves the process.\<close>

theorem Handshake_unexpected_opcode:
  assumes "at_rest s" and "small_ascii opcode args" and "opcode \<noteq> []" and "opcode \<noteq> ''args''"
    and "unread s = ins_bytes opcode args @ rest"
  shows "\<exists>s' e. Handshake config s = Some (Fail e, s') \<and> error_kind e = Some ErrServer \<and>
    outgoing (conn s') = outgoing (conn s) @ [ins_bytes ''select'' [select_arg config]]"
proof -
  obtain s1 where s1: "\<And>k. send_then ''select'' [select_arg config] s k = k s1" "at_rest s1"
    "unread s1 = unread s" "outgoing (conn s1) = outgoing (conn s) @ [ins_bytes ''select'' [select_arg config]]"
    using send_then_ok [OF assms(1)] by metis
  obtain s2 where s2: "ReadOne s1 = Some (Val (NewInstruction opcode args), s2)"
    "outgoing (conn s2) = outgoing (conn s1)"
    using ReadOne_ok [OF s1(2) assms(2)] s1(3) assms(5) by metis
  show ?thesis using assms(3,4) s1(4) s2(2)
    by (simp add: Handshake_def s1(1) expect_then_def AssertOpcode_def s2(1)) (simp add: NewInstruction_def)
qed

lemma Handshake_unexpected_opcode_witness:
  "\<exists>s' e. Handshake NewGuacamoleConfiguration (NewStream (demo_conn [Arrive ''5.error,4.busy;'' None]) 15) =
       Some (Fail e, s') \<and> error_kind e = Some ErrServer \<and> outgoing (conn s') = [''6.select,0.;'']"
proof -
  have t: "ins_bytes ''error'' [''busy''] = ''5.error,4.busy;''"
    "ins_bytes ''select'' [select_arg NewGuacamoleConfiguration] = ''6.select,0.;''"
    by code_simp+
  have "small_ascii ''error'' [''busy'']"
    by (simp add: small_ascii_def t is_ascii_def ord_def MaxGuacMessage_def)
  then show ?thesis
    using Handshake_unexpected_opcode [of "NewStream (demo_conn [Arrive ''5.error,4.busy;'' None]) 15"
        "''error''" "[''busy'']" "[]" NewGuacamoleConfiguration]
    by (simp add: at_rest_def unread_def t)
qed

end
