(* ===== verification/World.thy ===== *)
theory World
  imports GuacErrors Instruction
begin

text \<open>
  The state the request handlers share: the session records of
  \<open>pkg/session/session.go\<close> behind the \<open>SessionDataStore\<close> of \<open>pkg/mem_session_data.go\<close>, the
  clients and rooms of \<open>pkg/rdp_sharing.go\<close>, the round-robin recording queue of
  \<open>pkg/redis.go\<close>, and the trace of what the process sends out. Pointers that several
  goroutines share (\<open>*RdpClient\<close>, \<open>*SessionCommonData\<close>) are indices into a heap that only
  grows. Answers of the database, the mail service and the other services the process calls
  are fields of an \<open>env\<close>, an argument of the operations that ask them.
\<close>

section \<open>Constants (\<open>constants.go\<close>)\<close>

definition ROLE_ADMIN :: string where "ROLE_ADMIN = ''admin''"
definition ROLE_CO_HOST :: string where "ROLE_CO_HOST = ''cohost''"
definition ROLE_VIEWER :: string where "ROLE_VIEWER = ''viewer''"
definition APPAEGIS_RESP_OP :: string where "APPAEGIS_RESP_OP = ''appaegis-resp''"
definition USER_PERMISSON :: string where "USER_PERMISSON = ''user-permission''"
definition MEMBERS :: string where "MEMBERS = ''members''"
definition REMOVE_SHARE :: string where "REMOVE_SHARE = ''remove-share''"

lemma roles_distinct [simp]: "ROLE_ADMIN \<noteq> ROLE_CO_HOST" "ROLE_ADMIN \<noteq> ROLE_VIEWER"
  "ROLE_CO_HOST \<noteq> ROLE_VIEWER" "ROLE_CO_HOST \<noteq> ROLE_ADMIN" "ROLE_VIEWER \<noteq> ROLE_ADMIN"
  "ROLE_VIEWER \<noteq> ROLE_CO_HOST"
  by (simp_all add: ROLE_ADMIN_def ROLE_CO_HOST_def ROLE_VIEWER_def)

section \<open>Data\<close>

text \<open>
  \<open>logging.LoggingInfo\<close> (\<open>lib/logging\<close>); \<open>StartTime\<close> in nanoseconds.
\<close>

record LoggingInfo =
  li_TenantId :: string
  li_Email :: string
  li_AppName :: string
  li_ClientIp :: string
  li_ClientPrivateIp :: string
  S3Key :: string
  EnableRecording :: bool
  StartTime :: int
  Sku :: string
  li_SessionId :: string

definition GetRecordingFileName :: "LoggingInfo \<Rightarrow> string" where
  "GetRecordingFileName l = li_Email l @ ''-'' @ S3Key l"

text \<open>The session of the examples.\<close>

definition demo_info :: LoggingInfo where
  "demo_info = \<lparr>li_TenantId = ''t'', li_Email = ''host'', li_AppName = ''App'', li_ClientIp = ''1.2.3.4'',
     li_ClientPrivateIp = [], S3Key = ''k'', EnableRecording = True, StartTime = 0, Sku = [], li_SessionId = []\<rparr>"

text \<open>
  \<open>session.SessionCommonData\<close>. The fields nothing of the modelled code reads
  (\<open>SessionStartTime\<close>, \<open>Websocket\<close>) are left out; \<open>MonitorRules\<close>, a map to a type of
  another module, is only passed on to that module, with the session.
\<close>

record SessionCommonData =
  Auth :: bool
  ServerName :: string
  TenantID :: string
  AppID :: string
  Email :: string
  UserName :: string
  IDToken :: string
  ClientIsoCountry :: string
  ses_ClientIP :: string
  ses_ClientPrivateIp :: string
  ses_AppName :: string
  RoleIDs :: "string list"
  Recording :: bool
  MonitorPolicyId :: string
  MonitorPolicyName :: string
  RdpSessionId :: string
  GuacdAddr :: string

text \<open>
  \<open>RdpClient\<close>: \<open>Websocket\<close> is the number of the connection. \<open>UserAgent\<close> is a struct of
  another module that is stored and passed on; it is kept as the JSON text it is read from.
\<close>

record RdpClient =
  Websocket :: nat
  UserAgent :: string
  UserId :: string
  Role :: string
  Mouse :: bool
  Keyboard :: bool

record RdpSessionRoom =
  Creator :: string
  AppId :: string
  SessionId :: string
  RdpConnectionId :: string
  AllowSharing :: bool
  Users :: "nat gomap"
  Invitees :: "string gomap"
  loggingInfo :: LoggingInfo

text \<open>\<open>logging.Action\<close>, before \<open>FillAttribute\<close> copies the session's fields into it.\<close>

record Action =
  act_Session :: "nat option"
  AppTag :: string
  PolicyID :: string
  PolicyName :: string
  UserEmail :: string
  Username :: string
  RemotePath :: string
  FileCount :: int
  Files :: "string list"
  act_ClientIP :: string
  act_ClientPrivateIp :: string
  Destination :: string
  BlockPolicyType :: string
  BlockReason :: string

definition empty_action :: Action where
  "empty_action = \<lparr>act_Session = None, AppTag = [], PolicyID = [], PolicyName = [], UserEmail = [],
     Username = [], RemotePath = [], FileCount = 0, Files = [], act_ClientIP = [],
     act_ClientPrivateIp = [], Destination = [], BlockPolicyType = [], BlockReason = []\<rparr>"

text \<open>
  \<open>BlockEvent\<close> of \<open>commands.go\<close>; the events are constants of another module, of which only
  that they differ is used.
\<close>

datatype PolicyEvent = EventAccess | EventUpload | EventDownload

record BlockEvent =
  be_Event :: PolicyEvent
  be_RemotePath :: string
  be_Session :: nat
  be_Files :: "string list"
  be_FileCount :: int
  be_BlockPolicyType :: string
  be_BlockReason :: string

text \<open>\<open>DLPJobEventPayload\<close> of \<open>commands.go\<close>.\<close>

record DLPJobEventPayload =
  dlp_Path :: string
  dlp_User :: string
  dlp_FileName :: string
  ActionType :: string
  dlp_AppID :: string
  dlp_AppName :: string
  dlp_TenantID :: string
  Location :: string
  dlp_UserAgent :: string

text \<open>
  What the process sends out, in order. \<open>GoSendEvent\<close> is the start of the goroutine
  that runs \<open>SendEvent\<close>, \<open>GoSendBlockEvent\<close> that of \<open>sendBlockEvent\<close>.
\<close>

datatype effect =
    WsSend nat "byte list"
  | WsClose nat
  | DbShareRdpSession string string string
  | DbRemoveInvitee string string
  | DbDeleteRdpSession string
  | DbSaveActiveRdpSession string string
  | KvPut string string
  | KvDelete string
  | MailInvitation string string string string
  | QueuePush string LoggingInfo
  | LogAction Action
  | GoSendEvent string Action
  | GoSendBlockEvent BlockEvent
  | DlpSendJobEvent DLPJobEventPayload
  | RdpCount string int

text \<open>What the session store holds: a \<open>*SessionCommonData\<close> or a value of another type.\<close>

datatype store_value = SessionPtr nat | OtherData string

record world =
  rdpRooms :: "RdpSessionRoom gomap"
  clients :: "RdpClient list"
  session_heap :: "SessionCommonData list"
  session_data :: "store_value gomap"
  queue_count :: int
  trace :: "effect list"

text \<open>
  The loops over maps; each visits its keys in an order of its own (\<open>order\<close>).
\<close>

datatype loop = MembersUsers | MembersInvitees | StopInvitees | StopUsers | CloseUsers | LeaveUsers
  | SendUsers | PermissionUsers | FindRoom

text \<open>
  The answers from outside during one operation. An \<open>option\<close> for an error is \<open>None\<close> when
  the call succeeds. \<open>tenant_domain\<close> is \<open>GetTenantById(id).IdpDomain\<close>; \<open>query_user\<close> gives the
  id and the tenant of a user entry; \<open>policy_meta\<close> the id and the name of the policy of an
  application, a user and a tenant for an event (\<open>None\<close> also when the query panics, which is
  recovered); \<open>event_name\<close> the text of an event; \<open>user_agent_json\<close> whether a text unmarshals
  into the user-agent struct of that module; \<open>app_sharing\<close> is \<open>QueryResource(id).AllowSharing\<close>,
  \<open>None\<close> when the application is not found; \<open>push_err n\<close> is the error of the push to a queue that
  the counter gives the number \<open>n\<close>; \<open>unicode_lower\<close> is Unicode's table of lower-case letters.
\<close>

record env =
  order :: "loop \<Rightarrow> string list \<Rightarrow> string list"
  db_invitee :: "string \<Rightarrow> string \<Rightarrow> string option"
  db_share_err :: "string \<Rightarrow> string \<Rightarrow> string \<Rightarrow> string option"
  db_remove_err :: "string \<Rightarrow> string \<Rightarrow> string option"
  mail_err :: "string \<Rightarrow> string option"
  tenant_domain :: "string \<Rightarrow> string"
  portal_host :: string
  deploy_ver :: string
  number_of_queues :: int
  query_user :: "string \<Rightarrow> (string \<times> string) option"
  query_users :: "string \<Rightarrow> string \<Rightarrow> string list option"
  user_agent_json :: "string \<Rightarrow> bool"
  monitor_check :: "SessionCommonData \<Rightarrow> string \<Rightarrow> int \<Rightarrow> string"
  file_size :: "string \<Rightarrow> int option"
  policy_meta :: "string \<Rightarrow> string \<Rightarrow> string \<Rightarrow> PolicyEvent \<Rightarrow> (string \<times> string) option"
  event_name :: "PolicyEvent \<Rightarrow> string"
  unicode_lower :: "nat \<Rightarrow> nat"
  app_sharing :: "string \<Rightarrow> bool option"
  push_err :: "int \<Rightarrow> string option"
  guac_ip :: string

definition env_ok :: "env \<Rightarrow> bool" where
  "env_ok env \<longleftrightarrow> (\<forall>l. is_order (order env l))"

lemma env_ok_order [simp]: "env_ok env \<Longrightarrow> is_order (order env l)"
  by (simp add: env_ok_def)

section \<open>Effects and pointers\<close>

definition emit :: "effect list \<Rightarrow> world \<Rightarrow> world" where
  "emit es w = w\<lparr>trace := trace w @ es\<rparr>"

lemma emit_fields [simp]: "rdpRooms (emit es w) = rdpRooms w" "clients (emit es w) = clients w"
  "session_heap (emit es w) = session_heap w" "session_data (emit es w) = session_data w"
  "queue_count (emit es w) = queue_count w" "trace (emit es w) = trace w @ es"
  by (simp_all add: emit_def)

definition client :: "world \<Rightarrow> nat \<Rightarrow> RdpClient" where
  "client w a = clients w ! a"

definition ses_at :: "world \<Rightarrow> nat \<Rightarrow> SessionCommonData" where
  "ses_at w p = session_heap w ! p"

lemma ses_at_emit [simp]: "ses_at (emit es w) = ses_at w" and client_emit [simp]: "client (emit es w) = client w"
  by (simp_all add: ses_at_def client_def fun_eq_iff)

section \<open>The session data store (\<open>mem_session_data.go\<close>)\<close>

definition SessionData_Get :: "world \<Rightarrow> string \<Rightarrow> store_value option" where
  "SessionData_Get w k = map_of (session_data w) k"

definition SessionData_Set :: "string \<Rightarrow> store_value \<Rightarrow> world \<Rightarrow> world" where
  "SessionData_Set k v w = w\<lparr>session_data := map_put k v (session_data w)\<rparr>"

definition SessionData_Delete :: "string \<Rightarrow> world \<Rightarrow> world" where
  "SessionData_Delete k w = w\<lparr>session_data := map_del k (session_data w)\<rparr>"

definition session_keys :: "world \<Rightarrow> string list" where
  "session_keys w = map_keys (session_data w)"

interpretation sds: keyed_store SessionData_Get SessionData_Set SessionData_Delete session_keys
  "\<lambda>w. map_ok (session_data w)"
  by unfold_locales
    (simp_all add: SessionData_Get_def SessionData_Set_def SessionData_Delete_def session_keys_def
      go_map_simps gm.keys_dom [simplified] gm.invar_put gm.invar_del gm.keys_distinct)

text \<open>\<open>SessionDataStore.Get(key).(*session.SessionCommonData)\<close>, with the pointer \<open>None\<close> for nil.\<close>

definition session_of :: "world \<Rightarrow> string \<Rightarrow> nat option" where
  "session_of w k = (case SessionData_Get w k of Some (SessionPtr p) \<Rightarrow> Some p | _ \<Rightarrow> None)"

lemma session_of_emit [simp]: "session_of (emit es w) k = session_of w k"
  by (simp add: session_of_def SessionData_Get_def)

lemma session_of_Delete: "session_of (SessionData_Delete k w) k' = (if k' = k then None else session_of w k')"
  by (simp add: session_of_def sds.get_del)

lemma session_of_Set: "session_of (SessionData_Set k (SessionPtr p) w) k' =
    (if k' = k then Some p else session_of w k')"
  by (simp add: session_of_def sds.get_put)

lemma SessionData_fields [simp]: "rdpRooms (SessionData_Delete k w) = rdpRooms w"
  "clients (SessionData_Delete k w) = clients w" "session_heap (SessionData_Delete k w) = session_heap w"
  "queue_count (SessionData_Delete k w) = queue_count w" "trace (SessionData_Delete k w) = trace w"
  by (simp_all add: SessionData_Delete_def)

section \<open>The recording queue (\<open>redis.go\<close>, \<open>recording.go\<close>)\<close>

text \<open>A push that fails is only logged, and the recording is in no queue.\<close>

text \<open>\<open>a % b\<close> of Go: the sign of the dividend; a zero divisor panics.\<close>

definition go_rem :: "int \<Rightarrow> int \<Rightarrow> int" where
  "go_rem a b = (if a < 0 then - (- a mod \<bar>b\<bar>) else a mod \<bar>b\<bar>)"

definition GetQueueName :: "env \<Rightarrow> int \<Rightarrow> string" where
  "GetQueueName env index = ''recording-queue-'' @ deploy_ver env @ ''-'' @ dec_int index"

definition PushToQueue :: "env \<Rightarrow> LoggingInfo \<Rightarrow> world \<Rightarrow> (string, unit) outcome \<times> world" where
  "PushToQueue env recording w =
     (if \<not> EnableRecording recording then (Val (), w)
      else let w1 = w\<lparr>queue_count := wrap64 (queue_count w + 1)\<rparr> in
        if number_of_queues env = 0 then (Panic, w1)
        else if push_err env (queue_count w1) \<noteq> None then (Val (), w1)
        else (Val (), emit [QueuePush (GetQueueName env (go_rem (queue_count w1) (number_of_queues env))) recording] w1))"

definition AddEncodeRecoding :: "env \<Rightarrow> LoggingInfo \<Rightarrow> world \<Rightarrow> (string, unit) outcome \<times> world" where
  "AddEncodeRecoding env info w = PushToQueue env info w"

lemma PushToQueue_fields:
  "PushToQueue env l w = (r, w') \<Longrightarrow> rdpRooms w' = rdpRooms w \<and> clients w' = clients w \<and>
     session_heap w' = session_heap w \<and> session_data w' = session_data w \<and>
     (\<exists>es. trace w' = trace w @ es)"
  by (auto simp: PushToQueue_def Let_def split: if_splits)

text \<open>
  The queues of the recordings pushed in a row.
\<close>

fun push_all :: "env \<Rightarrow> LoggingInfo list \<Rightarrow> world \<Rightarrow> world" where
  "push_all env [] w = w"
| "push_all env (l # ls) w = push_all env ls (snd (PushToQueue env l w))"

end
