(* ===== verification/Rooms.thy ===== *)
theory Rooms
  imports World
begin

text \<open>
  The rooms of \<open>pkg/rdp_sharing.go\<close>: who is connected to a session, who is invited and
  what each may do. Every operation runs under the package lock, so it is one function on
  the world; an outcome \<open>Panic\<close> keeps the world as the panic leaves it, for the HTTP server
  recovers a handler that panics and the process goes on.
\<close>

definition INVITEE_LIMIT :: nat where "INVITEE_LIMIT = 4"

section \<open>Clients\<close>

definition WriteMessage :: "nat \<Rightarrow> Instruction \<Rightarrow> world \<Rightarrow> world" where
  "WriteMessage a ins w = emit [WsSend (Websocket (client w a)) (fst (Instruction_Byte ins))] w"

definition permission_list :: "RdpClient \<Rightarrow> string list" where
  "permission_list c = (if Keyboard c then [''keyboard''] else []) @ (if Mouse c then [''mouse''] else [])"

definition SendPermission :: "nat \<Rightarrow> world \<Rightarrow> world" where
  "SendPermission a w =
     (let c = client w a
      in WriteMessage a (NewInstruction USER_PERMISSON [Join '','' (permission_list c @ [Role c])]) w)"

section \<open>The directory of rooms\<close>

definition GetRdpSessionRoom :: "world \<Rightarrow> string \<Rightarrow> RdpSessionRoom option" where
  "GetRdpSessionRoom w sid = map_of (rdpRooms w) sid"

text \<open>The room a pointer from \<open>rdpRooms[sid]\<close> leads to is changed; a room is put; deleted.\<close>

definition put_room :: "string \<Rightarrow> RdpSessionRoom \<Rightarrow> world \<Rightarrow> world" where
  "put_room sid r w = w\<lparr>rdpRooms := map_put sid r (rdpRooms w)\<rparr>"

definition del_room :: "string \<Rightarrow> world \<Rightarrow> world" where
  "del_room sid w = w\<lparr>rdpRooms := map_del sid (rdpRooms w)\<rparr>"

definition room_ids :: "world \<Rightarrow> string list" where
  "room_ids w = map_keys (rdpRooms w)"

interpretation rooms: keyed_store GetRdpSessionRoom put_room del_room room_ids "\<lambda>w. map_ok (rdpRooms w)"
  by unfold_locales
    (simp_all add: GetRdpSessionRoom_def put_room_def del_room_def room_ids_def
      go_map_simps gm.keys_dom [simplified] gm.invar_put gm.invar_del gm.keys_distinct)

definition GetRdpClient :: "RdpSessionRoom \<Rightarrow> string \<Rightarrow> nat option" where
  "GetRdpClient r user = map_of (Users r) user"

section \<open>The list of members\<close>

definition user_json :: "string \<Rightarrow> string \<Rightarrow> string \<Rightarrow> int \<Rightarrow> json" where
  "user_json userId role permission status =
     JObj [(''userId'', JStr userId), (''role'', JStr role), (''permission'', JStr permission), (''status'', JInt status)]"

definition member_permissions :: "RdpClient \<Rightarrow> string list" where
  "member_permissions c = (if Mouse c then [''mouse''] else []) @ (if Keyboard c then [''keyboard''] else [])
     @ (if Role c \<noteq> ROLE_VIEWER then [''admin''] else [])"

definition invitee_role :: "string \<Rightarrow> string" where
  "invitee_role permission = (if Contains permission ''admin'' then ROLE_CO_HOST else ROLE_VIEWER)"

definition joined_members :: "env \<Rightarrow> world \<Rightarrow> RdpSessionRoom \<Rightarrow> json list" where
  "joined_members env w room =
     List.map_filter (\<lambda>k. case map_of (Users room) k of None \<Rightarrow> None
         | Some a \<Rightarrow> let u = client w a in
             Some (user_json (UserId u) (Role u) (Join '','' (member_permissions u)) 1))
       (order env MembersUsers (map_keys (Users room)))"

definition invited_members :: "env \<Rightarrow> RdpSessionRoom \<Rightarrow> json list" where
  "invited_members env room =
     List.map_filter (\<lambda>u. case map_of (Invitees room) u of None \<Rightarrow> None
         | Some permission \<Rightarrow>
             if map_of (Users room) u \<noteq> None then None
             else Some (user_json u (invitee_role permission) permission 0))
       (order env MembersInvitees (map_keys (Invitees room)))"

text \<open>A nil slice is marshalled as \<open>null\<close>.\<close>

definition slice_json :: "json list \<Rightarrow> json" where
  "slice_json js = (if js = [] then JNull else JArr js)"

definition GetMembersInstruction :: "env \<Rightarrow> world \<Rightarrow> RdpSessionRoom \<Rightarrow> Instruction" where
  "GetMembersInstruction env w r =
     (case GetRdpSessionRoom w (SessionId r) of
        None \<Rightarrow> NewInstruction MEMBERS []
      | Some room \<Rightarrow>
          NewInstruction MEMBERS [json_enc (slice_json (joined_members env w room @ invited_members env room))])"

text \<open>\<open>for _, u := range users { u.WriteMessage(ins) }\<close>.\<close>

definition send_all :: "string list \<Rightarrow> nat gomap \<Rightarrow> Instruction \<Rightarrow> world \<Rightarrow> world" where
  "send_all ks users ins w =
     fold (\<lambda>k. case map_of users k of Some a \<Rightarrow> WriteMessage a ins | None \<Rightarrow> (\<lambda>w. w)) ks w"

definition broadcast :: "env \<Rightarrow> RdpSessionRoom \<Rightarrow> Instruction \<Rightarrow> world \<Rightarrow> world" where
  "broadcast env r ins = send_all (order env SendUsers (map_keys (Users r))) (Users r) ins"

section \<open>Operations on one room\<close>

definition alloc_client :: "RdpClient \<Rightarrow> world \<Rightarrow> nat \<times> world" where
  "alloc_client c w = (length (clients w), w\<lparr>clients := clients w @ [c]\<rparr>)"

definition join_role :: "RdpSessionRoom \<Rightarrow> string \<Rightarrow> string \<Rightarrow> string" where
  "join_role r user permissions =
     (if Creator r = user then ROLE_ADMIN
      else if Contains permissions ''admin'' then ROLE_CO_HOST else ROLE_VIEWER)"

definition new_client :: "string \<Rightarrow> nat \<Rightarrow> string \<Rightarrow> bool \<Rightarrow> bool \<Rightarrow> RdpClient" where
  "new_client user ws role mouse keyboard =
     \<lparr>Websocket = ws, UserAgent = [], UserId = user, Role = role, Mouse = mouse, Keyboard = keyboard\<rparr>"

definition room_join :: "string \<Rightarrow> RdpSessionRoom \<Rightarrow> string \<Rightarrow> nat \<Rightarrow> string \<Rightarrow> world \<Rightarrow> nat \<times> world" where
  "room_join sid r user ws permissions w =
     (let (a, w1) = alloc_client (new_client user ws (join_role r user permissions)
                      (Contains permissions ''mouse'') (Contains permissions ''keyboard'')) w
      in (a, put_room sid (r\<lparr>Users := map_put user a (Users r)\<rparr>) w1))"

definition room_leave :: "string \<Rightarrow> RdpSessionRoom \<Rightarrow> RdpSessionRoom" where
  "room_leave user r = r\<lparr>Users := map_del user (Users r)\<rparr>"

definition RemoveUser :: "string \<Rightarrow> RdpSessionRoom \<Rightarrow> string \<Rightarrow> world \<Rightarrow> world" where
  "RemoveUser sid r user w =
     (let r1 = r\<lparr>Invitees := map_del user (Invitees r)\<rparr> in
      case map_of (Users r1) user of
        None \<Rightarrow> put_room sid r1 w
      | Some a \<Rightarrow> put_room sid (r1\<lparr>Users := map_del user (Users r1)\<rparr>) (emit [WsClose (Websocket (client w a))] w))"

definition room_AddInvitee :: "string \<Rightarrow> string \<Rightarrow> RdpSessionRoom \<Rightarrow> RdpSessionRoom" where
  "room_AddInvitee user permissions r = r\<lparr>Invitees := map_put user permissions (Invitees r)\<rparr>"

definition stop_invitee :: "string \<Rightarrow> RdpSessionRoom \<times> effect list \<Rightarrow> RdpSessionRoom \<times> effect list" where
  "stop_invitee u = (\<lambda>(r, es).
     if u = Creator r then (r, es)
     else (r\<lparr>Invitees := map_del u (Invitees r)\<rparr>, es @ [DbRemoveInvitee (SessionId r) u]))"

definition stop_user :: "world \<Rightarrow> string \<Rightarrow> RdpSessionRoom \<times> effect list \<Rightarrow> RdpSessionRoom \<times> effect list" where
  "stop_user w k = (\<lambda>(r, es).
     case map_of (Users r) k of
       None \<Rightarrow> (r, es)
     | Some a \<Rightarrow> let c = client w a in
         if UserId c = Creator r then (r, es)
         else (r\<lparr>Users := map_del (UserId c) (Users r)\<rparr>, es @ [WsClose (Websocket c)]))"

definition StopShare :: "env \<Rightarrow> string \<Rightarrow> RdpSessionRoom \<Rightarrow> world \<Rightarrow> (string, unit) outcome \<times> world" where
  "StopShare env sid r w =
     (let (r1, es1) = fold stop_invitee (order env StopInvitees (map_keys (Invitees r))) (r, []);
          (r2, es2) = fold (stop_user w) (order env StopUsers (map_keys (Users r1))) (r1, es1);
          w2 = put_room sid r2 (emit es2 w)
      in case map_of (Users r2) (Creator r2) of
           None \<Rightarrow> (Panic, w2)
         | Some a \<Rightarrow> (Val (), WriteMessage a (NewInstruction MEMBERS [json_enc (slice_json [])]) w2))"

section \<open>Operations under the package lock\<close>

definition AuthShare :: "env \<Rightarrow> world \<Rightarrow> string \<Rightarrow> string \<Rightarrow> bool \<times> string" where
  "AuthShare env w userId shareSessionId =
     (case db_invitee env userId shareSessionId of
        None \<Rightarrow> (False, [])
      | Some permissions \<Rightarrow>
          (case GetRdpSessionRoom w shareSessionId of
             None \<Rightarrow> (False, [])
           | Some room \<Rightarrow> if map_of (Users room) userId \<noteq> None then (False, []) else (True, permissions)))"

definition NewRdpSessionRoom ::
  "string \<Rightarrow> string \<Rightarrow> nat \<Rightarrow> string \<Rightarrow> bool \<Rightarrow> string \<Rightarrow> LoggingInfo \<Rightarrow> world \<Rightarrow> nat \<times> world" where
  "NewRdpSessionRoom sid user closer connectionId allowSharing appId info w =
     (let (a, w1) = alloc_client (new_client user closer ROLE_ADMIN True True) w
      in (a, put_room sid \<lparr>Creator = user, AppId = appId, SessionId = sid, RdpConnectionId = connectionId,
               AllowSharing = allowSharing, Users = [(user, a)],
               Invitees = [(user, ''admin,keyboard,mouse'')], loggingInfo = info\<rparr> w1))"

definition AddInvitee :: "string \<Rightarrow> string \<Rightarrow> string \<Rightarrow> world \<Rightarrow> string option \<times> world" where
  "AddInvitee sid user permissions w =
     (case GetRdpSessionRoom w sid of
        Some room \<Rightarrow>
          if length (Invitees room) \<ge> INVITEE_LIMIT
          then (Some ''total invitee reach the limit'', w)
          else (None, put_room sid (room_AddInvitee user permissions room) w)
      | None \<Rightarrow> (Some (''room with session id '' @ sid @ '' not found''), w))"

definition JoinRoom :: "env \<Rightarrow> string \<Rightarrow> string \<Rightarrow> nat \<Rightarrow> string \<Rightarrow> world \<Rightarrow> (string, nat) outcome \<times> world" where
  "JoinRoom env sid user ws permissions w =
     (case GetRdpSessionRoom w sid of
        None \<Rightarrow> (Fail (''cannot find rdp room by id '' @ sid), w)
      | Some room \<Rightarrow>
          let (a, w1) = room_join sid room user ws permissions w;
              ins = GetMembersInstruction env w1 room;
              users = (case GetRdpSessionRoom w1 sid of Some r \<Rightarrow> Users r | None \<Rightarrow> [])
          in (Val a, send_all (order env SendUsers (map_keys users)) users ins w1))"

definition exit_action :: "SessionCommonData \<Rightarrow> nat \<Rightarrow> RdpSessionRoom \<Rightarrow> Action" where
  "exit_action s p room = empty_action\<lparr>act_Session := Some p, UserEmail := Creator room,
     act_ClientIP := ses_ClientIP s, act_ClientPrivateIp := ses_ClientPrivateIp s, Destination := ServerName s\<rparr>"

definition close_effects :: "env \<Rightarrow> world \<Rightarrow> RdpSessionRoom \<Rightarrow> effect list" where
  "close_effects env w room =
     List.map_filter (\<lambda>k. map_option (\<lambda>a. WsClose (Websocket (client w a))) (map_of (Users room) k))
       (order env CloseUsers (map_keys (Users room)))"

definition closeRoom :: "env \<Rightarrow> RdpSessionRoom \<Rightarrow> world \<Rightarrow> (string, unit) outcome \<times> world" where
  "closeRoom env room w =
     (let sid = SessionId room;
          ses = session_of w sid;
          w1 = emit [DbDeleteRdpSession sid, KvDelete (''guac-'' @ sid)]
                 (SessionData_Delete sid (del_room sid (emit (close_effects env w room) w)))
      in case ses of
           None \<Rightarrow> (Panic, w1)
         | Some p \<Rightarrow>
             let s = ses_at w p in
             case AddEncodeRecoding env ((loggingInfo room)\<lparr>li_SessionId := RdpSessionId s\<rparr>) w1 of
               (Val _, w2) \<Rightarrow> (Val (), if Auth s then emit [GoSendEvent ''exit'' (exit_action s p room)] w2 else w2)
             | r \<Rightarrow> r)"

definition leave_action :: "SessionCommonData \<Rightarrow> nat \<Rightarrow> string \<Rightarrow> string \<Rightarrow> string \<Rightarrow> Action" where
  "leave_action s p user clientIp clientPrivateIp = empty_action\<lparr>act_Session := Some p,
     AppTag := ''rdp.leave'', UserEmail := user, act_ClientIP := clientIp,
     act_ClientPrivateIp := clientPrivateIp, Destination := ServerName s\<rparr>"

text \<open>The body of the loop of \<open>LeaveRoom\<close>, with \<open>hasAdmin\<close>.\<close>

definition leave_visit :: "env \<Rightarrow> RdpSessionRoom \<Rightarrow> string \<Rightarrow> bool \<times> world \<Rightarrow> bool \<times> world" where
  "leave_visit env room k = (\<lambda>(hasAdmin, w).
     case map_of (Users room) k of
       None \<Rightarrow> (hasAdmin, w)
     | Some a \<Rightarrow>
         (if Role (client w a) \<noteq> ROLE_VIEWER then True else hasAdmin,
          if length (Invitees room) > 1 then WriteMessage a (GetMembersInstruction env w room) w else w))"

definition LeaveRoom ::
  "env \<Rightarrow> nat option \<Rightarrow> string \<Rightarrow> string \<Rightarrow> string \<Rightarrow> string \<Rightarrow> world \<Rightarrow> (string, unit) outcome \<times> world" where
  "LeaveRoom env ses sid user clientIp clientPrivateIp w =
     (case ses of
        None \<Rightarrow> (Panic, w)
      | Some p \<Rightarrow>
          let s = ses_at w p;
              w1 = (if user \<noteq> Email s then emit [LogAction (leave_action s p user clientIp clientPrivateIp)] w else w)
          in case GetRdpSessionRoom w1 sid of
               None \<Rightarrow> (Fail (''cannot find rdp room by id '' @ sid), w1)
             | Some r \<Rightarrow>
                 let room = room_leave user r;
                     (hasAdmin, w2) = fold (leave_visit env room)
                       (order env LeaveUsers (map_keys (Users room))) (False, put_room sid room w1)
                 in if hasAdmin then (Val (), w2) else closeRoom env room w2)"

definition GetRoomByAppIdAndCreator :: "env \<Rightarrow> world \<Rightarrow> string \<Rightarrow> string \<Rightarrow> RdpSessionRoom option" where
  "GetRoomByAppIdAndCreator env w appId creator =
     find (\<lambda>r. Creator r = creator \<and> AppId r = appId \<and> map_of (Users r) creator = None)
       (List.map_filter (GetRdpSessionRoom w) (order env FindRoom (room_ids w)))"

section \<open>What the operations leave alone\<close>

definition send_effects :: "world \<Rightarrow> string list \<Rightarrow> nat gomap \<Rightarrow> Instruction \<Rightarrow> effect list" where
  "send_effects w ks users ins =
     List.map_filter (\<lambda>k. map_option (\<lambda>a. WsSend (Websocket (client w a)) (fst (Instruction_Byte ins)))
       (map_of users k)) ks"

lemma emit_emit: "emit es (emit es' w) = emit (es' @ es) w" and emit_Nil: "emit [] w = w"
  by (simp_all add: emit_def)

lemma send_all_emit: "send_all ks users ins w = emit (send_effects w ks users ins) w"
proof (induction ks arbitrary: w)
  case (Cons k ks)
  show ?case
    using Cons by (simp add: send_all_def send_effects_def map_filter_simps WriteMessage_def emit_emit
        split: option.splits)
qed (simp add: send_all_def send_effects_def map_filter_simps emit_Nil)

lemma GetRdpSessionRoom_emit [simp]: "GetRdpSessionRoom (emit es w) sid = GetRdpSessionRoom w sid"
  by (simp add: GetRdpSessionRoom_def)

lemma put_room_fields [simp]: "clients (put_room sid r w) = clients w" "trace (put_room sid r w) = trace w"
  "session_heap (put_room sid r w) = session_heap w" "session_data (put_room sid r w) = session_data w"
  "client (put_room sid r w) = client w"
  by (simp_all add: put_room_def client_def fun_eq_iff)

lemma del_room_fields [simp]: "clients (del_room sid w) = clients w" "trace (del_room sid w) = trace w"
  "session_heap (del_room sid w) = session_heap w" "session_data (del_room sid w) = session_data w"
  by (simp_all add: del_room_def)

lemma session_of_room [simp]: "session_of (put_room sid r w) k = session_of w k"
  "session_of (del_room sid w) k = session_of w k"
  by (simp_all add: session_of_def SessionData_Get_def)

lemma GetRdpSessionRoom_Delete [simp]: "GetRdpSessionRoom (SessionData_Delete k w) sid = GetRdpSessionRoom w sid"
  by (simp add: GetRdpSessionRoom_def)

lemma set_map_filter_keys:
  "set (List.map_filter f ks) = {y. \<exists>k \<in> set ks. f k = Some y}"
  by (force simp: map_filter_def)

lemma set_send_effects:
  assumes "env_ok env"
  shows "set (send_effects w (order env l (map_keys us)) us ins) =
    {WsSend (Websocket (client w a)) (fst (Instruction_Byte ins)) |a. \<exists>u. map_of us u = Some a}"
proof -
  have "k \<in> set (order env l (map_keys us))" if "map_of us k = Some a" for k a
    using assms that map_key_mem [of us k a] by simp
  then show ?thesis unfolding send_effects_def set_map_filter_keys by fastforce
qed

section \<open>The invariant\<close>

definition member_ok :: "RdpClient list \<Rightarrow> RdpSessionRoom \<Rightarrow> string \<Rightarrow> nat \<Rightarrow> bool" where
  "member_ok cs r u a \<longleftrightarrow> a < length cs \<and> UserId (cs ! a) = u \<and>
     Role (cs ! a) \<in> {ROLE_ADMIN, ROLE_CO_HOST, ROLE_VIEWER} \<and> (Role (cs ! a) = ROLE_ADMIN \<longrightarrow> u = Creator r)"

definition room_ok :: "RdpClient list \<Rightarrow> string \<Rightarrow> RdpSessionRoom \<Rightarrow> bool" where
  "room_ok cs sid r \<longleftrightarrow> SessionId r = sid \<and> map_ok (Users r) \<and> map_ok (Invitees r) \<and>
     length (Invitees r) \<le> INVITEE_LIMIT \<and> (\<forall>u a. map_of (Users r) u = Some a \<longrightarrow> member_ok cs r u a)"

definition rooms_inv :: "world \<Rightarrow> bool" where
  "rooms_inv w \<longleftrightarrow> map_ok (rdpRooms w) \<and>
     (\<forall>sid r. GetRdpSessionRoom w sid = Some r \<longrightarrow> room_ok (clients w) sid r) \<and>
     (\<forall>sid r u sid' r' u' a. GetRdpSessionRoom w sid = Some r \<longrightarrow> map_of (Users r) u = Some a \<longrightarrow>
        GetRdpSessionRoom w sid' = Some r' \<longrightarrow> map_of (Users r') u' = Some a \<longrightarrow> sid = sid' \<and> u = u')"

lemma rooms_invI:
  assumes "map_ok (rdpRooms w)"
    and "\<And>sid r. GetRdpSessionRoom w sid = Some r \<Longrightarrow> room_ok (clients w) sid r"
    and "\<And>sid r u sid' r' u' a. \<lbrakk>GetRdpSessionRoom w sid = Some r; map_of (Users r) u = Some a;
        GetRdpSessionRoom w sid' = Some r'; map_of (Users r') u' = Some a\<rbrakk> \<Longrightarrow> sid = sid' \<and> u = u'"
  shows "rooms_inv w"
  unfolding rooms_inv_def using assms by blast

lemma rooms_inv_room: "rooms_inv w \<Longrightarrow> GetRdpSessionRoom w sid = Some r \<Longrightarrow> room_ok (clients w) sid r"
  by (simp add: rooms_inv_def)

lemma rooms_inv_unique:
  "\<lbrakk>rooms_inv w; GetRdpSessionRoom w sid = Some r; map_of (Users r) u = Some a;
    GetRdpSessionRoom w sid' = Some r'; map_of (Users r') u' = Some a\<rbrakk> \<Longrightarrow> sid = sid' \<and> u = u'"
  unfolding rooms_inv_def by blast

lemma rooms_inv_cong:
  "rdpRooms w' = rdpRooms w \<Longrightarrow> clients w' = clients w \<Longrightarrow> rooms_inv w' = rooms_inv w"
  by (simp add: rooms_inv_def GetRdpSessionRoom_def)

lemma rooms_inv_emit [simp]: "rooms_inv (emit es w) = rooms_inv w"
  by (rule rooms_inv_cong) simp_all

lemma member_ok_append: "member_ok cs r u a \<Longrightarrow> member_ok (cs @ cs') r u a"
  by (auto simp: member_ok_def nth_append)

lemma room_ok_append: "room_ok cs sid r \<Longrightarrow> room_ok (cs @ cs') sid r"
  by (simp add: room_ok_def member_ok_append)

lemma room_ok_inj: "room_ok cs sid r \<Longrightarrow> map_of (Users r) u = Some a \<Longrightarrow> map_of (Users r) u' = Some a \<Longrightarrow> u = u'"
  unfolding room_ok_def member_ok_def by metis

lemma GetRdpSessionRoom_clients [simp]: "GetRdpSessionRoom (w\<lparr>clients := cs\<rparr>) sid = GetRdpSessionRoom w sid"
  by (simp add: GetRdpSessionRoom_def)

lemma rooms_inv_map_ok: "rooms_inv w \<Longrightarrow> map_ok (rdpRooms w)"
  by (simp add: rooms_inv_def)

lemma rooms_inv_put:
  assumes "rooms_inv w" and "room_ok (clients w) sid r'"
    and "\<And>u a. map_of (Users r') u = Some a \<Longrightarrow>
      (\<exists>r. GetRdpSessionRoom w sid = Some r \<and> map_of (Users r) u = Some a) \<or>
      (\<forall>sid r u. GetRdpSessionRoom w sid = Some r \<longrightarrow> map_of (Users r) u \<noteq> Some a)"
  shows "rooms_inv (put_room sid r' w)"
proof (rule rooms_invI)
  show "map_ok (rdpRooms (put_room sid r' w))"
    using assms(1) rooms.invar_put [of w sid r'] by (simp add: rooms_inv_def)
  show "room_ok (clients (put_room sid r' w)) s r" if "GetRdpSessionRoom (put_room sid r' w) s = Some r" for s r
    using that assms(1,2) by (auto simp: rooms.get_put rooms_inv_room split: if_splits)
  fix s r u s' q u' a
  assume g: "GetRdpSessionRoom (put_room sid r' w) s = Some r" "map_of (Users r) u = Some a"
    "GetRdpSessionRoom (put_room sid r' w) s' = Some q" "map_of (Users q) u' = Some a"
  show "s = s' \<and> u = u'"
  proof (cases "s = sid \<and> s' = sid")
    case True
    with g assms(2) room_ok_inj show ?thesis by (simp add: rooms.get_put)
  next
    case False
    with g assms(3) rooms_inv_unique [OF assms(1)] show ?thesis
      by (auto simp: rooms.get_put split: if_splits) metis+
  qed
qed

lemma rooms_inv_del: "rooms_inv w \<Longrightarrow> rooms_inv (del_room sid w)"
  by (intro rooms_invI)
    (simp_all add: rooms.invar_del rooms_inv_map_ok rooms.get_del rooms_inv_room rooms_inv_unique split: if_splits)

text \<open>A room that keeps its name, its limit and at most its users.\<close>

lemma rooms_inv_shrink:
  assumes "rooms_inv w" and "GetRdpSessionRoom w sid = Some r"
    and "SessionId r' = SessionId r" and "Creator r' = Creator r"
    and "map_ok (Users r')" and "map_ok (Invitees r')" and "length (Invitees r') \<le> INVITEE_LIMIT"
    and "\<And>u a. map_of (Users r') u = Some a \<Longrightarrow> map_of (Users r) u = Some a"
  shows "rooms_inv (put_room sid r' w)"
proof (rule rooms_inv_put [OF assms(1)])
  show "room_ok (clients w) sid r'"
    using rooms_inv_room [OF assms(1,2)] assms(3-8) by (auto simp: room_ok_def member_ok_def)
qed (use assms(2,8) in blast)

text \<open>A client is allocated; then it may be put into a room.\<close>

lemma rooms_inv_alloc: "rooms_inv w \<Longrightarrow> rooms_inv (w\<lparr>clients := clients w @ [c]\<rparr>)"
  by (intro rooms_invI) (simp_all add: rooms_inv_map_ok rooms_inv_room room_ok_append rooms_inv_unique)

lemma rooms_inv_addr:
  "rooms_inv w \<Longrightarrow> GetRdpSessionRoom w sid = Some r \<Longrightarrow> map_of (Users r) u = Some a \<Longrightarrow> a < length (clients w)"
  using rooms_inv_room [of w sid r] by (simp add: room_ok_def member_ok_def)

lemma rooms_inv_fresh:
  "rooms_inv w \<Longrightarrow> GetRdpSessionRoom w sid = Some r \<Longrightarrow> map_of (Users r) u \<noteq> Some (length (clients w))"
  using rooms_inv_addr [of w sid r u "length (clients w)"] by auto

lemma rooms_inv_add_client:
  assumes "rooms_inv w" and "room_ok (clients w) sid r"
    and "\<And>u a. map_of (Users r) u = Some a \<Longrightarrow> \<exists>r0. GetRdpSessionRoom w sid = Some r0 \<and> map_of (Users r0) u = Some a"
    and "UserId c = user" and "Role c \<in> {ROLE_ADMIN, ROLE_CO_HOST, ROLE_VIEWER}"
    and "Role c = ROLE_ADMIN \<Longrightarrow> user = Creator r"
  shows "rooms_inv (put_room sid (r\<lparr>Users := map_put user (length (clients w)) (Users r)\<rparr>)
    (w\<lparr>clients := clients w @ [c]\<rparr>))"
proof (rule rooms_inv_put [OF rooms_inv_alloc [OF assms(1)]])
  show "room_ok (clients (w\<lparr>clients := clients w @ [c]\<rparr>)) sid (r\<lparr>Users := map_put user (length (clients w)) (Users r)\<rparr>)"
    using assms(2,4-6) gm.invar_put [of "Users r"]
    by (auto simp: room_ok_def go_map_simps member_ok_def nth_append less_SucI)
  fix u a assume "map_of (Users (r\<lparr>Users := map_put user (length (clients w)) (Users r)\<rparr>)) u = Some a"
  then show "(\<exists>r. GetRdpSessionRoom (w\<lparr>clients := clients w @ [c]\<rparr>) sid = Some r \<and> map_of (Users r) u = Some a) \<or>
      (\<forall>sid r u. GetRdpSessionRoom (w\<lparr>clients := clients w @ [c]\<rparr>) sid = Some r \<longrightarrow> map_of (Users r) u \<noteq> Some a)"
    using assms(3) rooms_inv_fresh [OF assms(1)]
    by (auto simp: go_map_simps split: if_splits)
qed

text \<open>A client changes in place, its name apart.\<close>

lemma rooms_inv_client:
  assumes "rooms_inv w" and "UserId c = UserId (client w a)"
    and "Role c = Role (client w a) \<or> Role c \<in> {ROLE_CO_HOST, ROLE_VIEWER}"
  shows "rooms_inv (w\<lparr>clients := (clients w)[a := c]\<rparr>)"
proof (rule rooms_invI)
  show "map_ok (rdpRooms (w\<lparr>clients := (clients w)[a := c]\<rparr>))"
    using assms(1) by (simp add: rooms_inv_def)
  have "member_ok ((clients w)[a := c]) r u b" if "member_ok (clients w) r u b" for r u b
    using that assms(2,3) by (cases "b = a") (auto simp: member_ok_def client_def)
  with assms(1) show "room_ok (clients (w\<lparr>clients := (clients w)[a := c]\<rparr>)) sid r"
    if "GetRdpSessionRoom (w\<lparr>clients := (clients w)[a := c]\<rparr>) sid = Some r" for sid r
    using that rooms_inv_room [of w sid r] by (auto simp: room_ok_def)
qed (use assms(1) in \<open>simp_all add: rooms_inv_unique\<close>)

end
