(* ===== verification/RoomProps.thy ===== *)
theory RoomProps
  imports Rooms
begin

text \<open>
  What the room operations of \<open>Rooms\<close> do: each preserves the invariant \<open>rooms_inv\<close>, and
  joining, leaving, inviting and stopping to share have the effect described by their
  properties.
\<close>

section \<open>Opening, joining, inviting\<close>

lemma NewRdpSessionRoom_inv:
  assumes "rooms_inv w" and "NewRdpSessionRoom sid user ws cid share app info w = (a, w')"
  shows "rooms_inv w'"
proof -
  let ?r = "\<lparr>Creator = user, AppId = app, SessionId = sid, RdpConnectionId = cid, AllowSharing = share,
    Users = [], Invitees = [(user, ''admin,keyboard,mouse'')], loggingInfo = info\<rparr>"
  have "room_ok (clients w) sid ?r" by (simp add: room_ok_def INVITEE_LIMIT_def)
  from rooms_inv_add_client [OF assms(1) this, of "new_client user ws ROLE_ADMIN True True" user] assms(2)
  show ?thesis by (auto simp: NewRdpSessionRoom_def alloc_client_def new_client_def)
qed

lemma join_role_range: "join_role r user permissions \<in> {ROLE_ADMIN, ROLE_CO_HOST, ROLE_VIEWER}"
  and join_role_admin: "join_role r user permissions = ROLE_ADMIN \<Longrightarrow> user = Creator r"
  by (auto simp: join_role_def split: if_splits)

lemma new_client_fields [simp]: "Websocket (new_client user ws role m k) = ws"
  "UserId (new_client user ws role m k) = user" "Role (new_client user ws role m k) = role"
  "Mouse (new_client user ws role m k) = m" "Keyboard (new_client user ws role m k) = k"
  by (simp_all add: new_client_def)

lemma room_join_inv:
  assumes "rooms_inv w" and "GetRdpSessionRoom w sid = Some r" and "room_join sid r user ws permissions w = (a, w')"
  shows "rooms_inv w'"
proof -
  let ?c = "new_client user ws (join_role r user permissions)
    (Contains permissions ''mouse'') (Contains permissions ''keyboard'')"
  have "rooms_inv (put_room sid (r\<lparr>Users := map_put user (length (clients w)) (Users r)\<rparr>)
      (w\<lparr>clients := clients w @ [?c]\<rparr>))"
    by (rule rooms_inv_add_client [OF assms(1) rooms_inv_room [OF assms(1,2)]])
      (use assms(2) join_role_range join_role_admin in \<open>simp_all\<close>)
  with assms(3) show ?thesis by (auto simp: room_join_def alloc_client_def)
qed

lemma JoinRoom_inv: "rooms_inv w \<Longrightarrow> rooms_inv (snd (JoinRoom env sid user ws permissions w))"
  by (auto simp: JoinRoom_def send_all_emit Let_def split: option.splits prod.splits dest: room_join_inv)

lemma AddInvitee_inv:
  assumes "rooms_inv w"
  shows "rooms_inv (snd (AddInvitee sid user permissions w))"
proof (cases "GetRdpSessionRoom w sid")
  case (Some r)
  have r: "room_ok (clients w) sid r" by (rule rooms_inv_room [OF assms Some])
  show ?thesis
  proof (cases "length (Invitees r) \<ge> INVITEE_LIMIT")
    case False
    have "rooms_inv (put_room sid (room_AddInvitee user permissions r) w)"
      by (rule rooms_inv_shrink [OF assms Some])
        (use r False in \<open>auto simp: room_AddInvitee_def room_ok_def gm.invar_put length_map_put\<close>)
    with Some False show ?thesis by (simp add: AddInvitee_def)
  qed (simp add: AddInvitee_def Some assms)
qed (simp add: AddInvitee_def assms)

section \<open>Leaving\<close>

lemma length_map_del: "length (map_del k m) \<le> length m"
  by (simp add: AList.delete_eq)

lemma room_leave_fields [simp]: "SessionId (room_leave u r) = SessionId r" "Creator (room_leave u r) = Creator r"
  "Invitees (room_leave u r) = Invitees r" "Users (room_leave u r) = map_del u (Users r)"
  "loggingInfo (room_leave u r) = loggingInfo r"
  by (simp_all add: room_leave_def)

lemma room_leave_inv:
  assumes "rooms_inv w" and "GetRdpSessionRoom w sid = Some r"
  shows "rooms_inv (put_room sid (room_leave user r) w)"
  by (rule rooms_inv_shrink [OF assms])
    (use rooms_inv_room [OF assms] in \<open>auto simp: room_ok_def go_map_simps gm.invar_del split: if_splits\<close>)

lemma RemoveUser_inv:
  assumes "rooms_inv w" and "GetRdpSessionRoom w sid = Some r"
  shows "rooms_inv (RemoveUser sid r user w)"
proof -
  note r = rooms_inv_room [OF assms, unfolded room_ok_def]
  have l: "length (map_del user (Invitees r)) \<le> INVITEE_LIMIT"
    using r length_map_del [of user "Invitees r"] by linarith
  have 1: "rooms_inv (put_room sid (r\<lparr>Invitees := map_del user (Invitees r)\<rparr>) w)"
    by (rule rooms_inv_shrink [OF assms]) (use r l in \<open>simp_all add: gm.invar_del\<close>)
  have 2: "rooms_inv (put_room sid (r\<lparr>Invitees := map_del user (Invitees r), Users := map_del user (Users r)\<rparr>) (emit es w))"
    for es
    by (rule rooms_inv_shrink [of "emit es w" sid r])
      (use r l assms in \<open>auto simp: gm.invar_del go_map_simps split: if_splits\<close>)
  from 1 2 show ?thesis by (simp add: RemoveUser_def Let_def split: option.splits)
qed

lemma GetMembersInstruction_emit [simp]: "GetMembersInstruction env (emit es w) r = GetMembersInstruction env w r"
  unfolding GetMembersInstruction_def joined_members_def client_emit GetRdpSessionRoom_emit ..

definition non_viewer :: "world \<Rightarrow> RdpSessionRoom \<Rightarrow> string \<Rightarrow> bool" where
  "non_viewer w room k \<longleftrightarrow> (case map_of (Users room) k of Some a \<Rightarrow> Role (client w a) \<noteq> ROLE_VIEWER | None \<Rightarrow> False)"

definition leave_effects :: "env \<Rightarrow> world \<Rightarrow> RdpSessionRoom \<Rightarrow> string list \<Rightarrow> effect list" where
  "leave_effects env w room ks =
     (if length (Invitees room) > 1 then send_effects w ks (Users room) (GetMembersInstruction env w room) else [])"

lemma leave_visit_step:
  "leave_visit env room k (b, w) = (b \<or> non_viewer w room k, emit (leave_effects env w room [k]) w)"
  by (auto simp: leave_visit_def non_viewer_def leave_effects_def send_effects_def map_filter_simps
      WriteMessage_def emit_Nil split: option.splits)

lemma leave_emit [simp]: "non_viewer (emit es w) = non_viewer w"
  "leave_effects env (emit es w) room = leave_effects env w room"
  unfolding non_viewer_def leave_effects_def send_effects_def client_emit GetMembersInstruction_emit
  by (rule refl)+

lemma leave_effects_Cons: "leave_effects env w room (k # ks) = leave_effects env w room [k] @ leave_effects env w room ks"
  by (simp add: leave_effects_def send_effects_def map_filter_simps split: option.splits)

lemma fold_leave_visit:
  "fold (leave_visit env room) ks (b, w) = (b \<or> list_ex (non_viewer w room) ks, emit (leave_effects env w room ks) w)"
proof (induction ks arbitrary: b w)
  case (Cons k ks)
  show ?case
    by (simp add: leave_visit_step Cons emit_emit leave_effects_Cons [of env w room k ks] disj_assoc)
qed (simp add: leave_effects_def send_effects_def map_filter_simps emit_Nil)

lemma closeRoom_fields:
  assumes "closeRoom env r w = (o', w')"
  shows "rdpRooms w' = map_del (SessionId r) (rdpRooms w) \<and> clients w' = clients w \<and>
    session_heap w' = session_heap w \<and> session_data w' = map_del (SessionId r) (session_data w) \<and>
    (\<exists>es. trace w' = trace w @ close_effects env w r @
       [DbDeleteRdpSession (SessionId r), KvDelete (''guac-'' @ SessionId r)] @ es)"
proof -
  let ?w1 = "emit [DbDeleteRdpSession (SessionId r), KvDelete (''guac-'' @ SessionId r)]
    (SessionData_Delete (SessionId r) (del_room (SessionId r) (emit (close_effects env w r) w)))"
  have w1: "rdpRooms ?w1 = map_del (SessionId r) (rdpRooms w)" "clients ?w1 = clients w"
    "session_heap ?w1 = session_heap w" "session_data ?w1 = map_del (SessionId r) (session_data w)"
    "trace ?w1 = trace w @ close_effects env w r @ [DbDeleteRdpSession (SessionId r), KvDelete (''guac-'' @ SessionId r)]"
    by (simp_all add: del_room_def SessionData_Delete_def)
  show ?thesis
  proof (cases "session_of w (SessionId r)")
    case None
    with assms w1 show ?thesis by (auto simp: closeRoom_def Let_def)
  next
    case (Some p)
    obtain q w2 where q: "PushToQueue env ((loggingInfo r)\<lparr>li_SessionId := RdpSessionId (ses_at w p)\<rparr>) ?w1 = (q, w2)"
      by fastforce
    from assms have "(o', w') = (q, w2) \<or> (\<exists>es. (o', w') = (Val (), emit es w2))"
      unfolding closeRoom_def Let_def AddEncodeRecoding_def Some option.case q prod.case
      by (cases q) (auto split: if_splits)
    with PushToQueue_fields [OF q] w1 show ?thesis by auto
  qed
qed

lemma closeRoom_inv: "rooms_inv w \<Longrightarrow> rooms_inv (snd (closeRoom env r w))"
proof -
  assume w: "rooms_inv w"
  obtain o' w' where c: "closeRoom env r w = (o', w')" by fastforce
  have "rooms_inv w' = rooms_inv (del_room (SessionId r) w)"
    using closeRoom_fields [OF c] by (simp add: rooms_inv_cong del_room_def)
  with rooms_inv_del [OF w] c show ?thesis by simp
qed

lemma LeaveRoom_inv:
  assumes "rooms_inv w"
  shows "rooms_inv (snd (LeaveRoom env ses sid user ip pip w))"
proof (cases ses)
  case (Some p)
  let ?w1 = "if user \<noteq> Email (ses_at w p) then emit [LogAction (leave_action (ses_at w p) p user ip pip)] w else w"
  have w1: "rooms_inv ?w1" using assms by simp
  show ?thesis
  proof (cases "GetRdpSessionRoom ?w1 sid")
    case None
    with w1 show ?thesis by (simp only: LeaveRoom_def Some Let_def option.case snd_conv)
  next
    case (Some r)
    with room_leave_inv [OF w1 Some, of user] \<open>ses = Some p\<close> show ?thesis
      by (simp only: LeaveRoom_def Let_def option.case fold_leave_visit prod.case)
        (simp add: closeRoom_inv)
  qed
qed (simp add: LeaveRoom_def assms)

section \<open>Stopping to share\<close>

lemma fold_stop_invitee:
  "fold stop_invitee ks (r, es) =
     (r\<lparr>Invitees := fold map_del (filter (\<lambda>u. u \<noteq> Creator r) ks) (Invitees r)\<rparr>,
      es @ map (DbRemoveInvitee (SessionId r)) (filter (\<lambda>u. u \<noteq> Creator r) ks))"
  by (induction ks arbitrary: r es) (auto simp: stop_invitee_def)

definition names_ok :: "world \<Rightarrow> RdpSessionRoom \<Rightarrow> bool" where
  "names_ok w r \<longleftrightarrow> (\<forall>u a. map_of (Users r) u = Some a \<longrightarrow> UserId (client w a) = u)"

lemma room_ok_names: "room_ok (clients w) sid r \<Longrightarrow> names_ok w r"
  by (simp add: room_ok_def member_ok_def names_ok_def client_def)

definition stop_closes :: "world \<Rightarrow> RdpSessionRoom \<Rightarrow> string list \<Rightarrow> effect list" where
  "stop_closes w r ks = List.map_filter (\<lambda>k. if k = Creator r then None
       else map_option (\<lambda>a. WsClose (Websocket (client w a))) (map_of (Users r) k)) ks"

lemma map_del_absent: "map_of m k = None \<Longrightarrow> map_del k m = m"
  by (simp add: delete_idem map_of_eq_None_iff)

lemma names_ok_del: "names_ok w r \<Longrightarrow> names_ok w (r\<lparr>Users := map_del k (Users r)\<rparr>)"
  by (auto simp: names_ok_def go_map_simps split: if_splits)

lemma stop_closes_del: "k \<notin> set ks \<Longrightarrow> stop_closes w (r\<lparr>Users := map_del k (Users r)\<rparr>) ks = stop_closes w r ks"
  by (induction ks) (auto simp: stop_closes_def map_filter_simps go_map_simps split: option.splits)

lemma fold_stop_user:
  assumes "names_ok w r" and "distinct ks"
  shows "fold (stop_user w) ks (r, es) =
     (r\<lparr>Users := fold map_del (filter (\<lambda>u. u \<noteq> Creator r) ks) (Users r)\<rparr>, es @ stop_closes w r ks)"
  using assms
proof (induction ks arbitrary: r es)
  case (Cons k ks)
  have step: "stop_user w k (r, es) = (if k = Creator r then r else r\<lparr>Users := map_del k (Users r)\<rparr>,
      es @ stop_closes w r [k])"
    using Cons.prems(1) by (auto simp: stop_user_def stop_closes_def map_filter_simps names_ok_def Let_def
        map_del_absent split: option.splits)
  have c: "stop_closes w r (k # ks) = stop_closes w r [k] @ stop_closes w r ks"
    by (simp add: stop_closes_def map_filter_simps split: option.splits)
  from Cons names_ok_del [of w r k] stop_closes_del [of k ks w r] show ?case
    by (simp add: step c)
qed (simp add: stop_closes_def map_filter_simps)

lemma set_stop_closes:
  assumes "set (map_keys (Users r)) \<subseteq> set ks"
  shows "set (stop_closes w r ks) =
    {WsClose (Websocket (client w a)) |a. \<exists>u. u \<noteq> Creator r \<and> map_of (Users r) u = Some a}"
proof -
  have "u \<in> set ks" if "map_of (Users r) u = Some a" for u a
    using assms map_key_mem [OF that] by blast
  then have *: "(\<exists>k \<in> set ks. (if k = Creator r then None else map_option f (map_of (Users r) k)) = Some y) \<longleftrightarrow>
      (\<exists>a. y = f a \<and> (\<exists>u. u \<noteq> Creator r \<and> map_of (Users r) u = Some a))" for f :: "nat \<Rightarrow> effect" and y
    by (auto split: if_splits)
  show ?thesis unfolding stop_closes_def set_map_filter_keys by (simp only: *)
qed

text \<open>The room \<open>StopShare\<close> leaves and what it closes.\<close>

definition stopped_room :: "env \<Rightarrow> RdpSessionRoom \<Rightarrow> RdpSessionRoom" where
  "stopped_room env r = r\<lparr>
     Invitees := fold map_del (filter (\<lambda>u. u \<noteq> Creator r) (order env StopInvitees (map_keys (Invitees r)))) (Invitees r),
     Users := fold map_del (filter (\<lambda>u. u \<noteq> Creator r) (order env StopUsers (map_keys (Users r)))) (Users r)\<rparr>"

lemma stopped_room_fields [simp]: "SessionId (stopped_room env r) = SessionId r"
  "Creator (stopped_room env r) = Creator r"
  by (simp_all add: stopped_room_def)

lemma map_of_filtered_del:
  assumes "is_order visit"
  shows "map_of (fold map_del (filter (\<lambda>u. u \<noteq> c) (visit (map_keys m))) m) u =
    (if u = c then map_of m u else None)"
proof -
  have "u \<in> set (visit (map_keys m)) \<longleftrightarrow> map_of m u \<noteq> None"
    using assms gm.keys_dom [of m] by simp
  then show ?thesis by (auto simp: go_map_simps)
qed

lemma stopped_room_maps:
  assumes "env_ok env"
  shows "map_of (Users (stopped_room env r)) u = (if u = Creator r then map_of (Users r) u else None)"
    and "map_of (Invitees (stopped_room env r)) u = (if u = Creator r then map_of (Invitees r) u else None)"
  using assms by (simp_all add: stopped_room_def map_of_filtered_del)

definition stop_effects :: "env \<Rightarrow> world \<Rightarrow> RdpSessionRoom \<Rightarrow> effect list" where
  "stop_effects env w r =
     map (DbRemoveInvitee (SessionId r)) (filter (\<lambda>u. u \<noteq> Creator r) (order env StopInvitees (map_keys (Invitees r))))
     @ stop_closes w r (order env StopUsers (map_keys (Users r)))"

lemma StopShare_eq:
  assumes "env_ok env" and "room_ok (clients w) sid r"
  shows "StopShare env sid r w =
    (let w2 = put_room sid (stopped_room env r) (emit (stop_effects env w r) w)
     in case map_of (Users r) (Creator r) of
          None \<Rightarrow> (Panic, w2)
        | Some a \<Rightarrow> (Val (), WriteMessage a (NewInstruction MEMBERS [''null'']) w2))"
proof -
  let ?i = "r\<lparr>Invitees := fold map_del (filter (\<lambda>u. u \<noteq> Creator r)
      (order env StopInvitees (map_keys (Invitees r)))) (Invitees r)\<rparr>"
  have n: "names_ok w ?i" using room_ok_names [OF assms(2)] by (simp add: names_ok_def)
  have d: "distinct (order env StopUsers (map_keys (Users ?i)))"
    using assms by (simp add: order_distinct room_ok_def gm.keys_distinct)
  have c: "stop_closes w ?i ks = stop_closes w r ks" for ks
    by (simp add: stop_closes_def cong: if_cong)
  have f: "fold (stop_user w) (order env StopUsers (map_keys (Users r))) (?i, es) =
      (stopped_room env r, es @ stop_closes w r (order env StopUsers (map_keys (Users r))))" for es
    using fold_stop_user [OF n d, of es] by (simp add: c) (simp add: stopped_room_def)
  have "json_enc (slice_json []) = ''null''" by (simp add: slice_json_def)
  then show ?thesis
    by (simp add: StopShare_def fold_stop_invitee Let_def f stop_effects_def stopped_room_maps [OF assms(1)]
        split: option.split)
qed

lemma stopped_room_shrinks:
  assumes "room_ok cs sid r"
  shows "map_ok (Users (stopped_room env r))" and "map_ok (Invitees (stopped_room env r))"
    and "length (Invitees (stopped_room env r)) \<le> INVITEE_LIMIT"
proof -
  have l: "length (fold map_del ks m) \<le> length m" for ks and m :: "'v gomap"
  proof (induction ks arbitrary: m)
    case (Cons k ks)
    show ?case using Cons [of "map_del k m"] length_map_del [of k m] by simp
  qed simp
  show "map_ok (Users (stopped_room env r))" and "map_ok (Invitees (stopped_room env r))"
    using assms by (simp_all add: stopped_room_def room_ok_def gm.invar_fold_del)
  show "length (Invitees (stopped_room env r)) \<le> INVITEE_LIMIT"
    using assms l order_trans by (fastforce simp: stopped_room_def room_ok_def)
qed

lemma StopShare_inv:
  assumes "env_ok env" and "rooms_inv w" and "GetRdpSessionRoom w sid = Some r"
  shows "rooms_inv (snd (StopShare env sid r w))"
proof -
  note r = rooms_inv_room [OF assms(2,3)]
  have "rooms_inv (put_room sid (stopped_room env r) (emit es w))" for es
    by (rule rooms_inv_shrink [of _ _ r])
      (use assms(2,3) stopped_room_shrinks [OF r] stopped_room_maps [OF assms(1)] in \<open>simp_all split: if_splits\<close>)
  then show ?thesis
    by (simp add: StopShare_eq [OF assms(1) r] Let_def WriteMessage_def split: option.splits)
qed

section \<open>Properties\<close>

text \<open>A world with one open room, for the witnesses: the host on websocket 10.\<close>

definition demo_env :: env where
  "demo_env = \<lparr>order = \<lambda>l ks. ks, db_invitee = \<lambda>u s. Some ''keyboard'', db_share_err = \<lambda>u p s. None,
     db_remove_err = \<lambda>s u. None, mail_err = \<lambda>u. None, tenant_domain = \<lambda>t. [], portal_host = ''p.example'',
     deploy_ver = ''v1'', number_of_queues = 2, query_user = \<lambda>u. Some (u, ''t''),
     query_users = \<lambda>t p. Some [p], user_agent_json = \<lambda>s. True, monitor_check = \<lambda>s a n. ''allow'',
     file_size = \<lambda>p. None, policy_meta = \<lambda>a u t e. Some (''1'', ''p''),
     event_name = \<lambda>e. case e of EventUpload \<Rightarrow> ''u'' | EventDownload \<Rightarrow> ''d'' | EventAccess \<Rightarrow> ''a'',
     unicode_lower = \<lambda>r. r, app_sharing = \<lambda>a. Some True, push_err = \<lambda>n. None, guac_ip = ''10.0.0.1''\<rparr>"

definition demo_session :: SessionCommonData where
  "demo_session = \<lparr>Auth = True, ServerName = ''srv'', TenantID = ''t'', AppID = ''app'', Email = ''host'',
     UserName = ''Host'', IDToken = [], ClientIsoCountry = ''US'', ses_ClientIP = ''1.2.3.4'',
     ses_ClientPrivateIp = [], ses_AppName = ''App'', RoleIDs = [], Recording = True, MonitorPolicyId = [],
     MonitorPolicyName = [], RdpSessionId = ''s'', GuacdAddr = ''g''\<rparr>"

definition empty_world :: world where
  "empty_world = \<lparr>rdpRooms = [], clients = [], session_heap = [], session_data = [], queue_count = 0, trace = []\<rparr>"

definition demo_room :: RdpSessionRoom where
  "demo_room = \<lparr>Creator = ''host'', AppId = ''app'', SessionId = ''s'', RdpConnectionId = ''c'', AllowSharing = True,
     Users = [(''host'', 0), (''bob'', 1)],
     Invitees = [(''host'', ''admin,keyboard,mouse''), (''bob'', ''keyboard'')], loggingInfo = demo_info\<rparr>"

definition demo_world :: world where
  "demo_world = \<lparr>rdpRooms = [(''s'', demo_room)],
     clients = [new_client ''host'' 10 ROLE_ADMIN True True, new_client ''bob'' 11 ROLE_VIEWER False True],
     session_heap = [demo_session], session_data = [(''s'', SessionPtr 0)], queue_count = 0, trace = []\<rparr>"

lemma env_ok_demo [simp]: "env_ok demo_env"
  by (simp add: env_ok_def demo_env_def)

lemma demo_lookup [simp]: "GetRdpSessionRoom demo_world ''s'' = Some demo_room"
  by (simp add: GetRdpSessionRoom_def demo_world_def)

lemma demo_room_fields [simp]: "Creator demo_room = ''host''" "SessionId demo_room = ''s''"
  "map_of (Users demo_room) u = (if u = ''host'' then Some 0 else if u = ''bob'' then Some 1 else None)"
  "map_of (Invitees demo_room) u =
     (if u = ''host'' then Some ''admin,keyboard,mouse'' else if u = ''bob'' then Some ''keyboard'' else None)"
  by (simp_all add: demo_room_def)

lemma demo_clients [simp]: "client demo_world 0 = new_client ''host'' 10 ROLE_ADMIN True True"
  "client demo_world (Suc 0) = new_client ''bob'' 11 ROLE_VIEWER False True"
  by (simp_all add: demo_world_def client_def)

lemma demo_session_of [simp]: "session_of demo_world ''s'' = Some 0"
  by (simp add: demo_world_def session_of_def SessionData_Get_def)

lemma demo_inv [simp]: "rooms_inv demo_world"
proof (rule rooms_invI)
  have s: "GetRdpSessionRoom demo_world sid = Some r \<longleftrightarrow> sid = ''s'' \<and> r = demo_room" for sid r
    by (auto simp: GetRdpSessionRoom_def demo_world_def split: if_splits)
  have k: "map_ok (Users demo_room)" "map_ok (Invitees demo_room)" "length (Invitees demo_room) \<le> INVITEE_LIMIT"
    by (simp_all add: demo_room_def map_ok_def INVITEE_LIMIT_def)
  show "map_ok (rdpRooms demo_world)" by (simp add: demo_world_def)
  show "room_ok (clients demo_world) sid r" if "GetRdpSessionRoom demo_world sid = Some r" for sid r
    using that k by (auto simp: s room_ok_def member_ok_def) (simp_all add: demo_world_def)
qed (auto simp: GetRdpSessionRoom_def demo_world_def split: if_splits)

text \<open>C15: joining a room makes the host, and nobody else, an administrator, makes a co-host
  of whoever is invited with "admin" and a viewer of the others, and gives the mouse and the
  keyboard as the invitation says; no other client and no other room changes, and the new
  list of members goes to every user of the room, the new one included.\<close>

theorem JoinRoom_grants:
  assumes "rooms_inv w" and "env_ok env" and "GetRdpSessionRoom w sid = Some r"
  shows "\<exists>a w' es role. JoinRoom env sid user ws permissions w = (Val a, w') \<and>
     client w' a = new_client user ws role (Contains permissions ''mouse'') (Contains permissions ''keyboard'') \<and>
     role = (if user = Creator r then ROLE_ADMIN else if Contains permissions ''admin'' then ROLE_CO_HOST else ROLE_VIEWER) \<and>
     (\<forall>b < length (clients w). client w' b = client w b) \<and>
     (\<forall>s. GetRdpSessionRoom w' s = (if s = sid then Some (r\<lparr>Users := map_put user a (Users r)\<rparr>) else GetRdpSessionRoom w s)) \<and>
     trace w' = trace w @ es \<and>
     set es = {WsSend (Websocket (client w' b)) (fst (Instruction_Byte (GetMembersInstruction env w' r))) |b.
        \<exists>u. map_of (map_put user a (Users r)) u = Some b}"
proof -
  let ?c = "new_client user ws (join_role r user permissions)
    (Contains permissions ''mouse'') (Contains permissions ''keyboard'')"
  let ?us = "map_put user (length (clients w)) (Users r)"
  define w1 where "w1 = put_room sid (r\<lparr>Users := ?us\<rparr>) (w\<lparr>clients := clients w @ [?c]\<rparr>)"
  let ?es = "send_effects w1 (order env SendUsers (map_keys ?us)) ?us (GetMembersInstruction env w1 r)"
  have w1: "room_join sid r user ws permissions w = (length (clients w), w1)"
    by (simp add: room_join_def alloc_client_def w1_def)
  have g: "GetRdpSessionRoom w1 s = (if s = sid then Some (r\<lparr>Users := ?us\<rparr>) else GetRdpSessionRoom w s)" for s
    by (simp add: w1_def rooms.get_put)
  have j: "JoinRoom env sid user ws permissions w = (Val (length (clients w)), emit ?es w1)"
    by (simp add: JoinRoom_def assms(3) w1 g send_all_emit Let_def)
  have t: "trace w1 = trace w" and c: "client w1 (length (clients w)) = ?c"
    and b: "\<forall>b < length (clients w). client w1 b = client w b"
    by (simp_all add: w1_def client_def nth_append)
  show ?thesis
    by (rule exI [of _ "length (clients w)"], rule exI [of _ "emit ?es w1"], rule exI [of _ ?es],
        rule exI [of _ "join_role r user permissions"])
      (simp add: j c b g t join_role_def set_send_effects [OF assms(2)])
qed

lemma JoinRoom_grants_witness:
  "\<exists>a w'. JoinRoom demo_env ''s'' ''eve'' 12 ''admin,mouse'' demo_world = (Val a, w') \<and>
     Role (client w' a) = ROLE_CO_HOST \<and> Mouse (client w' a) \<and> \<not> Keyboard (client w' a)"
proof -
  have c: "Contains ''admin,mouse'' ''admin''" "Contains ''admin,mouse'' ''mouse''"
    "\<not> Contains ''admin,mouse'' ''keyboard''"
    by code_simp+
  show ?thesis
    using JoinRoom_grants [OF demo_inv env_ok_demo demo_lookup, of "''eve''" 12 "''admin,mouse''"]
    by (auto simp: c)
qed

lemma non_viewer_cong: "client w' = client w \<Longrightarrow> non_viewer w' = non_viewer w"
  by (simp add: non_viewer_def fun_eq_iff split: option.split)

lemma LeaveRoom_eq:
  assumes "GetRdpSessionRoom w sid = Some r"
  shows "LeaveRoom env (Some p) sid user ip pip w =
    (let room = room_leave user r; ks = order env LeaveUsers (map_keys (Users room));
         w1 = put_room sid room (if user \<noteq> Email (ses_at w p)
                then emit [LogAction (leave_action (ses_at w p) p user ip pip)] w else w);
         w2 = emit (leave_effects env w1 room ks) w1
     in if list_ex (non_viewer w room) ks then (Val (), w2) else closeRoom env room w2)"
proof -
  let ?w0 = "if user \<noteq> Email (ses_at w p) then emit [LogAction (leave_action (ses_at w p) p user ip pip)] w else w"
  have g: "GetRdpSessionRoom ?w0 sid = Some r" using assms by simp
  have n: "non_viewer (put_room sid (room_leave user r) ?w0) = non_viewer w"
    by (rule non_viewer_cong) simp
  show ?thesis
    by (simp only: LeaveRoom_def Let_def option.case g fold_leave_visit prod.case n simp_thms)
qed

lemma closeRoom_returns:
  assumes "session_of w (SessionId r) = Some q" and "number_of_queues env \<noteq> 0"
  shows "fst (closeRoom env r w) = Val ()"
  using assms by (simp add: closeRoom_def Let_def AddEncodeRecoding_def PushToQueue_def)

definition still_managed :: "world \<Rightarrow> RdpSessionRoom \<Rightarrow> string \<Rightarrow> bool" where
  "still_managed w r user \<longleftrightarrow> list_ex (\<lambda>(u, a). u \<noteq> user \<and> Role (client w a) \<noteq> ROLE_VIEWER) (Users r)"

lemma still_managed_iff:
  "map_ok (Users r) \<Longrightarrow> still_managed w r user \<longleftrightarrow>
     (\<exists>u a. u \<noteq> user \<and> map_of (Users r) u = Some a \<and> Role (client w a) \<noteq> ROLE_VIEWER)"
  by (auto simp: still_managed_def list_ex_iff map_ok_def map_of_eq_Some_iff)

lemma list_ex_non_viewer:
  assumes "is_order visit" and "map_ok (Users r)"
  shows "list_ex (non_viewer w (room_leave user r)) (visit (map_keys (Users (room_leave user r)))) = still_managed w r user"
proof -
  have "u \<in> set (map_keys (map_del user (Users r)))" if "u \<noteq> user" "map_of (Users r) u = Some a" for u a
    using that map_key_mem [of "map_del user (Users r)" u a] by (simp add: go_map_simps)
  moreover have "non_viewer w (room_leave user r) k \<longleftrightarrow>
      (\<exists>a. k \<noteq> user \<and> map_of (Users r) k = Some a \<and> Role (client w a) \<noteq> ROLE_VIEWER)" for k
    by (simp add: non_viewer_def go_map_simps split: option.split)
  ultimately show ?thesis
    unfolding still_managed_iff [OF assms(2)] list_ex_iff order_set [OF assms(1)] room_leave_fields
    by blast
qed

lemma set_close_effects:
  assumes "env_ok env"
  shows "set (close_effects env w r) = {WsClose (Websocket (client w a)) |a. \<exists>u. map_of (Users r) u = Some a}"
proof -
  have k: "k \<in> set (order env CloseUsers (map_keys (Users r)))" if "map_of (Users r) k = Some a" for k a
    using assms that map_key_mem [of "Users r" k a] by simp
  then have *: "(\<exists>k \<in> set (order env CloseUsers (map_keys (Users r))). map_option f (map_of (Users r) k) = Some y) \<longleftrightarrow>
      (\<exists>a. y = f a \<and> (\<exists>u. map_of (Users r) u = Some a))" for f :: "nat \<Rightarrow> effect" and y
    by auto
  show ?thesis unfolding close_effects_def set_map_filter_keys by (simp only: *)
qed

text \<open>C14: when a user leaves, the room is closed exactly when nobody but viewers is left in it.
  A closed room is gone together with its session data, its database and cache entries are
  deleted and the websocket of every user left is closed; a room that stays loses that user
  and nothing else. Either way the call returns and no other room changes.\<close>

theorem LeaveRoom_closes_iff_unmanaged:
  assumes "rooms_inv w" and "env_ok env" and "GetRdpSessionRoom w sid = Some r"
    and "session_of w sid = Some q" and "number_of_queues env \<noteq> 0"
  shows "\<exists>w' es. LeaveRoom env (Some p) sid user ip pip w = (Val (), w') \<and> trace w' = trace w @ es \<and>
     (\<forall>s. s \<noteq> sid \<longrightarrow> GetRdpSessionRoom w' s = GetRdpSessionRoom w s) \<and>
     (if still_managed w r user
      then GetRdpSessionRoom w' sid = Some (room_leave user r) \<and> session_data w' = session_data w
      else GetRdpSessionRoom w' sid = None \<and> session_of w' sid = None \<and>
        {DbDeleteRdpSession sid, KvDelete (''guac-'' @ sid)} \<subseteq> set es \<and>
        (\<forall>u a. u \<noteq> user \<longrightarrow> map_of (Users r) u = Some a \<longrightarrow> WsClose (Websocket (client w a)) \<in> set es))"
proof -
  note r = rooms_inv_room [OF assms(1,3), unfolded room_ok_def]
  let ?room = "room_leave user r"
  let ?ks = "order env LeaveUsers (map_keys (Users ?room))"
  define w1 where "w1 = put_room sid ?room (if user \<noteq> Email (ses_at w p)
      then emit [LogAction (leave_action (ses_at w p) p user ip pip)] w else w)"
  define w2 where "w2 = emit (leave_effects env w1 ?room ?ks) w1"
  have m: "list_ex (non_viewer w ?room) ?ks = still_managed w r user"
    by (rule list_ex_non_viewer) (use assms(2) r in simp_all)
  have eq: "LeaveRoom env (Some p) sid user ip pip w =
      (if still_managed w r user then (Val (), w2) else closeRoom env ?room w2)"
    using LeaveRoom_eq [OF assms(3)] by (simp only: m Let_def w1_def w2_def)
  have w2: "GetRdpSessionRoom w2 s = (if s = sid then Some ?room else GetRdpSessionRoom w s)"
    "session_data w2 = session_data w" "client w2 = client w" "\<exists>es. trace w2 = trace w @ es" "session_of w2 sid = Some q" for s
    using assms(4) by (auto simp: w2_def w1_def rooms.get_put)
  show ?thesis
  proof (cases "still_managed w r user")
    case True
    with eq w2 show ?thesis by auto
  next
    case False
    obtain w' where c: "closeRoom env ?room w2 = (Val (), w')"
      using closeRoom_returns [of w2 ?room q env] w2(5) assms(5) r by (metis prod.collapse room_leave_fields(1))
    obtain es1 es2 where t: "trace w2 = trace w @ es1" and t': "trace w' = trace w2 @ close_effects env w2 ?room
       @ [DbDeleteRdpSession sid, KvDelete (''guac-'' @ sid)] @ es2"
      using w2(4) closeRoom_fields [OF c] r by auto
    have g: "GetRdpSessionRoom w' s = (if s = sid then None else GetRdpSessionRoom w s)" for s
      using closeRoom_fields [OF c] w2(1) [of s] r
      by (simp add: GetRdpSessionRoom_def go_map_simps)
    have d: "session_of w' sid = None"
      using closeRoom_fields [OF c] r by (simp add: session_of_def SessionData_Get_def go_map_simps)
    have cl: "WsClose (Websocket (client w a)) \<in> set (close_effects env w2 ?room)"
      if "u \<noteq> user" "map_of (Users r) u = Some a" for u a
      unfolding set_close_effects [OF assms(2)] w2(3) using that by (auto simp: go_map_simps)
    show ?thesis
      by (rule exI [of _ w'], rule exI [of _ "es1 @ close_effects env w2 ?room
           @ [DbDeleteRdpSession sid, KvDelete (''guac-'' @ sid)] @ es2"])
        (use False eq c g d cl t t' in \<open>simp\<close>)
  qed
qed

lemma LeaveRoom_closes_iff_unmanaged_witness:
  "\<exists>w'. LeaveRoom demo_env (Some 0) ''s'' ''host'' [] [] demo_world = (Val (), w') \<and>
     GetRdpSessionRoom w' ''s'' = None \<and> WsClose 11 \<in> set (trace w')"
proof -
  have c: "number_of_queues demo_env \<noteq> 0" "\<not> still_managed demo_world demo_room ''host''"
    by code_simp+
  obtain w' es where w': "LeaveRoom demo_env (Some 0) ''s'' ''host'' [] [] demo_world = (Val (), w')"
    "trace w' = trace demo_world @ es" "GetRdpSessionRoom w' ''s'' = None"
    "\<And>u a. u \<noteq> ''host'' \<Longrightarrow> map_of (Users demo_room) u = Some a \<Longrightarrow> WsClose (Websocket (client demo_world a)) \<in> set es"
    using LeaveRoom_closes_iff_unmanaged [OF demo_inv env_ok_demo demo_lookup demo_session_of c(1), of 0 "''host''" "[]" "[]"]
    by (simp only: c(2) if_False) blast
  from w'(4) [of "''bob''" 1] w'(1-3) show ?thesis by simp
qed

text \<open>C34: stopping to share removes every invitee and every user but the host: each removed
  invitation is deleted in the database, each removed user's websocket is closed and no
  other; the host gets an empty list of members. If the host is not in the room the call
  still removes everybody and then panics on the missing client.\<close>

theorem StopShare_leaves_host:
  assumes "env_ok env" and "rooms_inv w" and "GetRdpSessionRoom w sid = Some r"
  shows "\<exists>o' w' r' es. StopShare env sid r w = (o', w') \<and> GetRdpSessionRoom w' sid = Some r' \<and>
     (\<forall>u. map_of (Users r') u = (if u = Creator r then map_of (Users r) u else None)) \<and>
     (\<forall>u. map_of (Invitees r') u = (if u = Creator r then map_of (Invitees r) u else None)) \<and>
     trace w' = trace w @ es \<and>
     {c. WsClose c \<in> set es} = {Websocket (client w a) |a. \<exists>u. u \<noteq> Creator r \<and> map_of (Users r) u = Some a} \<and>
     {u. DbRemoveInvitee sid u \<in> set es} = {u. u \<noteq> Creator r \<and> map_of (Invitees r) u \<noteq> None} \<and>
     (case map_of (Users r) (Creator r) of
        Some a \<Rightarrow> o' = Val () \<and> last es = WsSend (Websocket (client w a)) ''7.members,4.null;''
      | None \<Rightarrow> o' = Panic)"
proof -
  note r = rooms_inv_room [OF assms(2,3)]
  have sid: "SessionId r = sid" using r by (simp add: room_ok_def)
  have m: "fst (Instruction_Byte (NewInstruction MEMBERS [''null''])) = ''7.members,4.null;''"
    by code_simp
  define es where "es = stop_effects env w r @ (case map_of (Users r) (Creator r) of
      Some a \<Rightarrow> [WsSend (Websocket (client w a)) ''7.members,4.null;''] | None \<Rightarrow> [])"
  have closes: "set (stop_closes w r (order env StopUsers (map_keys (Users r)))) =
     {WsClose (Websocket (client w a)) |a. \<exists>u. u \<noteq> Creator r \<and> map_of (Users r) u = Some a}"
    by (rule set_stop_closes) (use assms(1) in simp)
  have "{c. WsClose c \<in> set es} = {Websocket (client w a) |a. \<exists>u. u \<noteq> Creator r \<and> map_of (Users r) u = Some a}"
    unfolding es_def stop_effects_def set_append closes by (auto split: option.splits)
  moreover have "{u. DbRemoveInvitee sid u \<in> set es} = {u. u \<noteq> Creator r \<and> map_of (Invitees r) u \<noteq> None}"
    unfolding es_def stop_effects_def set_append closes
    using gm.keys_dom [of "Invitees r"] assms(1) by (auto simp: sid split: option.splits)
  moreover have "GetRdpSessionRoom (snd (StopShare env sid r w)) sid = Some (stopped_room env r)"
    "trace (snd (StopShare env sid r w)) = trace w @ es"
    by (simp_all add: StopShare_eq [OF assms(1) r] es_def Let_def WriteMessage_def m rooms.get_put split: option.split)
  moreover have "case map_of (Users r) (Creator r) of
        Some a \<Rightarrow> fst (StopShare env sid r w) = Val () \<and> last es = WsSend (Websocket (client w a)) ''7.members,4.null;''
      | None \<Rightarrow> fst (StopShare env sid r w) = Panic"
    by (simp add: StopShare_eq [OF assms(1) r] es_def Let_def split: option.split)
  ultimately show ?thesis
    using stopped_room_maps [OF assms(1), of r]
    by (intro exI [of _ "fst (StopShare env sid r w)"] exI [of _ "snd (StopShare env sid r w)"]
        exI [of _ "stopped_room env r"] exI [of _ es]) simp
qed

lemma StopShare_leaves_host_witness:
  "\<exists>o' w'. StopShare demo_env ''s'' demo_room demo_world = (o', w') \<and> o' = Val () \<and> WsClose 11 \<in> set (trace w')"
proof -
  have c: "map_of (Users demo_room) ''bob'' = Some 1" "map_of (Users demo_room) (Creator demo_room) = Some 0"
    "Websocket (client demo_world 1) = 11" "Creator demo_room = ''host''"
    by simp_all
  obtain o' w' r' es where s: "StopShare demo_env ''s'' demo_room demo_world = (o', w')" "trace w' = trace demo_world @ es"
    "{c. WsClose c \<in> set es} = {Websocket (client demo_world a) |a. \<exists>u. u \<noteq> Creator demo_room \<and> map_of (Users demo_room) u = Some a}"
    "o' = Val ()"
    using StopShare_leaves_host [OF env_ok_demo demo_inv demo_lookup] c(2) by (auto split: option.splits)
  have "11 \<in> {Websocket (client demo_world a) |a. \<exists>u. u \<noteq> Creator demo_room \<and> map_of (Users demo_room) u = Some a}"
    using c by (intro CollectI exI [of _ 1] conjI exI [of _ "''bob''"]) auto
  then have "WsClose 11 \<in> set es" unfolding s(3) [symmetric] by simp
  with s(1,2,4) show ?thesis by simp
qed

text \<open>Inviting fails, and changes nothing, exactly when the room does not exist or already
  has four invitees, the host included (so an invited user cannot even be given other
  permissions this way); otherwise the invitation is stored and the room keeps to the limit.\<close>

theorem AddInvitee_limit:
  assumes "rooms_inv w"
  shows "\<exists>e w'. AddInvitee sid user permissions w = (e, w') \<and>
    (case GetRdpSessionRoom w sid of
       None \<Rightarrow> e \<noteq> None \<and> w' = w
     | Some r \<Rightarrow>
         if length (Invitees r) = 4 then e \<noteq> None \<and> w' = w
         else e = None \<and> (\<exists>r'. GetRdpSessionRoom w' sid = Some r' \<and> length (Invitees r') \<le> 4 \<and> Users r' = Users r \<and>
            (\<forall>u. map_of (Invitees r') u = (if u = user then Some permissions else map_of (Invitees r) u))))"
proof (cases "GetRdpSessionRoom w sid")
  case (Some r)
  have r: "map_ok (Invitees r)" "length (Invitees r) \<le> 4"
    using rooms_inv_room [OF assms Some] by (simp_all add: room_ok_def INVITEE_LIMIT_def)
  show ?thesis
    using r by (auto simp: AddInvitee_def Some INVITEE_LIMIT_def rooms.get_put room_AddInvitee_def
        length_map_put go_map_simps)
qed (simp add: AddInvitee_def)

lemma AddInvitee_limit_witness:
  "\<exists>w' r'. AddInvitee ''s'' ''eve'' ''mouse'' demo_world = (None, w') \<and> GetRdpSessionRoom w' ''s'' = Some r' \<and>
     map_of (Invitees r') ''eve'' = Some ''mouse''"
proof -
  have "length (Invitees demo_room) \<noteq> 4" by (simp add: demo_room_def)
  then show ?thesis
    using AddInvitee_limit [OF demo_inv, of "''s''" "''eve''" "''mouse''"] by fastforce
qed

text \<open>The user a member of the list stands for.\<close>

fun member_id :: "json \<Rightarrow> string" where
  "member_id (JObj ((k, JStr u) # kvs)) = u"
| "member_id j = []"

lemma map_filter_Some: "map g (List.map_filter f xs) = List.map_filter (map_option g \<circ> f) xs"
  by (auto simp: map_filter_def)

lemma map_filter_guard:
  "List.map_filter (\<lambda>x. if P x then Some x else None) xs = filter P xs"
  by (induction xs) (auto simp: map_filter_simps)

lemma joined_ids:
  assumes "names_ok w r"
  shows "map member_id (joined_members env w r) =
    filter (\<lambda>u. map_of (Users r) u \<noteq> None) (order env MembersUsers (map_keys (Users r)))"
proof -
  have "map_option member_id (case map_of (Users r) k of None \<Rightarrow> None
      | Some a \<Rightarrow> let u = client w a in
          Some (user_json (UserId u) (Role u) (Join '','' (member_permissions u)) 1)) =
      (if map_of (Users r) k \<noteq> None then Some k else None)" for k
    using assms by (auto simp: names_ok_def user_json_def Let_def split: option.splits)
  then show ?thesis
    by (simp only: joined_members_def map_filter_Some o_def map_filter_guard)
qed

lemma invited_ids:
  "map member_id (invited_members env r) =
    filter (\<lambda>u. map_of (Invitees r) u \<noteq> None \<and> map_of (Users r) u = None) (order env MembersInvitees (map_keys (Invitees r)))"
proof -
  have "map_option member_id (case map_of (Invitees r) u of None \<Rightarrow> None
      | Some permission \<Rightarrow> if map_of (Users r) u \<noteq> None then None
          else Some (user_json u (invitee_role permission) permission 0)) =
      (if map_of (Invitees r) u \<noteq> None \<and> map_of (Users r) u = None then Some u else None)" for u
    by (auto simp: user_json_def split: option.splits)
  then show ?thesis
    by (simp only: invited_members_def map_filter_Some o_def map_filter_guard)
qed

text \<open>The list of members names every connected user and every invitee, and nobody else,
  each exactly once (an invitee who is connected appears as connected only), in whatever
  order the loops over the maps run; the instruction carries exactly this list.\<close>

theorem members_listed_once:
  assumes "rooms_inv w" and "env_ok env" and "GetRdpSessionRoom w sid = Some r"
  shows "\<exists>users. Args (GetMembersInstruction env w r) = [json_enc (slice_json users)] \<and>
    distinct (map member_id users) \<and>
    set (map member_id users) = {u. map_of (Users r) u \<noteq> None \<or> map_of (Invitees r) u \<noteq> None}"
proof -
  note r = rooms_inv_room [OF assms(1,3)]
  have sid: "SessionId r = sid" and ok: "map_ok (Users r)" "map_ok (Invitees r)"
    using r by (simp_all add: room_ok_def)
  let ?users = "joined_members env w r @ invited_members env r"
  have ids: "map member_id ?users = filter (\<lambda>u. map_of (Users r) u \<noteq> None) (order env MembersUsers (map_keys (Users r)))
      @ filter (\<lambda>u. map_of (Invitees r) u \<noteq> None \<and> map_of (Users r) u = None)
          (order env MembersInvitees (map_keys (Invitees r)))"
    by (simp only: map_append joined_ids [OF room_ok_names [OF r]] invited_ids)
  have "distinct (map member_id ?users)"
    unfolding ids using assms(2) ok by (auto simp: order_distinct gm.keys_distinct)
  moreover have "set (map member_id ?users) = {u. map_of (Users r) u \<noteq> None \<or> map_of (Invitees r) u \<noteq> None}"
    unfolding ids set_append set_filter order_set [OF env_ok_order [OF assms(2)]] gm.keys_dom by auto
  moreover have "Args (GetMembersInstruction env w r) = [json_enc (slice_json ?users)]"
    by (simp add: GetMembersInstruction_def sid assms(3) NewInstruction_def)
  ultimately show ?thesis by blast
qed

lemma members_listed_once_witness:
  "\<exists>users. Args (GetMembersInstruction demo_env demo_world demo_room) = [json_enc (slice_json users)] \<and>
    distinct (map member_id users) \<and> set (map member_id users) = {''host'', ''bob''}"
proof -
  have "{u. map_of (Users demo_room) u \<noteq> None \<or> map_of (Invitees demo_room) u \<noteq> None} = {''host'', ''bob''}"
    by auto
  with members_listed_once [OF demo_inv env_ok_demo demo_lookup] show ?thesis by simp
qed

text \<open>C35: a share link is accepted only from a user the database knows as an invitee of that
  session, only while the session's room is open and only while the user is not in it
  already; the permissions are those of the database. A host is let back into a room of
  the same application exactly when a room of theirs is open that they are not in.\<close>

theorem AuthShare_admits:
  assumes "env_ok env" and "rooms_inv w"
  shows "(fst (AuthShare env w user sid) \<longleftrightarrow>
      (\<exists>r. db_invitee env user sid \<noteq> None \<and> GetRdpSessionRoom w sid = Some r \<and> map_of (Users r) user = None)) \<and>
    (fst (AuthShare env w user sid) \<longrightarrow> Some (snd (AuthShare env w user sid)) = db_invitee env user sid) \<and>
    (GetRoomByAppIdAndCreator env w app user = None \<longleftrightarrow>
      (\<nexists>s r. GetRdpSessionRoom w s = Some r \<and> Creator r = user \<and> AppId r = app \<and> map_of (Users r) user = None)) \<and>
    (\<forall>r. GetRoomByAppIdAndCreator env w app user = Some r \<longrightarrow>
       GetRdpSessionRoom w (SessionId r) = Some r \<and> Creator r = user \<and> AppId r = app \<and> map_of (Users r) user = None)"
proof -
  have s: "set (List.map_filter (GetRdpSessionRoom w) (order env FindRoom (room_ids w))) = {r. \<exists>s. GetRdpSessionRoom w s = Some r}"
    unfolding set_map_filter_keys order_set [OF env_ok_order [OF assms(1)]] rooms.keys_dom by auto
  have n: "GetRdpSessionRoom w (SessionId r) = Some r" if "GetRdpSessionRoom w s = Some r" for s r
    using rooms_inv_room [OF assms(2) that] that by (simp add: room_ok_def)
  have f: "find P xs = Some x \<Longrightarrow> x \<in> set xs \<and> P x" for P :: "RdpSessionRoom \<Rightarrow> bool" and xs x
    by (auto simp: find_Some_iff)
  show ?thesis
  proof (intro conjI)
    show "GetRoomByAppIdAndCreator env w app user = None \<longleftrightarrow>
        (\<nexists>s r. GetRdpSessionRoom w s = Some r \<and> Creator r = user \<and> AppId r = app \<and> map_of (Users r) user = None)"
      unfolding GetRoomByAppIdAndCreator_def find_None_iff s by blast
    show "\<forall>r. GetRoomByAppIdAndCreator env w app user = Some r \<longrightarrow>
       GetRdpSessionRoom w (SessionId r) = Some r \<and> Creator r = user \<and> AppId r = app \<and> map_of (Users r) user = None"
      unfolding GetRoomByAppIdAndCreator_def using s n by (auto dest!: f)
  qed (auto simp: AuthShare_def split: option.splits if_splits)
qed

lemma AuthShare_admits_witness:
  "\<not> fst (AuthShare demo_env demo_world ''bob'' ''s'') \<and> fst (AuthShare demo_env demo_world ''eve'' ''s'')"
proof -
  have "db_invitee demo_env ''eve'' ''s'' = Some ''keyboard''" by (simp add: demo_env_def)
  then show ?thesis
    using AuthShare_admits [OF env_ok_demo demo_inv, of "''eve''" "''s''" "[]"]
      AuthShare_admits [OF env_ok_demo demo_inv, of "''bob''" "''s''" "[]"]
    by simp
qed

end
