(* ===== verification/Commands.thy ===== *)
theory Commands
  imports RoomProps
begin

text \<open>
  The commands a browser sends inside the Guacamole stream (\<open>pkg/commands.go\<close>): the table of
  operations and the \<open>Exec\<close> of each. An \<open>Exec\<close> gets the instruction, the session and the
  client that sent it (both as pointers), and gives the instruction to answer with, or none
  (a nil instruction). Reading an argument that is not there panics, with the world as it
  is at that point.
\<close>

type_synonym exec_result = "(string, Instruction option) outcome \<times> world"

definition with_arg :: "Instruction \<Rightarrow> nat \<Rightarrow> (string \<Rightarrow> world \<Rightarrow> exec_result) \<Rightarrow> world \<Rightarrow> exec_result" where
  "with_arg ins i k w = (if i < length (Args ins) then k (Args ins ! i) w else (Panic, w))"

definition getResponseCommand :: "string \<Rightarrow> string \<Rightarrow> Instruction" where
  "getResponseCommand requestId status =
     NewInstruction APPAEGIS_RESP_OP [requestId, json_enc (JObj [(''status'', JStr status)])]"

definition respond :: "string \<Rightarrow> string \<Rightarrow> world \<Rightarrow> exec_result" where
  "respond requestId status w = (Val (Some (getResponseCommand requestId status)), w)"

text \<open>\<open>NewInstruction(APPAEGIS_RESP_OP, instruction.Args[0], string(data))\<close>.\<close>

definition respond_json :: "Instruction \<Rightarrow> json \<Rightarrow> world \<Rightarrow> exec_result" where
  "respond_json ins j = with_arg ins 0 (\<lambda>requestId w.
     (Val (Some (NewInstruction APPAEGIS_RESP_OP [requestId, json_enc j])), w))"

section \<open>The table of commands\<close>

datatype Command = RequestSharingCommand | ReportContextCommand | DlpDownloadCommand | DlpUploadCommand
  | LogDownloadCommand | DownloadCheckCommand | UploadCheckCommand | SetPermissions | SearchUserCommand
  | RemoveShareCommand | CheckUserCommand | StopShareCommand

definition commands :: "Command gomap" where
  "commands =
     [(''share-session'', RequestSharingCommand), (''report-context'', ReportContextCommand),
      (''dlp-download'', DlpDownloadCommand), (''dlp-upload'', DlpUploadCommand),
      (''log-download'', LogDownloadCommand), (''download-check'', DownloadCheckCommand),
      (''upload-check'', UploadCheckCommand), (''set-permissions'', SetPermissions),
      (''search-user'', SearchUserCommand), (''remove-share'', RemoveShareCommand),
      (''check-user'', CheckUserCommand), (''stop-share'', StopShareCommand)]"

definition GetCommandByOp :: "Instruction \<Rightarrow> (string, Command) outcome" where
  "GetCommandByOp ins =
     (if length (Args ins) \<le> 0 then Fail ''invalid instruction''
      else if length (Args ins) \<le> 1 then Panic
      else case map_of commands (Args ins ! 1) of
             Some c \<Rightarrow> Val c
           | None \<Rightarrow> Fail (''invalid op '' @ Args ins ! 1))"

section \<open>Events\<close>

definition Log :: "Action \<Rightarrow> world \<Rightarrow> (string, unit) outcome \<times> world" where
  "Log a w = (case act_Session a of None \<Rightarrow> (Panic, w) | Some p \<Rightarrow> (Val (), emit [LogAction a] w))"

definition event_of :: "string \<Rightarrow> PolicyEvent" where
  "event_of action =
     (if action = ''upload'' then EventUpload else if action = ''download'' then EventDownload else EventAccess)"

text \<open>
  The query runs in a goroutine that recovers from a nil session; the call to \<open>Log\<close> is
  outside it.
\<close>

definition SendEvent :: "env \<Rightarrow> string \<Rightarrow> Action \<Rightarrow> world \<Rightarrow> (string, unit) outcome \<times> world" where
  "SendEvent env action payload w =
     (let p0 = payload\<lparr>AppTag := ''rdp.'' @ action\<rparr>;
          p1 = (case act_Session payload of
                  None \<Rightarrow> p0
                | Some p \<Rightarrow>
                    (case policy_meta env (AppID (ses_at w p)) (UserEmail payload) (TenantID (ses_at w p)) (event_of action) of
                       None \<Rightarrow> p0
                     | Some (i, n) \<Rightarrow> p0\<lparr>PolicyID := i, PolicyName := n\<rparr>))
      in Log p1 w)"

definition sendBlockEvent :: "env \<Rightarrow> BlockEvent \<Rightarrow> world \<Rightarrow> (string, unit) outcome \<times> world" where
  "sendBlockEvent env event w =
     (let s = ses_at w (be_Session event);
          (i, n) = (case policy_meta env (AppID s) (Email s) (TenantID s) (be_Event event) of
                      None \<Rightarrow> ([], []) | Some m \<Rightarrow> m)
      in Log (empty_action\<lparr>act_Session := Some (be_Session event),
            AppTag := ''rdp.'' @ event_name env (be_Event event) @ ''.block'', UserEmail := Email s,
            act_ClientIP := ses_ClientIP s, act_ClientPrivateIp := ses_ClientPrivateIp s,
            RemotePath := be_RemotePath event, Files := be_Files event, FileCount := be_FileCount event,
            PolicyID := i, PolicyName := n, BlockPolicyType := be_BlockPolicyType event,
            BlockReason := be_BlockReason event\<rparr>) w)"

definition file_event :: "nat \<Rightarrow> SessionCommonData \<Rightarrow> string \<Rightarrow> Action" where
  "file_event p s fileName = empty_action\<lparr>act_Session := Some p, UserEmail := Email s,
     act_ClientIP := ses_ClientIP s, act_ClientPrivateIp := ses_ClientPrivateIp s,
     RemotePath := ''Filesystem on Appaegis RDP'', Files := [fileName], FileCount := 1\<rparr>"

definition GetDrivePathInEFS :: "string \<Rightarrow> string \<Rightarrow> string \<Rightarrow> string" where
  "GetDrivePathInEFS tenantID appID userID =
     ''/efs/rdp/rdp_system_'' @ tenantID @ ''_'' @ appID @ ''_'' @ userID"

definition dlp_payload :: "SessionCommonData \<Rightarrow> RdpClient \<Rightarrow> string \<Rightarrow> string \<Rightarrow> string \<Rightarrow> DLPJobEventPayload" where
  "dlp_payload s c path fileName action = \<lparr>dlp_Path = path, dlp_User = Email s, dlp_FileName = fileName,
     ActionType = action, dlp_AppID = AppID s, dlp_AppName = ses_AppName s, dlp_TenantID = TenantID s,
     Location = ClientIsoCountry s, dlp_UserAgent = UserAgent c\<rparr>"

section \<open>Sharing\<close>

definition GetSharingUrl :: "env \<Rightarrow> string \<Rightarrow> string \<Rightarrow> string" where
  "GetSharingUrl env sessionId tenantId =
     (let domain = tenant_domain env tenantId;
          portal = (if domain \<noteq> [] then domain @ ''.'' @ Join ''.'' (tl (Split (CHR ''.'') (portal_host env)))
                    else portal_host env)
      in ''https://'' @ portal @ ''/share_session?shareSessionId='' @ sessionId)"

definition broadcast_members :: "env \<Rightarrow> string \<Rightarrow> world \<Rightarrow> world" where
  "broadcast_members env sid w =
     (case GetRdpSessionRoom w sid of
        None \<Rightarrow> w
      | Some r \<Rightarrow> broadcast env r (GetMembersInstruction env w r) w)"

text \<open>One argument of \<open>share-session\<close>; the flag is \<open>err != nil\<close>.\<close>

definition share_one :: "env \<Rightarrow> SessionCommonData \<Rightarrow> string \<Rightarrow> string \<Rightarrow> bool \<times> world \<Rightarrow> bool \<times> world" where
  "share_one env s url arg = (\<lambda>(err, w).
     case Split (CHR '':'') arg of
       [invitee, permissions] \<Rightarrow>
         if invitee = [] then (err, w)
         else (case AddInvitee (RdpSessionId s) invitee permissions w of
             (Some e, w1) \<Rightarrow> (True, w1)
           | (None, w1) \<Rightarrow>
               (err \<or> db_share_err env invitee permissions (RdpSessionId s) \<noteq> None \<or> mail_err env invitee \<noteq> None,
                emit [DbShareRdpSession invitee permissions (RdpSessionId s),
                      MailInvitation invitee (Email s) url (ses_AppName s)] w1))
     | _ \<Rightarrow> (err, w))"

definition RequestSharing_Exec :: "env \<Rightarrow> Instruction \<Rightarrow> nat \<Rightarrow> nat \<Rightarrow> world \<Rightarrow> exec_result" where
  "RequestSharing_Exec env ins p a w =
     (let s = ses_at w p; url = GetSharingUrl env (RdpSessionId s) (TenantID s);
          (err, w1) = fold (share_one env s url) (drop 2 (Args ins)) (False, w);
          w2 = (if err then w1 else broadcast_members env (RdpSessionId s) w1)
      in respond_json ins (JObj [(''status'', JStr (if err then ''500'' else ''200'')), (''url'', JStr url)]) w2)"

definition StopShare_Exec :: "env \<Rightarrow> Instruction \<Rightarrow> nat \<Rightarrow> nat \<Rightarrow> world \<Rightarrow> exec_result" where
  "StopShare_Exec env ins p a = with_arg ins 0 (\<lambda>requestId w.
     if Role (client w a) \<noteq> ROLE_ADMIN then respond requestId ''401'' w
     else let sid = RdpSessionId (ses_at w p) in
       case GetRdpSessionRoom w sid of
         None \<Rightarrow> respond requestId ''400'' w
       | Some room \<Rightarrow>
           (case StopShare env sid room w of
              (Val _, w1) \<Rightarrow> respond requestId ''200'' w1
            | (_, w1) \<Rightarrow> (Panic, w1)))"

text \<open>One user of \<open>remove-share\<close>.\<close>

definition remove_one :: "env \<Rightarrow> string \<Rightarrow> string \<Rightarrow> bool \<times> world \<Rightarrow> bool \<times> world" where
  "remove_one env sid u = (\<lambda>(err, w).
     case GetRdpSessionRoom w sid of
       None \<Rightarrow> (err, w)
     | Some room \<Rightarrow>
         if Creator room = u then (err, w)
         else let w1 = (case map_of (Users room) u of
                          None \<Rightarrow> w | Some c \<Rightarrow> WriteMessage c (NewInstruction REMOVE_SHARE []) w);
                  w2 = RemoveUser sid room u w1
              in (err \<or> db_remove_err env sid u \<noteq> None, emit [DbRemoveInvitee sid u] w2))"

definition RemoveShare_Exec :: "env \<Rightarrow> Instruction \<Rightarrow> nat \<Rightarrow> nat \<Rightarrow> world \<Rightarrow> exec_result" where
  "RemoveShare_Exec env ins p a = with_arg ins 0 (\<lambda>requestId w.
     let sid = RdpSessionId (ses_at w p) in
     if length (Args ins) < 3 \<or> GetRdpSessionRoom w sid = None then respond requestId ''500'' w
     else let (err, w1) = fold (remove_one env sid) (drop 2 (Args ins)) (False, w)
          in respond requestId (if err then ''500'' else ''200'') (broadcast_members env sid w1))"

definition update_client :: "nat \<Rightarrow> RdpClient \<Rightarrow> world \<Rightarrow> world" where
  "update_client a c w = w\<lparr>clients := (clients w)[a := c]\<rparr>"

definition permit_client :: "string \<Rightarrow> string \<Rightarrow> RdpSessionRoom \<Rightarrow> string \<Rightarrow> world \<Rightarrow> world" where
  "permit_client user permission room k w =
     (case map_of (Users room) k of
        None \<Rightarrow> w
      | Some a \<Rightarrow>
          if UserId (client w a) = user
          then update_client a ((client w a)\<lparr>Role := (if Contains permission ''admin'' then ROLE_CO_HOST else ROLE_VIEWER),
                 Keyboard := Contains permission ''keyboard'', Mouse := Contains permission ''mouse''\<rparr>) w
          else w)"

text \<open>One argument \<open>user:permission\<close> of \<open>set-permissions\<close>.\<close>

definition permit_one :: "env \<Rightarrow> string \<Rightarrow> string \<Rightarrow> world \<Rightarrow> world" where
  "permit_one env sid arg w =
     (case (Split (CHR '':'') arg, GetRdpSessionRoom w sid) of
        ([user, permission], Some room) \<Rightarrow>
          let w1 = fold (permit_client user permission room) (order env PermissionUsers (map_keys (Users room))) w;
              w2 = (if map_of (Invitees room) user \<noteq> None
                    then put_room sid (room\<lparr>Invitees := map_put user permission (Invitees room)\<rparr>) w1 else w1)
          in emit [DbShareRdpSession user permission (SessionId room)] w2
      | _ \<Rightarrow> w)"

definition SetPermissions_Exec :: "env \<Rightarrow> Instruction \<Rightarrow> nat \<Rightarrow> nat \<Rightarrow> world \<Rightarrow> exec_result" where
  "SetPermissions_Exec env ins p a = with_arg ins 0 (\<lambda>requestId w.
     if Role (client w a) = ROLE_VIEWER then respond requestId ''403'' w
     else let sid = RdpSessionId (ses_at w p) in
       if GetRdpSessionRoom w sid = None then respond requestId ''404'' w
       else if length (Args ins) < 2 then (Panic, w)
       else let w1 = fold (permit_one env sid) (drop 2 (Args ins)) w
            in respond requestId ''200'' (broadcast_members env sid w1))"

section \<open>Users\<close>

definition ReportContext_Exec :: "env \<Rightarrow> Instruction \<Rightarrow> nat \<Rightarrow> nat \<Rightarrow> world \<Rightarrow> exec_result" where
  "ReportContext_Exec env ins p a = with_arg ins 0 (\<lambda>requestId. with_arg ins 2 (\<lambda>encodedContext w.
     case b64_decode encodedContext of
       None \<Rightarrow> respond requestId ''400'' w
     | Some contextRAW \<Rightarrow>
         if \<not> user_agent_json env contextRAW then respond requestId ''400'' w
         else respond requestId ''200'' (update_client a ((client w a)\<lparr>UserAgent := contextRAW\<rparr>) w)))"

definition check_status :: "env \<Rightarrow> SessionCommonData \<Rightarrow> RdpClient \<Rightarrow> RdpSessionRoom option \<Rightarrow> string \<Rightarrow> string" where
  "check_status env s c room userId =
     (if (case query_user env userId of None \<Rightarrow> True | Some (i, t) \<Rightarrow> i = [] \<or> t \<noteq> TenantID s)
         \<or> userId = UserId c
         \<or> (case room of None \<Rightarrow> False | Some r \<Rightarrow> Creator r = userId)
      then ''404'' else ''200'')"

definition CheckUser_Exec :: "env \<Rightarrow> Instruction \<Rightarrow> nat \<Rightarrow> nat \<Rightarrow> world \<Rightarrow> exec_result" where
  "CheckUser_Exec env ins p a = with_arg ins 2 (\<lambda>userId w.
     let s = ses_at w p;
         status = check_status env s (client w a) (GetRdpSessionRoom w (RdpSessionId s)) userId
     in with_arg ins 0 (\<lambda>requestId. respond requestId status) w)"

definition SearchUser_Exec :: "env \<Rightarrow> Instruction \<Rightarrow> nat \<Rightarrow> nat \<Rightarrow> world \<Rightarrow> exec_result" where
  "SearchUser_Exec env ins p a w =
     (if length (Args ins) < 3 then (Val None, w)
      else case query_users env (TenantID (ses_at w p)) (TrimSpace (Args ins ! 2)) of
             None \<Rightarrow> (Val None, w)
           | Some users \<Rightarrow> respond_json ins (JObj [(''users'', slice_json (map JStr users))]) w)"

section \<open>Files\<close>

definition base_name :: "string \<Rightarrow> string" where
  "base_name filePath = last (Split (CHR ''/'') filePath)"

definition ok_json :: json where
  "ok_json = JObj [(''ok'', JBool True)]"

definition DlpDownload_Exec :: "env \<Rightarrow> Instruction \<Rightarrow> nat \<Rightarrow> nat \<Rightarrow> world \<Rightarrow> exec_result" where
  "DlpDownload_Exec env ins p a = with_arg ins 2 (\<lambda>filePath w.
     let s = ses_at w p; fileName = base_name filePath;
         w1 = emit [GoSendEvent ''download'' (file_event p s fileName)] w;
         fullPath = GetDrivePathInEFS (TenantID s) (AppID s) (Email s) @ filePath
     in if file_size env fullPath = Some 0 then respond_json ins ok_json w1
        else respond_json ins ok_json
               (emit [DlpSendJobEvent (dlp_payload s (client w a) fullPath fileName ''download'')] w1))"

definition DlpUpload_Exec :: "env \<Rightarrow> Instruction \<Rightarrow> nat \<Rightarrow> nat \<Rightarrow> world \<Rightarrow> exec_result" where
  "DlpUpload_Exec env ins p a = with_arg ins 2 (\<lambda>fileName w.
     let s = ses_at w p in
     respond_json ins ok_json
       (emit [GoSendEvent ''upload'' (file_event p s fileName),
              DlpSendJobEvent (dlp_payload s (client w a)
                (GetDrivePathInEFS (TenantID s) (AppID s) (Email s) @ ''/'' @ fileName) fileName ''upload'')] w))"

definition file_count :: "string \<Rightarrow> int" where
  "file_count arg = (case Atoi arg of Inl e \<Rightarrow> 1 | Inr n \<Rightarrow> n)"

definition LogDownload_Exec :: "env \<Rightarrow> Instruction \<Rightarrow> nat \<Rightarrow> nat \<Rightarrow> world \<Rightarrow> exec_result" where
  "LogDownload_Exec env ins p a = with_arg ins 2 (\<lambda>arg.
     respond_json ins (JObj [(''count'', JInt (file_count arg)), (''ok'', JBool True)]))"

definition quota_event :: "nat \<Rightarrow> PolicyEvent \<Rightarrow> string \<Rightarrow> BlockEvent" where
  "quota_event p event fileName = \<lparr>be_Event = event, be_RemotePath = ''Filesystem on Appaegis RDP'',
     be_Session = p, be_Files = [fileName], be_FileCount = 1, be_BlockPolicyType = ''monitorpolicy'',
     be_BlockReason = ''Out of quota''\<rparr>"

definition check_result :: "string \<Rightarrow> json" where
  "check_result action =
     (if action = ''deny'' then JObj [(''ok'', JBool False)]
      else JObj [(''ok'', JBool True), (''prompt'', JBool (action = ''confirm''))])"

definition UploadCheck_Exec :: "env \<Rightarrow> Instruction \<Rightarrow> nat \<Rightarrow> nat \<Rightarrow> world \<Rightarrow> exec_result" where
  "UploadCheck_Exec env ins p a = with_arg ins 2 (\<lambda>arg w.
     let action = monitor_check env (ses_at w p) ''upload'' (file_count arg);
         w1 = (if action = ''deny'' then emit [GoSendBlockEvent (quota_event p EventUpload arg)] w else w)
     in respond_json ins (check_result action) w1)"

definition DownloadCheck_Exec :: "env \<Rightarrow> Instruction \<Rightarrow> nat \<Rightarrow> nat \<Rightarrow> world \<Rightarrow> exec_result" where
  "DownloadCheck_Exec env ins p a = with_arg ins 2 (\<lambda>arg w.
     let action = monitor_check env (ses_at w p) ''download'' (file_count arg);
         w1 = (if action = ''deny'' then emit [GoSendBlockEvent (quota_event p EventDownload (base_name arg))] w else w)
     in respond_json ins (check_result action) w1)"

fun Command_Exec :: "Command \<Rightarrow> env \<Rightarrow> Instruction \<Rightarrow> nat \<Rightarrow> nat \<Rightarrow> world \<Rightarrow> exec_result" where
  "Command_Exec RequestSharingCommand = RequestSharing_Exec"
| "Command_Exec ReportContextCommand = ReportContext_Exec"
| "Command_Exec DlpDownloadCommand = DlpDownload_Exec"
| "Command_Exec DlpUploadCommand = DlpUpload_Exec"
| "Command_Exec LogDownloadCommand = LogDownload_Exec"
| "Command_Exec DownloadCheckCommand = DownloadCheck_Exec"
| "Command_Exec UploadCheckCommand = UploadCheck_Exec"
| "Command_Exec SetPermissions = SetPermissions_Exec"
| "Command_Exec SearchUserCommand = SearchUser_Exec"
| "Command_Exec RemoveShareCommand = RemoveShare_Exec"
| "Command_Exec CheckUserCommand = CheckUser_Exec"
| "Command_Exec StopShareCommand = StopShare_Exec"

end
