(* ===== verification/CommandProps.thy ===== *)
theory CommandProps
  imports Commands
begin

text \<open>
  What the commands of \<open>Commands\<close> do: every one preserves the invariant of the rooms, and the
  ones that change a room change it as their properties say.
\<close>

section \<open>Preservation\<close>

lemma broadcast_members_emit: "\<exists>es. broadcast_members env sid w = emit es w"
proof (cases "GetRdpSessionRoom w sid")
  case None
  then show ?thesis by (metis broadcast_members_def emit_Nil option.case(1))
qed (auto simp: broadcast_members_def broadcast_def send_all_emit)

lemma broadcast_members_fields [simp]:
  "rooms_inv (broadcast_members env sid w) = rooms_inv w"
  "GetRdpSessionRoom (broadcast_members env sid w) = GetRdpSessionRoom w"
  "client (broadcast_members env sid w) = client w"
  "clients (broadcast_members env sid w) = clients w"
proof -
  obtain es where "broadcast_members env sid w = emit es w" using broadcast_members_emit by blast
  then show "rooms_inv (broadcast_members env sid w) = rooms_inv w"
    "GetRdpSessionRoom (broadcast_members env sid w) = GetRdpSessionRoom w"
    "client (broadcast_members env sid w) = client w"
    "clients (broadcast_members env sid w) = clients w"
    by (simp_all add: fun_eq_iff)
qed

lemma share_one_inv: "rooms_inv (snd x) \<Longrightarrow> rooms_inv (snd (share_one env s url arg x))"
  using AddInvitee_inv [of "snd x"]
  by (cases x) (auto simp: share_one_def split: list.split option.split prod.split dest: arg_cong [of _ _ snd]; metis snd_conv)

lemma fold_snd_inv:
  assumes "P (snd x)" and "\<And>k x. P (snd x) \<Longrightarrow> P (snd (f k x))"
  shows "P (snd (fold f ks x))"
  using assms(1) by (induction ks arbitrary: x) (simp_all add: assms(2))

lemma remove_one_inv: "rooms_inv (snd x) \<Longrightarrow> rooms_inv (snd (remove_one env sid u x))"
  by (cases x) (auto simp: remove_one_def Let_def WriteMessage_def intro!: RemoveUser_inv split: option.split)

lemma permit_client_inv: "rooms_inv w \<Longrightarrow> rooms_inv (permit_client user permission room k w)"
  by (auto simp: permit_client_def update_client_def intro!: rooms_inv_client split: option.split)

lemma permit_client_rooms [simp]: "GetRdpSessionRoom (permit_client user permission room k w) sid = GetRdpSessionRoom w sid"
  by (auto simp: permit_client_def update_client_def split: option.split)

lemma fold_permit_client:
  "rooms_inv w \<Longrightarrow> rooms_inv (fold (permit_client user permission room) ks w)"
  "GetRdpSessionRoom (fold (permit_client user permission room) ks w) sid = GetRdpSessionRoom w sid"
  by (induction ks arbitrary: w) (simp_all add: permit_client_inv)

lemma update_invitee_inv:
  assumes "rooms_inv w" and "GetRdpSessionRoom w sid = Some r" and "map_of (Invitees r) user \<noteq> None"
  shows "rooms_inv (put_room sid (r\<lparr>Invitees := map_put user permission (Invitees r)\<rparr>) w)"
  by (rule rooms_inv_shrink [OF assms(1,2)])
    (use rooms_inv_room [OF assms(1,2)] assms(3) in \<open>auto simp: room_ok_def gm.invar_put length_map_put\<close>)

lemma permit_one_inv: "rooms_inv w \<Longrightarrow> rooms_inv (permit_one env sid arg w)"
  by (auto simp: permit_one_def Let_def fold_permit_client
      intro!: update_invitee_inv split: list.split option.split)

lemma fold_permit_one_inv: "rooms_inv w \<Longrightarrow> rooms_inv (fold (permit_one env sid) args w)"
  by (induction args arbitrary: w) (simp_all add: permit_one_inv)

lemma with_arg_inv: "rooms_inv w \<Longrightarrow> (\<And>x. rooms_inv (snd (k x w))) \<Longrightarrow> rooms_inv (snd (with_arg ins i k w))"
  by (simp add: with_arg_def)

lemma respond_inv [simp]: "rooms_inv (snd (respond r s w)) = rooms_inv w"
  "rooms_inv (snd (respond_json ins j w)) = rooms_inv w"
  by (simp_all add: respond_def respond_json_def with_arg_def)

lemma Command_Exec_inv:
  assumes "env_ok env" and "rooms_inv w"
  shows "rooms_inv (snd (Command_Exec c env ins p a w))"
proof (cases c)
  case RequestSharingCommand
  have "rooms_inv (snd (fold (share_one env s url) args (False, w)))" for s url args
    by (rule fold_snd_inv) (use assms(2) share_one_inv in auto)
  then show ?thesis
    by (auto simp: RequestSharingCommand RequestSharing_Exec_def Let_def split: prod.split dest: arg_cong [of _ _ snd])
      (metis snd_conv)+
next
  case RemoveShareCommand
  have "rooms_inv (snd (fold (remove_one env sid) args (False, w)))" for sid args
    by (rule fold_snd_inv) (use assms(2) remove_one_inv in auto)
  then show ?thesis
    by (auto simp: RemoveShareCommand RemoveShare_Exec_def Let_def assms(2) intro!: with_arg_inv split: prod.split)
      (metis snd_conv)+
next
  case SetPermissions
  then show ?thesis
    by (auto simp: SetPermissions_Exec_def Let_def assms(2) fold_permit_one_inv intro!: with_arg_inv)
next
  case StopShareCommand
  then show ?thesis
    using StopShare_inv [OF assms]
    by (auto simp: StopShare_Exec_def Let_def assms(2) intro!: with_arg_inv split: option.split outcome.split prod.split)
      (metis snd_conv)+
next
  case ReportContextCommand
  have "rooms_inv (update_client a ((client w a)\<lparr>UserAgent := x\<rparr>) w)" for x
    unfolding update_client_def by (rule rooms_inv_client [OF assms(2)]) simp_all
  then show ?thesis
    by (auto simp: ReportContextCommand ReportContext_Exec_def assms(2) intro!: with_arg_inv split: option.split)
qed (auto simp: CheckUser_Exec_def SearchUser_Exec_def DlpDownload_Exec_def DlpUpload_Exec_def
    LogDownload_Exec_def UploadCheck_Exec_def DownloadCheck_Exec_def Let_def assms(2) intro!: with_arg_inv
    split: option.split)

section \<open>Changing permissions\<close>

definition permitted :: "string \<Rightarrow> RdpClient \<Rightarrow> RdpClient" where
  "permitted permission c = c\<lparr>Role := (if Contains permission ''admin'' then ROLE_CO_HOST else ROLE_VIEWER),
     Keyboard := Contains permission ''keyboard'', Mouse := Contains permission ''mouse''\<rparr>"

lemma permitted_fields [simp]: "UserId (permitted p c) = UserId c"
  "Role (permitted p c) = (if Contains p ''admin'' then ROLE_CO_HOST else ROLE_VIEWER)"
  "Keyboard (permitted p c) = Contains p ''keyboard''" "Mouse (permitted p c) = Contains p ''mouse''"
  "permitted p (permitted p c) = permitted p c"
  by (simp_all add: permitted_def)

text \<open>What \<open>set-permissions\<close> does to the clients of a room.\<close>

definition permit_users :: "string \<Rightarrow> string \<Rightarrow> RdpSessionRoom \<Rightarrow> world \<Rightarrow> world" where
  "permit_users user permission room w =
     (case map_of (Users room) user of
        None \<Rightarrow> w | Some a \<Rightarrow> update_client a (permitted permission (client w a)) w)"

lemma client_update: "client (update_client a c w) b = (if b = a \<and> a < length (clients w) then c else client w b)"
  by (cases "a < length (clients w)") (auto simp: update_client_def client_def nth_list_update list_update_beyond)

lemma update_client_fields [simp]: "length (clients (update_client a c w)) = length (clients w)"
  "GetRdpSessionRoom (update_client a c w) sid = GetRdpSessionRoom w sid"
  by (simp_all add: update_client_def)

lemma permit_client_eq:
  assumes "\<And>u a. map_of (Users room) u = Some a \<Longrightarrow> UserId (client w a) = u"
  shows "permit_client user permission room k w = (if k = user then permit_users user permission room w else w)"
  using assms by (auto simp: permit_client_def permit_users_def permitted_def split: option.splits)

lemma fold_permit_client_eq:
  assumes "distinct ks" and "\<And>u a. map_of (Users room) u = Some a \<Longrightarrow> UserId (client w a) = u"
  shows "fold (permit_client user permission room) ks w = (if user \<in> set ks then permit_users user permission room w else w)"
  using assms
proof (induction ks arbitrary: w)
  case (Cons k ks)
  have n: "UserId (client (permit_users user permission room w) a) = u" if "map_of (Users room) u = Some a" for u a
    using that Cons.prems(2) by (auto simp: permit_users_def client_update split: option.splits)
  show ?case
    using Cons.prems Cons.IH [of w] Cons.IH [of "permit_users user permission room w", OF _ n]
    by (auto simp: permit_client_eq)
qed simp

lemma permit_one_client:
  assumes "env_ok env" and "rooms_inv w" and "GetRdpSessionRoom w sid = Some room"
    and "Split (CHR '':'') arg = [user, permission]"
  shows "client (permit_one env sid arg w) b =
    (if map_of (Users room) user = Some b then permitted permission (client w b) else client w b)"
proof -
  note r = rooms_inv_room [OF assms(2,3)]
  have n: "\<And>u a. map_of (Users room) u = Some a \<Longrightarrow> UserId (client w a) = u"
    using room_ok_names [OF r] by (simp add: names_ok_def)
  have d: "distinct (order env PermissionUsers (map_keys (Users room)))"
    using assms(1) r by (simp add: order_distinct room_ok_def gm.keys_distinct)
  have m: "(user \<in> set (order env PermissionUsers (map_keys (Users room)))) = (map_of (Users room) user \<noteq> None)"
    using assms(1) gm.keys_dom [of "Users room"] by simp
  have "client (permit_one env sid arg w) b = client (permit_users user permission room w) b"
    by (simp add: permit_one_def assms(3,4) Let_def fold_permit_client_eq [OF d n] m)
      (simp add: permit_users_def)
  also have "\<dots> = (if map_of (Users room) user = Some b then permitted permission (client w b) else client w b)"
    using rooms_inv_addr [OF assms(2,3)] by (auto simp: permit_users_def client_update split: option.splits)
  finally show ?thesis .
qed

lemma permit_one_other: "Split (CHR '':'') arg \<noteq> [user, permission] \<Longrightarrow>
    (\<And>u p. Split (CHR '':'') arg \<noteq> [u, p]) \<Longrightarrow> permit_one env sid arg w = w"
  by (auto simp: permit_one_def split: list.splits)

lemma permit_one_admin:
  assumes "env_ok env" and "rooms_inv w" and "Role (client (permit_one env sid arg w) b) = ROLE_ADMIN"
  shows "client (permit_one env sid arg w) b = client w b"
proof (cases "\<exists>user permission room. Split (CHR '':'') arg = [user, permission] \<and> GetRdpSessionRoom w sid = Some room")
  case True
  then obtain user permission room where s: "Split (CHR '':'') arg = [user, permission]" "GetRdpSessionRoom w sid = Some room"
    by blast
  show ?thesis using assms(3) by (auto simp: permit_one_client [OF assms(1,2) s(2,1)] split: if_splits)
qed (auto simp: permit_one_def split: list.splits option.splits)

lemma fold_permit_one_admin:
  assumes "env_ok env" and "rooms_inv w" and "Role (client (fold (permit_one env sid) args w) b) = ROLE_ADMIN"
  shows "client (fold (permit_one env sid) args w) b = client w b"
  using assms(2,3)
proof (induction args arbitrary: w)
  case (Cons arg args)
  from Cons.IH [OF permit_one_inv [OF Cons.prems(1)]] Cons.prems(2)
  have "client (fold (permit_one env sid) (arg # args) w) b = client (permit_one env sid arg w) b" by simp
  with permit_one_admin [OF assms(1) Cons.prems(1), of sid arg b] Cons.prems(2) show ?case by simp
qed simp

text \<open>C30: \<open>set-permissions\<close> from a viewer, and \<open>stop-share\<close> from anybody but the host, are
  refused and change nothing; and whoever calls it with whatever arguments,
  \<open>set-permissions\<close> never makes a client an administrator: a client that is one afterwards
  was one before, unchanged.\<close>

theorem sharing_authorised:
  assumes "env_ok env" and "rooms_inv w" and "Args ins \<noteq> []"
  shows "(Role (client w a) = ROLE_VIEWER \<longrightarrow>
       SetPermissions_Exec env ins p a w = (Val (Some (getResponseCommand (Args ins ! 0) ''403'')), w)) \<and>
    (Role (client w a) \<noteq> ROLE_ADMIN \<longrightarrow>
       StopShare_Exec env ins p a w = (Val (Some (getResponseCommand (Args ins ! 0) ''401'')), w)) \<and>
    (\<forall>b. Role (client (snd (SetPermissions_Exec env ins p a w)) b) = ROLE_ADMIN \<longrightarrow>
       client (snd (SetPermissions_Exec env ins p a w)) b = client w b)"
  using assms(3) fold_permit_one_admin [OF assms(1,2)]
  by (auto simp: SetPermissions_Exec_def StopShare_Exec_def with_arg_def respond_def Let_def)

lemma sharing_authorised_witness:
  "SetPermissions_Exec demo_env (NewInstruction ''AACMD'' [''1'', ''set-permissions'', ''bob:admin'']) 0 1 demo_world =
     (Val (Some (getResponseCommand ''1'' ''403'')), demo_world)"
proof -
  have "Args (NewInstruction ''AACMD'' [''1'', ''set-permissions'', ''bob:admin'']) \<noteq> []"
    by (simp add: NewInstruction_def)
  from sharing_authorised [OF env_ok_demo demo_inv this, of 1 0] show ?thesis
    by (simp add: NewInstruction_def)
qed

text \<open>C29: a host or co-host sets the permissions of one connected user: that client, and no
  other, gets the mouse, the keyboard and the role of the new permissions; the caller gets
  the answer 200. Nothing exempts the host, whom a co-host turns into a viewer this way.\<close>

theorem SetPermissions_one_user:
  assumes "env_ok env" and "rooms_inv w" and "GetRdpSessionRoom w (RdpSessionId (ses_at w p)) = Some room"
    and "map_of (Users room) user = Some c" and "CHR '':'' \<notin> set user" and "CHR '':'' \<notin> set permission"
    and "Role (client w a) \<noteq> ROLE_VIEWER"
  shows "\<exists>w'. SetPermissions_Exec env (NewInstruction opcode [rid, op, user @ '':'' @ permission]) p a w =
       (Val (Some (getResponseCommand rid ''200'')), w') \<and>
     Role (client w' c) = (if Contains permission ''admin'' then ROLE_CO_HOST else ROLE_VIEWER) \<and>
     Mouse (client w' c) = Contains permission ''mouse'' \<and> Keyboard (client w' c) = Contains permission ''keyboard'' \<and>
     Websocket (client w' c) = Websocket (client w c) \<and> UserId (client w' c) = user \<and>
     (\<forall>b. b \<noteq> c \<longrightarrow> client w' b = client w b)"
proof -
  define arg where "arg = user @ '':'' @ permission"
  let ?sid = "RdpSessionId (ses_at w p)"
  let ?w = "broadcast_members env ?sid (permit_one env ?sid arg w)"
  have s: "Split (CHR '':'') arg = [user, permission]"
    using Split_at [OF assms(5), of permission] Split_free [OF assms(6)] by (simp add: arg_def)
  have "UserId (client w c) = user"
    using room_ok_names [OF rooms_inv_room [OF assms(2,3)]] assms(4) by (simp add: names_ok_def)
  moreover have "SetPermissions_Exec env (NewInstruction opcode [rid, op, arg]) p a w =
      (Val (Some (getResponseCommand rid ''200'')), ?w)"
    using assms(3,7) by (simp add: SetPermissions_Exec_def with_arg_def NewInstruction_def respond_def Let_def)
  ultimately show ?thesis unfolding arg_def [symmetric]
    by (intro exI [of _ ?w]) (simp add: permit_one_client [OF assms(1-3) s] assms(4), simp add: permitted_def)
qed

lemma SetPermissions_one_user_witness:
  "\<exists>w'. SetPermissions_Exec demo_env (NewInstruction ''AACMD'' [''1'', ''set-permissions'', ''host'' @ '':'' @ ''mouse'']) 0 0 demo_world =
       (Val (Some (getResponseCommand ''1'' ''200'')), w') \<and> Role (client w' 0) = ROLE_VIEWER"
proof -
  have "GetRdpSessionRoom demo_world (RdpSessionId (ses_at demo_world 0)) = Some demo_room"
    by (simp add: ses_at_def demo_world_def demo_session_def GetRdpSessionRoom_def)
  from SetPermissions_one_user [OF env_ok_demo demo_inv this, of "''host''" 0 "''mouse''" 0 "''AACMD''" "''1''" "''set-permissions''"]
  show ?thesis by auto
qed

section \<open>Removing and inviting\<close>

definition without :: "string list \<Rightarrow> RdpSessionRoom \<Rightarrow> RdpSessionRoom" where
  "without us room = room\<lparr>Invitees := fold map_del us (Invitees room), Users := fold map_del us (Users room)\<rparr>"

lemma without_fields [simp]: "SessionId (without us r) = SessionId r" "Creator (without us r) = Creator r"
  "Users (without us r) = fold map_del us (Users r)" "Invitees (without us r) = fold map_del us (Invitees r)"
  by (simp_all add: without_def)

lemma without_without: "without vs (without us r) = without (us @ vs) r" and without_Nil: "without [] r = r"
  by (simp_all add: without_def)

lemma RemoveUser_eq:
  "RemoveUser sid r u w = put_room sid (without [u] r)
     (emit (case map_of (Users r) u of None \<Rightarrow> [] | Some a \<Rightarrow> [WsClose (Websocket (client w a))]) w)"
  by (auto simp: RemoveUser_def without_def map_del_absent emit_Nil split: option.split)

lemma remove_one_step:
  assumes "GetRdpSessionRoom w sid = Some room"
  shows "GetRdpSessionRoom (snd (remove_one env sid u (err, w))) sid = Some (without (if u = Creator room then [] else [u]) room)"
    and "client (snd (remove_one env sid u (err, w))) = client w"
    and "\<exists>es. trace (snd (remove_one env sid u (err, w))) = trace w @ es \<and>
      (\<forall>c. u \<noteq> Creator room \<longrightarrow> map_of (Users room) u = Some c \<longrightarrow> WsClose (Websocket (client w c)) \<in> set es)"
  using assms by (auto simp: remove_one_def RemoveUser_eq Let_def WriteMessage_def rooms.get_put without_Nil
      split: option.split)

lemma fold_remove_one:
  assumes "GetRdpSessionRoom w sid = Some room"
  shows "GetRdpSessionRoom (snd (fold (remove_one env sid) us (err, w))) sid =
      Some (without (filter (\<lambda>u. u \<noteq> Creator room) us) room) \<and>
    (\<exists>es. trace (snd (fold (remove_one env sid) us (err, w))) = trace w @ es \<and>
      (\<forall>u c. u \<in> set us \<longrightarrow> u \<noteq> Creator room \<longrightarrow> map_of (Users room) u = Some c \<longrightarrow> WsClose (Websocket (client w c)) \<in> set es))"
  using assms
proof (induction us arbitrary: err w room)
  case (Cons k ks)
  obtain err1 w1 where s: "remove_one env sid k (err, w) = (err1, w1)" by fastforce
  let ?r = "without (if k = Creator room then [] else [k]) room"
  obtain es1 where 1: "GetRdpSessionRoom w1 sid = Some ?r" "client w1 = client w" "trace w1 = trace w @ es1"
    "\<And>c. k \<noteq> Creator room \<Longrightarrow> map_of (Users room) k = Some c \<Longrightarrow> WsClose (Websocket (client w c)) \<in> set es1"
    using remove_one_step [OF Cons.prems, of env k err] by (auto simp: s)
  obtain es2 where 2: "GetRdpSessionRoom (snd (fold (remove_one env sid) ks (err1, w1))) sid =
      Some (without (filter (\<lambda>u. u \<noteq> Creator ?r) ks) ?r)" "trace (snd (fold (remove_one env sid) ks (err1, w1))) = trace w1 @ es2"
    "\<And>u c. u \<in> set ks \<Longrightarrow> u \<noteq> Creator ?r \<Longrightarrow> map_of (Users ?r) u = Some c \<Longrightarrow> WsClose (Websocket (client w1 c)) \<in> set es2"
    using Cons.IH [OF 1(1), of err1] by blast
  have c: "WsClose (Websocket (client w c)) \<in> set (es1 @ es2)"
    if "u \<in> set (k # ks)" "u \<noteq> Creator room" "map_of (Users room) u = Some c" for u c
    using that 1(2,4) 2(3) [of u c] by (cases "u = k") (auto simp: go_map_simps split: if_splits)
  have g: "GetRdpSessionRoom (snd (fold (remove_one env sid) (k # ks) (err, w))) sid =
      Some (without (filter (\<lambda>u. u \<noteq> Creator room) (k # ks)) room)"
    using 2(1) by (simp add: s without_without)
  have t: "trace (snd (fold (remove_one env sid) (k # ks) (err, w))) = trace w @ (es1 @ es2)"
    using 1(3) 2(2) by (simp add: s)
  show ?case using g t c by blast
qed (simp add: without_Nil)

text \<open>C31: \<open>remove-share\<close> takes every user it names out of the users and the invitees of the room
  and closes their websockets, leaves the others alone, and spares the host. It does so for
  whichever client sends it: the role of the sender is not looked at.\<close>

theorem RemoveShare_removes:
  assumes "GetRdpSessionRoom w (RdpSessionId (ses_at w p)) = Some room" and "2 < length (Args ins)"
  shows "\<exists>status w' r' es. RemoveShare_Exec env ins p a w = (Val (Some (getResponseCommand (Args ins ! 0) status)), w') \<and>
    GetRdpSessionRoom w' (RdpSessionId (ses_at w p)) = Some r' \<and>
    (\<forall>u. map_of (Users r') u =
       (if u \<in> set (drop 2 (Args ins)) \<and> u \<noteq> Creator room then None else map_of (Users room) u)) \<and>
    (\<forall>u. map_of (Invitees r') u =
       (if u \<in> set (drop 2 (Args ins)) \<and> u \<noteq> Creator room then None else map_of (Invitees room) u)) \<and>
    trace w' = trace w @ es \<and>
    (\<forall>u c. u \<in> set (drop 2 (Args ins)) \<longrightarrow> u \<noteq> Creator room \<longrightarrow> map_of (Users room) u = Some c \<longrightarrow>
       WsClose (Websocket (client w c)) \<in> set es)"
proof -
  let ?sid = "RdpSessionId (ses_at w p)" and ?us = "drop 2 (Args ins)"
  obtain err w1 where f: "fold (remove_one env ?sid) ?us (False, w) = (err, w1)" by fastforce
  obtain es where w1: "GetRdpSessionRoom w1 ?sid = Some (without (filter (\<lambda>u. u \<noteq> Creator room) ?us) room)"
    "trace w1 = trace w @ es" "\<And>u c. u \<in> set ?us \<Longrightarrow> u \<noteq> Creator room \<Longrightarrow> map_of (Users room) u = Some c \<Longrightarrow>
       WsClose (Websocket (client w c)) \<in> set es"
    using fold_remove_one [OF assms(1), of env ?us False] by (auto simp: f)
  obtain bs where b: "broadcast_members env ?sid w1 = emit bs w1" using broadcast_members_emit by blast
  have "RemoveShare_Exec env ins p a w =
      (Val (Some (getResponseCommand (Args ins ! 0) (if err then ''500'' else ''200''))), emit bs w1)"
    using assms(1) order.strict_trans [OF _ assms(2), of 0] assms(2)
    by (simp add: RemoveShare_Exec_def with_arg_def respond_def f b)
  then show ?thesis
    using w1 by (intro exI [of _ "if err then ''500'' else ''200''"] exI [of _ "emit bs w1"]
        exI [of _ "without (filter (\<lambda>u. u \<noteq> Creator room) ?us) room"] exI [of _ "es @ bs"])
      (auto simp: go_map_simps)
qed

lemma demo_room_of_session [simp]: "GetRdpSessionRoom demo_world (RdpSessionId (ses_at demo_world 0)) = Some demo_room"
  "RdpSessionId (ses_at demo_world 0) = ''s''"
  by (simp_all add: ses_at_def demo_world_def demo_session_def GetRdpSessionRoom_def)

lemma RemoveShare_removes_witness:
  "\<exists>w'. snd (RemoveShare_Exec demo_env (NewInstruction ''AACMD'' [''1'', ''remove-share'', ''bob'', ''host'']) 0 1 demo_world) = w' \<and>
     WsClose 11 \<in> set (trace w') \<and> (\<exists>r'. GetRdpSessionRoom w' ''s'' = Some r' \<and> map_of (Users r') ''bob'' = None \<and>
       map_of (Users r') ''host'' = Some 0)"
proof -
  let ?ins = "NewInstruction ''AACMD'' [''1'', ''remove-share'', ''bob'', ''host'']"
  have l: "2 < length (Args ?ins)" and d: "drop 2 (Args ?ins) = [''bob'', ''host'']"
    by (simp_all add: NewInstruction_def)
  obtain status w' r' es where w': "RemoveShare_Exec demo_env ?ins 0 1 demo_world = (Val (Some (getResponseCommand (Args ?ins ! 0) status)), w')"
    "GetRdpSessionRoom w' ''s'' = Some r'"
    "\<And>u. map_of (Users r') u = (if u \<in> {''bob'', ''host''} \<and> u \<noteq> ''host'' then None else map_of (Users demo_room) u)"
    "trace w' = trace demo_world @ es"
    "\<And>u c. u \<in> {''bob'', ''host''} \<Longrightarrow> u \<noteq> ''host'' \<Longrightarrow> map_of (Users demo_room) u = Some c \<Longrightarrow>
       WsClose (Websocket (client demo_world c)) \<in> set es"
    using RemoveShare_removes [OF demo_room_of_session(1) l, of demo_env 1]
    unfolding d demo_room_of_session(2) demo_room_fields(1) by (auto 0 0 simp del: demo_room_fields)
  from w'(5) [of "''bob''" 1] w'(1-4) show ?thesis by simp
qed

lemma share_one_added:
  assumes "GetRdpSessionRoom w (RdpSessionId s) = Some room" and "length (Invitees room) < INVITEE_LIMIT"
    and "Split (CHR '':'') arg = [user, permission]" and "user \<noteq> []"
  obtains err w' where "share_one env s url arg (False, w) = (err, w')"
    and "GetRdpSessionRoom w' (RdpSessionId s) = Some (room_AddInvitee user permission room)"
    and "client w' = client w" and "DbShareRdpSession user permission (RdpSessionId s) \<in> set (trace w')"
  using that assms by (simp add: share_one_def AddInvitee_def rooms.get_put)

lemma JoinRoom_client:
  assumes "GetRdpSessionRoom w sid = Some r"
  obtains w' where "JoinRoom env sid user ws permissions w = (Val (length (clients w)), w')"
    and "Role (client w' (length (clients w))) = join_role r user permissions"
  using that assms by (simp add: JoinRoom_def room_join_def alloc_client_def send_all_emit client_def Let_def)

lemma RequestSharing_one:
  assumes "GetRdpSessionRoom w (RdpSessionId (ses_at w p)) = Some room" and "length (Invitees room) < INVITEE_LIMIT"
    and "Split (CHR '':'') arg = [user, permission]" and "user \<noteq> []"
  obtains w' where "snd (RequestSharing_Exec env (NewInstruction opcode [rid, op, arg]) p a w) = w'"
    and "GetRdpSessionRoom w' (RdpSessionId (ses_at w p)) = Some (room_AddInvitee user permission room)"
    and "client w' = client w" and "DbShareRdpSession user permission (RdpSessionId (ses_at w p)) \<in> set (trace w')"
proof -
  let ?s = "ses_at w p" and ?url = "GetSharingUrl env (RdpSessionId (ses_at w p)) (TenantID (ses_at w p))"
  obtain err w1 where w1: "share_one env ?s ?url arg (False, w) = (err, w1)"
    "GetRdpSessionRoom w1 (RdpSessionId ?s) = Some (room_AddInvitee user permission room)"
    "client w1 = client w" "DbShareRdpSession user permission (RdpSessionId ?s) \<in> set (trace w1)"
    using share_one_added [OF assms] by blast
  let ?w2 = "if err then w1 else broadcast_members env (RdpSessionId ?s) w1"
  have "snd (RequestSharing_Exec env (NewInstruction opcode [rid, op, arg]) p a w) = ?w2"
    by (simp add: RequestSharing_Exec_def NewInstruction_def w1(1) respond_json_def with_arg_def Let_def)
  moreover obtain bs where "broadcast_members env (RdpSessionId ?s) w1 = emit bs w1" using broadcast_members_emit by blast
  then have "GetRdpSessionRoom ?w2 (RdpSessionId ?s) = Some (room_AddInvitee user permission room)"
    "client ?w2 = client w" "DbShareRdpSession user permission (RdpSessionId ?s) \<in> set (trace ?w2)"
    using w1(2-4) by auto
  ultimately show thesis using that by blast
qed

text \<open>C39: \<open>share-session\<close> does not look at the role of its sender: a viewer invites themselves
  with "admin", leaves and follows the share link again; as the database holds what was
  stored, they are admitted, and come back as a co-host.\<close>

theorem viewer_escalates:
  assumes "rooms_inv w" and "env_ok env"
    and "GetRdpSessionRoom w (RdpSessionId (ses_at w p)) = Some room" and "length (Invitees room) < 4"
    and "map_of (Users room) user = Some a" and "Role (client w a) = ROLE_VIEWER"
    and "user \<noteq> []" and "CHR '':'' \<notin> set user" and "user \<noteq> Creator room" and "still_managed w room user"
    and "db_invitee env' user (RdpSessionId (ses_at w p)) = Some ''admin''"
  shows "\<exists>w1 w2 w3 b. snd (RequestSharing_Exec env (NewInstruction opcode [rid, op, user @ '':'' @ ''admin'']) p a w) = w1 \<and>
    DbShareRdpSession user ''admin'' (RdpSessionId (ses_at w p)) \<in> set (trace w1) \<and>
    LeaveRoom env (Some p) (RdpSessionId (ses_at w p)) user ip pip w1 = (Val (), w2) \<and>
    AuthShare env' w2 user (RdpSessionId (ses_at w p)) = (True, ''admin'') \<and>
    JoinRoom env' (RdpSessionId (ses_at w p)) user ws ''admin'' w2 = (Val b, w3) \<and>
    Role (client w3 b) = ROLE_CO_HOST"
proof -
  let ?sid = "RdpSessionId (ses_at w p)" and ?r1 = "room_AddInvitee user ''admin'' room"
  define arg where "arg = user @ '':'' @ ''admin''"
  have split: "Split (CHR '':'') arg = [user, ''admin'']"
    using Split_at [OF assms(8), of "''admin''"] by (simp add: arg_def Split_free)
  obtain w1 where w1: "snd (RequestSharing_Exec env (NewInstruction opcode [rid, op, arg]) p a w) = w1"
    "GetRdpSessionRoom w1 ?sid = Some ?r1" "client w1 = client w" "DbShareRdpSession user ''admin'' ?sid \<in> set (trace w1)"
    using RequestSharing_one [OF assms(3) _ split assms(7)] assms(4) unfolding INVITEE_LIMIT_def by blast
  have users: "Users ?r1 = Users room" "Creator ?r1 = Creator room"
    by (simp_all add: room_AddInvitee_def)
  have ok: "map_ok (Users ?r1)" using rooms_inv_room [OF assms(1,3)] by (simp add: users room_ok_def)
  have "still_managed w1 ?r1 user" using assms(10) by (simp add: still_managed_def users w1(3))
  then have m: "list_ex (non_viewer w1 (room_leave user ?r1))
      (order env LeaveUsers (map_keys (Users (room_leave user ?r1))))"
    using list_ex_non_viewer [OF env_ok_order [OF assms(2)] ok] by blast
  obtain es v where v: "LeaveRoom env (Some p) ?sid user ip pip w1 = (Val (), emit es (put_room ?sid (room_leave user ?r1) v))"
    using LeaveRoom_eq [OF w1(2), of env p user ip pip] m by (simp only: Let_def if_True)
  let ?w2 = "emit es (put_room ?sid (room_leave user ?r1) v)"
  have g: "GetRdpSessionRoom ?w2 ?sid = Some (room_leave user ?r1)"
    by (simp add: rooms.get_put)
  have "AuthShare env' ?w2 user ?sid = (True, ''admin'')"
    using assms(11) by (simp add: AuthShare_def rooms.get_put go_map_simps)
  moreover have "join_role (room_leave user ?r1) user ''admin'' = ROLE_CO_HOST"
    using assms(9) by (simp add: join_role_def users)
  ultimately show ?thesis
    unfolding arg_def [symmetric] using w1(1,4) v JoinRoom_client [OF g, of env' user ws "''admin''"]
    by (metis (no_types, lifting))
qed

lemma viewer_escalates_witness:
  "\<exists>w1 w2 w3 b. snd (RequestSharing_Exec demo_env (NewInstruction ''AACMD'' [''1'', ''share-session'', ''bob'' @ '':'' @ ''admin'']) 0 1 demo_world) = w1 \<and>
    LeaveRoom demo_env (Some 0) ''s'' ''bob'' [] [] w1 = (Val (), w2) \<and>
    JoinRoom (demo_env\<lparr>db_invitee := \<lambda>u s. Some ''admin''\<rparr>) ''s'' ''bob'' 12 ''admin'' w2 = (Val b, w3) \<and>
    Role (client w3 b) = ROLE_CO_HOST"
proof -
  have i: "length (Invitees demo_room) < 4" by (simp add: demo_room_def)
  have s: "still_managed demo_world demo_room ''bob''" by code_simp
  show ?thesis
    using viewer_escalates [OF demo_inv env_ok_demo demo_room_of_session(1) i _ _ _ _ _ s,
        of "Suc 0" "demo_env\<lparr>db_invitee := \<lambda>u s. Some ''admin''\<rparr>" "''AACMD''" "''1''" "''share-session''" "[]" "[]" 12]
    unfolding demo_room_of_session(2) by auto
qed

section \<open>Answers\<close>

lemma respond_simps: "respond r s w = (Val (Some (getResponseCommand r s)), w)"
  by (simp add: respond_def)

definition answers :: "Instruction \<Rightarrow> Instruction \<Rightarrow> bool" where
  "answers ins i \<longleftrightarrow> Opcode i = APPAEGIS_RESP_OP \<and> length (Args i) = 2 \<and> Args i ! 0 = Args ins ! 0"

lemma answers_response [simp]: "answers ins (getResponseCommand (Args ins ! 0) s)"
  "answers ins (NewInstruction APPAEGIS_RESP_OP [Args ins ! 0, d])"
  by (simp_all add: answers_def getResponseCommand_def NewInstruction_def)

text \<open>What a command needs: the seven that read \<open>Args[2]\<close> without a test, and a host who can be answered.\<close>

definition reads_argument :: "Command \<Rightarrow> bool" where
  "reads_argument c \<longleftrightarrow> c \<in> {ReportContextCommand, DlpDownloadCommand, DlpUploadCommand, LogDownloadCommand,
     DownloadCheckCommand, UploadCheckCommand, CheckUserCommand}"

definition host_missing :: "world \<Rightarrow> nat \<Rightarrow> nat \<Rightarrow> bool" where
  "host_missing w p a \<longleftrightarrow> Role (client w a) = ROLE_ADMIN \<and>
     (\<exists>r. GetRdpSessionRoom w (RdpSessionId (ses_at w p)) = Some r \<and> map_of (Users r) (Creator r) = None)"

lemma GetCommandByOp_args:
  "GetCommandByOp ins = Val c \<Longrightarrow> 2 \<le> length (Args ins) \<and> map_of commands (Args ins ! 1) = Some c"
  by (auto simp: GetCommandByOp_def split: if_splits option.splits)

lemma Command_Exec_argument:
  assumes "env_ok env" and "rooms_inv w" and "2 < length (Args ins)"
  shows "case Command_Exec c env ins p a w of
      (Val (Some i), w') \<Rightarrow> answers ins i \<and> \<not> (c = StopShareCommand \<and> host_missing w p a) \<and>
        \<not> (c = SearchUserCommand \<and> query_users env (TenantID (ses_at w p)) (TrimSpace (Args ins ! 2)) = None)
    | (Val None, w') \<Rightarrow> c = SearchUserCommand \<and> w' = w \<and>
        query_users env (TenantID (ses_at w p)) (TrimSpace (Args ins ! 2)) = None
    | (Panic, w') \<Rightarrow> c = StopShareCommand \<and> host_missing w p a
    | (Fail e, w') \<Rightarrow> False"
proof -
  have l: "Args ins \<noteq> []" "\<not> length (Args ins) < 2" "\<not> length (Args ins) < 3" using assms(3) by auto
  note simps = with_arg_def respond_json_def respond_simps Let_def l assms(3)
  show ?thesis
  proof (cases c)
    case StopShareCommand
    then show ?thesis
      using StopShare_eq [OF assms(1) rooms_inv_room [OF assms(2)]]
      by (auto simp: StopShare_Exec_def simps host_missing_def split: option.split)
  qed (use l assms(3) in \<open>auto simp: simps RequestSharing_Exec_def ReportContext_Exec_def DlpDownload_Exec_def DlpUpload_Exec_def
      LogDownload_Exec_def DownloadCheck_Exec_def UploadCheck_Exec_def SetPermissions_Exec_def SearchUser_Exec_def
      RemoveShare_Exec_def CheckUser_Exec_def split: option.split prod.split\<close>)
qed

lemma Command_Exec_no_argument:
  assumes "env_ok env" and "rooms_inv w" and "length (Args ins) = 2"
  shows "case Command_Exec c env ins p a w of
      (Val (Some i), w') \<Rightarrow> answers ins i \<and> \<not> reads_argument c \<and> c \<noteq> SearchUserCommand \<and>
        \<not> (c = StopShareCommand \<and> host_missing w p a) \<and>
        (c = RemoveShareCommand \<longrightarrow> i = getResponseCommand (Args ins ! 0) ''500'' \<and> w' = w)
    | (Val None, w') \<Rightarrow> c = SearchUserCommand \<and> w' = w
    | (Panic, w') \<Rightarrow> reads_argument c \<and> w' = w \<or> c = StopShareCommand \<and> host_missing w p a
    | (Fail e, w') \<Rightarrow> False"
proof -
  have l: "Args ins \<noteq> []" "\<not> length (Args ins) < 2" "length (Args ins) < 3" using assms(3) by auto
  note simps = with_arg_def respond_json_def respond_simps Let_def l assms(3) reads_argument_def
  show ?thesis
  proof (cases c)
    case StopShareCommand
    then show ?thesis
      using StopShare_eq [OF assms(1) rooms_inv_room [OF assms(2)]]
      by (auto simp: StopShare_Exec_def simps host_missing_def split: option.split)
  qed (use l assms(3) in \<open>auto simp: simps RequestSharing_Exec_def ReportContext_Exec_def DlpDownload_Exec_def DlpUpload_Exec_def
      LogDownload_Exec_def DownloadCheck_Exec_def UploadCheck_Exec_def SetPermissions_Exec_def SearchUser_Exec_def
      RemoveShare_Exec_def CheckUser_Exec_def split: option.split prod.split\<close>)
qed

text \<open>C38: when a command runs, for any number of arguments after its id and operation: it is answered,
  by an \<open>appaegis-resp\<close> instruction with the id of the request and one JSON text, but for two cases,
  and those exactly. It panics when it reads an argument that is not there (\<open>report-context\<close>, the
  two \<open>dlp\<close> commands, \<open>log-download\<close>, the two checks of a file and \<open>check-user\<close>), with nothing
  changed, and when a host stops the sharing of a room that has lost its creator. It answers nothing when
  \<open>search-user\<close> has no argument or its query fails. \<open>remove-share\<close> without an argument answers 500 and
  changes nothing. No command returns an error.\<close>

theorem Command_answers:
  assumes "env_ok env" and "rooms_inv w" and "GetCommandByOp ins = Val c"
  shows "let panics = reads_argument c \<and> length (Args ins) = 2 \<or> c = StopShareCommand \<and> host_missing w p a;
      silent = c = SearchUserCommand \<and> (length (Args ins) = 2 \<or>
        query_users env (TenantID (ses_at w p)) (TrimSpace (Args ins ! 2)) = None)
    in case Command_Exec c env ins p a w of
      (Val (Some i), w') \<Rightarrow> \<not> panics \<and> \<not> silent \<and> answers ins i \<and>
        (c = RemoveShareCommand \<and> length (Args ins) = 2 \<longrightarrow> i = getResponseCommand (Args ins ! 0) ''500'' \<and> w' = w)
    | (Val None, w') \<Rightarrow> silent \<and> w' = w
    | (Panic, w') \<Rightarrow> panics \<and> (reads_argument c \<longrightarrow> w' = w)
    | (Fail e, w') \<Rightarrow> False"
proof (cases "length (Args ins) = 2")
  case True
  show ?thesis
    using Command_Exec_no_argument [OF assms(1,2) True, of c p a] True
    by (auto simp: reads_argument_def split: prod.splits outcome.splits option.splits)
next
  case False
  with GetCommandByOp_args [OF assms(3)] have "2 < length (Args ins)" by simp
  from Command_Exec_argument [OF assms(1,2) this, of c p a] False show ?thesis
    by (auto simp: reads_argument_def split: prod.splits outcome.splits option.splits)
qed

lemma Command_answers_witness:
  "(case Command_Exec UploadCheckCommand demo_env (NewInstruction ''AACMD'' [''1'', ''upload-check'', ''x'']) 0 1 demo_world of
      (Val (Some i), w') \<Rightarrow> answers (NewInstruction ''AACMD'' [''1'', ''upload-check'', ''x'']) i
    | _ \<Rightarrow> False) \<and>
   (case Command_Exec UploadCheckCommand demo_env (NewInstruction ''AACMD'' [''1'', ''upload-check'']) 0 1 demo_world of
      (Panic, w') \<Rightarrow> w' = demo_world
    | _ \<Rightarrow> False)"
proof
  have c: "GetCommandByOp (NewInstruction ''AACMD'' [''1'', ''upload-check'', ''x'']) = Val UploadCheckCommand"
    "GetCommandByOp (NewInstruction ''AACMD'' [''1'', ''upload-check'']) = Val UploadCheckCommand"
    by code_simp+
  show "case Command_Exec UploadCheckCommand demo_env (NewInstruction ''AACMD'' [''1'', ''upload-check'', ''x'']) 0 1 demo_world of
      (Val (Some i), w') \<Rightarrow> answers (NewInstruction ''AACMD'' [''1'', ''upload-check'', ''x'']) i
    | _ \<Rightarrow> False"
    using Command_answers [OF env_ok_demo demo_inv c(1), of 0 1]
    by (simp add: Let_def NewInstruction_def split: prod.splits outcome.splits option.splits)
  show "case Command_Exec UploadCheckCommand demo_env (NewInstruction ''AACMD'' [''1'', ''upload-check'']) 0 1 demo_world of
      (Panic, w') \<Rightarrow> w' = demo_world
    | _ \<Rightarrow> False"
    using Command_answers [OF env_ok_demo demo_inv c(2), of 0 1]
    by (simp add: Let_def NewInstruction_def reads_argument_def split: prod.splits outcome.splits option.splits)
qed

end
