(* ===== verification/WsServer.thy ===== *)
theory WsServer
  imports CommandProps GuacStream
begin

text \<open>
  The websocket server of \<open>pkg/ws_server.go\<close>: opening a connection (\<open>ServeHTTP\<close> up to the two
  loops), the loop from the browser to guacd with its permission checks, the loop from guacd
  to the browser, and leaving. The loop from guacd is a client of the interface
  \<open>instruction_reader\<close>.
\<close>

section \<open>Commands in the stream\<close>

definition internalOpcodeIns :: "byte list" where "internalOpcodeIns = ''0.''"
definition appaegisCmdOpcodeIns :: "byte list" where "appaegisCmdOpcodeIns = ''5.AACMD''"
definition keyCmdOpcodeIns :: "byte list" where "keyCmdOpcodeIns = ''3.key''"
definition mouseCmdOpcodeIns :: "byte list" where "mouseCmdOpcodeIns = ''5.mouse''"
definition sizeCmdOpcodeIns :: "byte list" where "sizeCmdOpcodeIns = ''4.size''"

text \<open>\<open>strings.ToLower\<close> of a well-formed string.\<close>

definition rune_lower :: "env \<Rightarrow> nat \<Rightarrow> nat" where
  "rune_lower env r = (if r < 128 then if 65 \<le> r \<and> r \<le> 90 then r + 32 else r else unicode_lower env r)"

fun runes_n :: "nat \<Rightarrow> byte list \<Rightarrow> nat list" where
  "runes_n 0 s = []"
| "runes_n (Suc n) s = (if s = [] then [] else let (r, size) = DecodeRune s in r # runes_n n (drop size s))"

definition ToLower :: "env \<Rightarrow> string \<Rightarrow> string" where
  "ToLower env s = utf8 (map (rune_lower env) (runes_n (length s) s))"

definition handleAppaegisCommand :: "env \<Rightarrow> nat \<Rightarrow> byte list \<Rightarrow> string \<Rightarrow> world \<Rightarrow> (string, unit) outcome \<times> world" where
  "handleAppaegisCommand env a cmd sessionDataKey w =
     (case Parse cmd of
        Panic \<Rightarrow> (Panic, w)
      | Fail e \<Rightarrow> (Val (), w)
      | Val ins \<Rightarrow>
          (case session_of w sessionDataKey of
             None \<Rightarrow> (Val (), w)
           | Some p \<Rightarrow>
               if length (Args ins) < 2 then (Panic, w)
               else
                 let op = Args ins ! 1; requestID = Args ins ! 0; s = ses_at w p;
                     (result, w1) =
                       (case GetCommandByOp ins of
                          Val command \<Rightarrow> Command_Exec command env ins p a w
                        | _ \<Rightarrow>
                            (Val (Some (NewInstruction APPAEGIS_RESP_OP [requestID, json_enc (JObj [(''ng'', JInt 1)])])),
                             emit [LogAction (empty_action\<lparr>AppTag := ''guac.'' @ ToLower env op, act_Session := Some p,
                                     UserEmail := Email s, act_ClientIP := ses_ClientIP s\<rparr>)] w))
                 in case result of
                      Val (Some i) \<Rightarrow> (Val (), WriteMessage a i w1)
                    | Val None \<Rightarrow> (Val (), w1)
                    | Fail e \<Rightarrow> (Fail e, w1)
                    | Panic \<Rightarrow> (Panic, w1)))"

section \<open>From the browser to guacd\<close>

text \<open>One message: \<open>Some data\<close> is what is written to guacd.\<close>

definition ws_message :: "env \<Rightarrow> nat \<Rightarrow> string \<Rightarrow> byte list \<Rightarrow> world \<Rightarrow> (string, byte list option) outcome \<times> world" where
  "ws_message env a sessionDataKey data w =
     (if HasPrefix data internalOpcodeIns then (Val None, w)
      else if HasPrefix data appaegisCmdOpcodeIns then
        (case handleAppaegisCommand env a data sessionDataKey w of
           (Val _, w1) \<Rightarrow> (Val None, w1)
         | (Fail e, w1) \<Rightarrow> (Fail e, w1)
         | (Panic, w1) \<Rightarrow> (Panic, w1))
      else if Role (client w a) \<noteq> ROLE_ADMIN \<and> HasPrefix data sizeCmdOpcodeIns then (Val None, w)
      else if \<not> Mouse (client w a) \<and> HasPrefix data mouseCmdOpcodeIns then (Val None, w)
      else if \<not> Keyboard (client w a) \<and> HasPrefix data keyCmdOpcodeIns then (Val None, w)
      else (Val (Some data), w))"

text \<open>The loop over the messages \<open>ReadMessage\<close> returns before it fails.\<close>

fun wsToGuacd :: "env \<Rightarrow> nat \<Rightarrow> string \<Rightarrow> byte list list \<Rightarrow> Stream \<Rightarrow> world \<Rightarrow> (string, unit) outcome \<times> Stream \<times> world" where
  "wsToGuacd env a key [] guacd w = (Val (), guacd, w)"
| "wsToGuacd env a key (data # msgs) guacd w =
     (case ws_message env a key data w of
        (Val None, w1) \<Rightarrow> wsToGuacd env a key msgs guacd w1
      | (Val (Some d), w1) \<Rightarrow>
          (let (n, err, guacd1) = Stream_Write guacd d
           in if err \<noteq> None then (Val (), guacd1, w1) else wsToGuacd env a key msgs guacd1 w1)
      | (Fail e, w1) \<Rightarrow> (Fail e, guacd, w1)
      | (Panic, w1) \<Rightarrow> (Panic, guacd, w1))"

section \<open>From guacd to the browser\<close>

text \<open>The name in a \<open>server_info\<close> instruction; \<open>None\<close> is a slice out of range.\<close>

definition server_name :: "byte list \<Rightarrow> string option" where
  "server_name ins =
     (let i = IndexByte ins (CHR '','') in
      if i > 0
      then if nat i + 1 \<le> length ins - 1
           then let serverInfo = drop (nat i + 1) (take (length ins - 1) ins)
                in Some (drop (nat (IndexByte serverInfo (CHR ''.'') + 1)) serverInfo)
           else None
      else Some [])"

definition open_action :: "nat \<Rightarrow> SessionCommonData \<Rightarrow> Action" where
  "open_action p s = empty_action\<lparr>act_Session := Some p, UserEmail := Email s, Username := UserName s,
     act_ClientIP := ses_ClientIP s, act_ClientPrivateIp := ses_ClientPrivateIp s, Destination := ServerName s\<rparr>"

definition update_session :: "nat \<Rightarrow> SessionCommonData \<Rightarrow> world \<Rightarrow> world" where
  "update_session p s w = w\<lparr>session_heap := (session_heap w)[p := s]\<rparr>"

definition server_info :: "nat option \<Rightarrow> byte list \<Rightarrow> world \<Rightarrow> (string, unit) outcome \<times> world" where
  "server_info ses ins w =
     (case ses of
        None \<Rightarrow> (Panic, w)
      | Some p \<Rightarrow>
          let w1 = update_session p ((ses_at w p)\<lparr>Auth := True\<rparr>) w in
          case server_name ins of
            None \<Rightarrow> (Panic, w1)
          | Some name \<Rightarrow>
              let s = (ses_at w p)\<lparr>Auth := True, ServerName := name\<rparr>
              in (Val (), emit [GoSendEvent ''open'' (open_action p s)] (update_session p s w)))"

definition serverInfoIns :: "byte list" where "serverInfoIns = ''11.server_info''"

text \<open>
  The loop over a reader with operations \<open>rd\<close> and \<open>av\<close>: \<open>fails k\<close> says whether the
  \<open>k\<close>-th message to the browser fails. The result holds what is left in the buffer.
\<close>

partial_function (option) guacdToWs ::
  "('s \<Rightarrow> (read_result \<times> 's) option) \<Rightarrow> ('s \<Rightarrow> bool) \<Rightarrow> (nat \<Rightarrow> bool) \<Rightarrow> nat \<Rightarrow> nat option \<Rightarrow> nat \<Rightarrow>
     byte list \<Rightarrow> 's \<Rightarrow> world \<Rightarrow> ((string, unit) outcome \<times> byte list \<times> 's \<times> world) option" where
  "guacdToWs rd av fails ws ses k buf s w =
     (case rd s of
        None \<Rightarrow> None
      | Some (RPanic, s1) \<Rightarrow> Some (Panic, buf, s1, w)
      | Some (Ret ins (Some err), s1) \<Rightarrow> Some (Val (), buf, s1, w)
      | Some (Ret ins None, s1) \<Rightarrow>
          if HasPrefix ins internalOpcodeIns then guacdToWs rd av fails ws ses k buf s1 w
          else if HasPrefix ins serverInfoIns then
            (case server_info ses ins w of
               (Val _, w1) \<Rightarrow> guacdToWs rd av fails ws ses k buf s1 w1
             | (r, w1) \<Rightarrow> Some (r, buf, s1, w1))
          else if \<not> av s1 \<or> length (buf @ ins) \<ge> MaxGuacMessage then
            (if fails k then Some (Val (), buf @ ins, s1, w)
             else guacdToWs rd av fails ws ses (Suc k) [] s1 (emit [WsSend ws (buf @ ins)] w))
          else guacdToWs rd av fails ws ses k (buf @ ins) s1 w)"

section \<open>Policies\<close>

text \<open>\<open>BroadCastPolicy\<close>: \<open>actions\<close> is the answer of the policy query, \<open>None\<close> for nil.\<close>

definition BroadCastPolicy :: "nat \<Rightarrow> bool \<Rightarrow> string list option \<Rightarrow> world \<Rightarrow> world" where
  "BroadCastPolicy ws sharing actions w =
     (case actions of
        None \<Rightarrow> w
      | Some as \<Rightarrow> emit [WsSend ws (fst (Instruction_String
            (NewInstruction ''sync'' ([''policy''] @ as @ (if sharing then [''share''] else [])))))] w)"

text \<open>\<open>BroadCastToWs\<close>: once at the start, then for every 1 that comes over the channel.\<close>

definition BroadCastToWs :: "nat \<Rightarrow> bool \<Rightarrow> (nat \<Rightarrow> string list option) \<Rightarrow> int list \<Rightarrow> world \<Rightarrow> world" where
  "BroadCastToWs ws sharing actions ops w =
     fold (\<lambda>(i, op). if op = 1 then BroadCastPolicy ws sharing (actions i) else (\<lambda>w. w))
       (zip [1..<length ops + 1] ops) (BroadCastPolicy ws sharing (actions 0) w)"

section \<open>A connection\<close>

record ws_request =
  shareSessionId :: string
  userId :: string
  appId :: string
  clientIp :: string

text \<open>What the callback \<open>connect\<close> returns: the tunnel's id, the guacd connection, the logging data.\<close>

record tunnel_info =
  tun_UUID :: string
  tun_ConnectionID :: string
  tun_LoggingInfo :: LoggingInfo

text \<open>What the connection goes on with: its client, the session's key and the session's pointer.\<close>

record ws_connection =
  con_client :: nat
  con_session :: string
  con_ses :: "nat option"
  con_user :: string
  con_tunnel :: tunnel_info

definition join_action :: "SessionCommonData \<Rightarrow> nat \<Rightarrow> ws_request \<Rightarrow> Action" where
  "join_action s p req = empty_action\<lparr>act_Session := Some p, UserEmail := userId req,
     act_ClientIP := hd (Split (CHR '':'') (clientIp req)), Destination := ServerName s\<rparr>"

text \<open>The session the request wants to join, with the permissions; \<open>None\<close> is a refused share link.\<close>

definition share_target :: "env \<Rightarrow> ws_request \<Rightarrow> world \<Rightarrow> (string \<times> string) option" where
  "share_target env req w =
     (if shareSessionId req \<noteq> [] then
        let (valid, permissions) = AuthShare env w (userId req) (shareSessionId req)
        in if valid then Some (shareSessionId req, permissions) else None
      else case GetRoomByAppIdAndCreator env w (appId req) (userId req) of
             Some r \<Rightarrow> Some (SessionId r, ''keyboard,mouse,admin'')
           | None \<Rightarrow> Some ([], []))"

text \<open>Whether the application may be shared; \<open>None\<close> is the panic on one that is not found.\<close>

definition query_sharing :: "env \<Rightarrow> string \<Rightarrow> bool option" where
  "query_sharing env app = (if app \<noteq> [] then app_sharing env app else Some False)"

definition enter_room :: "env \<Rightarrow> ws_request \<Rightarrow> nat \<Rightarrow> string \<times> string \<Rightarrow> tunnel_info \<Rightarrow> bool \<Rightarrow> world \<Rightarrow>
    (string, ws_connection) outcome \<times> world" where
  "enter_room env req ws target tunnel sharing w =
     (let (share, permissions) = target;
          con = (\<lambda>a sid ses. \<lparr>con_client = a, con_session = sid, con_ses = ses, con_user = userId req, con_tunnel = tunnel\<rparr>);
          info = tun_LoggingInfo tunnel
      in if share = [] then
           let sid = tun_UUID tunnel;
               w1 = emit [DbSaveActiveRdpSession sid (userId req), KvPut (''guac-'' @ sid) (guac_ip env @ '':4567'')] w;
               (a, w2) = NewRdpSessionRoom sid (userId req) ws (tun_ConnectionID tunnel) sharing (appId req) info w1
           in (Val (con a sid (session_of w sid)), w2)
         else
           (case JoinRoom env share (userId req) ws permissions w of
              (Val a, w1) \<Rightarrow>
                (case session_of w share of
                   None \<Rightarrow> (Panic, w1)
                 | Some p \<Rightarrow> (Val (con a share (Some p)), emit [GoSendEvent ''join'' (join_action (ses_at w1 p) p req)] w1))
            | (Fail e, w1) \<Rightarrow> (Fail e, w1)
            | (Panic, w1) \<Rightarrow> (Panic, w1)))"

definition ws_open :: "env \<Rightarrow> ws_request \<Rightarrow> nat \<Rightarrow> (world \<Rightarrow> (string, tunnel_info) outcome \<times> world) \<Rightarrow> world \<Rightarrow>
    (string, ws_connection) outcome \<times> world" where
  "ws_open env req ws connect w =
     (case share_target env req w of
        None \<Rightarrow> (Fail ''auth share failed'', w)
      | Some target \<Rightarrow>
          (case connect w of
             (Fail e, w1) \<Rightarrow> (Fail e, w1)
           | (Panic, w1) \<Rightarrow> (Panic, w1)
           | (Val tunnel, w1) \<Rightarrow>
               (case query_sharing env (appId req) of
                  None \<Rightarrow> (Panic, w1)
                | Some sharing \<Rightarrow>
                    (case enter_room env req ws target tunnel sharing w1 of
                       (Val con, w2) \<Rightarrow>
                         (Val con, SendPermission (con_client con) (emit [RdpCount (li_TenantId (tun_LoggingInfo tunnel)) 1] w2))
                     | r \<Rightarrow> r))))"

definition ws_close :: "env \<Rightarrow> ws_connection \<Rightarrow> world \<Rightarrow> (string, unit) outcome \<times> world" where
  "ws_close env con w =
     (let info = tun_LoggingInfo (con_tunnel con);
          (r, w1) = LeaveRoom env (con_ses con) (con_session con) (con_user con) (li_ClientIp info) (li_ClientPrivateIp info) w
      in (r, emit [RdpCount (li_TenantId info) (-1)] w1))"

end
