(* ===== verification/WsProps.thy ===== *)
theory WsProps
  imports WsServer
begin

text \<open>
  What the websocket server of \<open>WsServer\<close> guarantees: which messages of a browser reach guacd,
  that what guacd sends reaches the browser complete and in order, but for the internal
  instructions, and that every step of a connection preserves the invariant of the rooms.
\<close>

section \<open>The loop from guacd, over any reader\<close>

definition to_browser :: "byte list \<Rightarrow> bool" where
  "to_browser ins \<longleftrightarrow> \<not> HasPrefix ins internalOpcodeIns \<and> \<not> HasPrefix ins serverInfoIns"

fun sent_to :: "nat \<Rightarrow> effect list \<Rightarrow> byte list" where
  "sent_to ws [] = []"
| "sent_to ws (WsSend c bs # es) = (if c = ws then bs else []) @ sent_to ws es"
| "sent_to ws (e # es) = sent_to ws es"

lemma sent_to_append [simp]: "sent_to ws (es @ es') = sent_to ws es @ sent_to ws es'"
  by (induction ws es rule: sent_to.induct) simp_all

fun sends :: "nat \<Rightarrow> effect list \<Rightarrow> nat" where
  "sends ws [] = 0"
| "sends ws (WsSend c bs # es) = (if c = ws then 1 else 0) + sends ws es"
| "sends ws (e # es) = sends ws es"

lemma sends_append [simp]: "sends ws (es @ es') = sends ws es + sends ws es'"
  by (induction ws es rule: sends.induct) simp_all

lemma server_info_sent:
  "server_info ses ins w = (r, w') \<Longrightarrow> \<exists>es. trace w' = trace w @ es \<and> sent_to ws es = [] \<and> sends ws es = 0"
  by (auto simp: server_info_def update_session_def Let_def split: option.splits)

text \<open>
  What is left in the buffer at the end, after the reads \<open>xs\<close> from \<open>s\<close>: nothing, or less than a full
  message, held back because more was buffered after the last instruction in it.
\<close>

definition held_back :: "('s \<Rightarrow> (read_result \<times> 's) option) \<Rightarrow> ('s \<Rightarrow> bool) \<Rightarrow> 's \<Rightarrow> byte list list \<Rightarrow> byte list \<Rightarrow> bool" where
  "held_back rd av s xs buf' \<longleftrightarrow> buf' = [] \<or> (length buf' < MaxGuacMessage \<and>
     (\<exists>ys zs t. xs = ys @ zs \<and> read_n rd (length ys) s = Some (ys, t) \<and> av t \<and> filter to_browser zs = []))"

text \<open>
  A run from \<open>s\<close> with \<open>buf\<close> in the buffer and \<open>k\<close> messages sent: its reads \<open>xs\<close>, what it sent, and
  its end: a read that fails, or a message that fails.
\<close>

definition relayed :: "('s \<Rightarrow> (read_result \<times> 's) option) \<Rightarrow> ('s \<Rightarrow> bool) \<Rightarrow> (nat \<Rightarrow> bool) \<Rightarrow> nat \<Rightarrow> nat \<Rightarrow> byte list \<Rightarrow> 's \<Rightarrow> world \<Rightarrow>
    byte list \<Rightarrow> 's \<Rightarrow> world \<Rightarrow> bool" where
  "relayed rd av fails ws k buf s w buf' s' w' \<longleftrightarrow>
     (\<exists>xs t es. read_n rd (length xs) s = Some (xs, t) \<and> trace w' = trace w @ es \<and>
        sent_to ws es @ buf' = buf @ concat (filter to_browser xs) \<and> (\<forall>i<sends ws es. \<not> fails (k + i)) \<and>
        ((\<exists>ins err. rd t = Some (Ret ins (Some err), s')) \<and>
           (held_back rd av s xs buf' \<or> (buf' = buf \<and> filter to_browser xs = [])) \<or>
         s' = t \<and> fails (k + sends ws es)))"

text \<open>One read more at the front.\<close>

lemma read_n_Cons: "rd s = Some (Ret ins None, s1) \<Longrightarrow> read_n rd (length xs) s1 = Some (xs, t) \<Longrightarrow>
    read_n rd (length (ins # xs)) s = Some (ins # xs, t)"
  by simp

lemma held_back_step:
  assumes r: "rd s = Some (Ret ins None, s1)" and n: "read_n rd (length xs) s1 = Some (xs, t)"
    and h: "held_back rd av s1 xs buf' \<or> (buf' = buf1 \<and> filter to_browser xs = [])"
    and b: "(buf1 = buf \<and> \<not> to_browser ins) \<or> buf1 = [] \<or> (av s1 \<and> length buf1 < MaxGuacMessage)"
  shows "held_back rd av s (ins # xs) buf' \<or> (buf' = buf \<and> filter to_browser (ins # xs) = [])"
  using h
proof
  assume "held_back rd av s1 xs buf'"
  then consider "buf' = []" | ys zs t where "length buf' < MaxGuacMessage" "xs = ys @ zs"
    "read_n rd (length ys) s1 = Some (ys, t)" "av t" "filter to_browser zs = []"
    unfolding held_back_def by blast
  then show ?thesis
  proof cases
    case (2 ys zs t)
    then have "ins # xs = (ins # ys) @ zs" by simp
    moreover have "read_n rd (length (ins # ys)) s = Some (ins # ys, t)" using r 2(3) by (rule read_n_Cons)
    ultimately show ?thesis using 2(1,4,5) unfolding held_back_def by blast
  qed (simp add: held_back_def)
next
  assume e: "buf' = buf1 \<and> filter to_browser xs = []"
  have "ins # xs = [ins] @ xs" "read_n rd (length [ins]) s = Some ([ins], s1)" using r by simp_all
  with b e show ?thesis unfolding held_back_def by (elim disjE) (simp, simp, blast)
qed

lemma relayed_step:
  assumes r: "rd s = Some (Ret ins None, s1)" and q: "relayed rd av fails ws (k + sends ws es1) buf1 s1 w1 buf' s' w'"
    and t: "trace w1 = trace w @ es1" and st: "sent_to ws es1 @ buf1 = buf @ (if to_browser ins then ins else [])"
    and f: "\<forall>i<sends ws es1. \<not> fails (k + i)"
    and b: "(buf1 = buf \<and> \<not> to_browser ins) \<or> buf1 = [] \<or> (av s1 \<and> length buf1 < MaxGuacMessage)"
  shows "relayed rd av fails ws k buf s w buf' s' w'"
proof -
  from q obtain xs t' es where x: "read_n rd (length xs) s1 = Some (xs, t')" "trace w' = trace w1 @ es"
    "sent_to ws es @ buf' = buf1 @ concat (filter to_browser xs)" "\<forall>i<sends ws es. \<not> fails (k + sends ws es1 + i)"
    and e: "(\<exists>ins err. rd t' = Some (Ret ins (Some err), s')) \<and>
        (held_back rd av s1 xs buf' \<or> (buf' = buf1 \<and> filter to_browser xs = [])) \<or>
      s' = t' \<and> fails (k + sends ws es1 + sends ws es)"
    unfolding relayed_def by blast
  have "sent_to ws (es1 @ es) @ buf' = (sent_to ws es1 @ buf1) @ concat (filter to_browser xs)"
    using x(3) by simp
  also have "\<dots> = buf @ concat (filter to_browser (ins # xs))" using st by simp
  finally have c: "sent_to ws (es1 @ es) @ buf' = buf @ concat (filter to_browser (ins # xs))" .
  have "\<not> fails (k + i)" if "i < sends ws (es1 @ es)" for i
  proof (cases "i < sends ws es1")
    case False
    with that x(4) [rule_format, of "i - sends ws es1"] show ?thesis by simp
  qed (use f in simp)
  moreover have "trace w' = trace w @ es1 @ es" using x(2) t by simp
  moreover have "(\<exists>ins err. rd t' = Some (Ret ins (Some err), s')) \<and>
      (held_back rd av s (ins # xs) buf' \<or> (buf' = buf \<and> filter to_browser (ins # xs) = [])) \<or>
    s' = t' \<and> fails (k + sends ws (es1 @ es))"
    using e held_back_step [where rd = rd and av = av and buf' = buf', OF r x(1) _ b] by (auto simp: add.assoc)
  moreover have "read_n rd (length (ins # xs)) s = Some (ins # xs, t')" using r x(1) by (rule read_n_Cons)
  ultimately show ?thesis
    unfolding relayed_def using c by blast
qed

lemma guacdToWs_relays:
  assumes "guacdToWs rd0 av0 fails0 ws ses k buf s w = Some (r, buf', s', w')" and "r \<noteq> Panic"
  shows "r = Val () \<and> relayed rd0 av0 fails0 ws k buf s w buf' s' w'"
proof -
  let ?P = "\<lambda>rd av fails ws (ses :: nat option) k buf s w (x :: (string, unit) outcome \<times> byte list \<times> 's \<times> world).
    fst x \<noteq> Panic \<longrightarrow> fst x = Val () \<and> relayed rd av fails ws k buf s w (fst (snd x)) (fst (snd (snd x))) (snd (snd (snd x)))"
  have "?P rd0 av0 fails0 ws ses k buf s w (r, buf', s', w')"
  proof (rule guacdToWs.raw_induct [where P = ?P, OF _ assms(1)], intro impI)
    fix f and rd :: "'s \<Rightarrow> (read_result \<times> 's) option" and av :: "'s \<Rightarrow> bool" and fails :: "nat \<Rightarrow> bool" and ws
      and ses :: "nat option" and k :: nat and buf and s :: 's and w
      and x :: "(string, unit) outcome \<times> byte list \<times> 's \<times> world"
    assume IH: "\<And>rd (av :: 's \<Rightarrow> bool) (fails :: nat \<Rightarrow> bool) ws ses k buf s w x. f rd av fails ws ses k buf s w = Some x \<Longrightarrow> ?P rd av fails ws ses k buf s w x"
      and np: "fst x \<noteq> Panic"
    let ?Q = "\<lambda>k buf s w. fst x = Val () \<and> relayed rd av fails ws k buf s w (fst (snd x)) (fst (snd (snd x))) (snd (snd (snd x)))"
    assume eq: "(case rd s of
        None \<Rightarrow> None
      | Some (Ret ins None, s1) \<Rightarrow>
          if HasPrefix ins internalOpcodeIns then f rd av fails ws ses k buf s1 w
          else if HasPrefix ins serverInfoIns then
            (case server_info ses ins w of
               (Val _, w1) \<Rightarrow> f rd av fails ws ses k buf s1 w1
             | (Fail e, w1) \<Rightarrow> Some (Fail e, buf, s1, w1) | (Panic, w1) \<Rightarrow> Some (Panic, buf, s1, w1))
          else if \<not> av s1 \<or> length (buf @ ins) \<ge> MaxGuacMessage then
            (if fails k then Some (Val (), buf @ ins, s1, w)
             else f rd av fails ws ses (Suc k) [] s1 (emit [WsSend ws (buf @ ins)] w))
          else f rd av fails ws ses k (buf @ ins) s1 w
      | Some (Ret ins (Some err), s1) \<Rightarrow> Some (Val (), buf, s1, w)
      | Some (RPanic, s1) \<Rightarrow> Some (Panic, buf, s1, w)) = Some x"
    show "?Q k buf s w"
    proof (cases "rd s")
      case (Some y)
      then consider ins s1 where "rd s = Some (Ret ins None, s1)" | ins e s1 where "rd s = Some (Ret ins (Some e), s1)"
        | s1 where "rd s = Some (RPanic, s1)" by (metis option.exhaust read_result.exhaust surj_pair)
      then show ?thesis
      proof cases
        case (1 ins s1)
        note step = relayed_step [of rd s ins s1 av fails ws k, OF 1]
        from 1 eq have "f rd av fails ws ses k buf s1 w = Some x" if "HasPrefix ins internalOpcodeIns" using that by simp
        then have internal: ?thesis if "HasPrefix ins internalOpcodeIns"
          using IH [rule_format, OF _ np] step [of "[]" buf w _ _ _ w buf] that by (simp add: to_browser_def)
        have info: ?thesis if i: "\<not> HasPrefix ins internalOpcodeIns" "HasPrefix ins serverInfoIns"
        proof -
          obtain q w1 where q: "server_info ses ins w = (q, w1)" by fastforce
          obtain es where es: "trace w1 = trace w @ es" "sent_to ws es = []" "sends ws es = 0"
            using server_info_sent [OF q] by blast
          have "q \<noteq> Fail e" for e using q by (auto simp: server_info_def Let_def split: option.splits)
          with 1 eq i q np have "f rd av fails ws ses k buf s1 w1 = Some x" by (auto split: outcome.splits)
          from IH [rule_format, OF this np] step [of es buf w1 _ _ _ w buf] es i show ?thesis by (simp add: to_browser_def)
        qed
        have failed: ?thesis if c: "to_browser ins" "\<not> av s1 \<or> length (buf @ ins) \<ge> MaxGuacMessage" "fails k"
        proof -
          from 1 eq c have "x = (Val (), buf @ ins, s1, w)" by (auto simp: to_browser_def)
          moreover have "relayed rd av fails ws k buf s w (buf @ ins) s1 w"
            using 1 c unfolding relayed_def by (intro exI [of _ "[ins]"] exI [of _ s1] exI [of _ "[]"]) simp
          ultimately show ?thesis by simp
        qed
        have sent: ?thesis if c: "to_browser ins" "\<not> av s1 \<or> length (buf @ ins) \<ge> MaxGuacMessage" "\<not> fails k"
        proof -
          from 1 eq c have "f rd av fails ws ses (Suc k) [] s1 (emit [WsSend ws (buf @ ins)] w) = Some x"
            by (auto simp: to_browser_def)
          note j = IH [rule_format, OF this np]
          have "relayed rd av fails ws k buf s w (fst (snd x)) (fst (snd (snd x))) (snd (snd (snd x)))"
            by (rule step [where ?es1.0 = "[WsSend ws (buf @ ins)]" and ?buf1.0 = "[]" and ?w1.0 = "emit [WsSend ws (buf @ ins)] w"])
              (use j c in \<open>simp_all add: emit_def\<close>)
          with j show ?thesis by simp
        qed
        have kept: ?thesis if c: "to_browser ins" "av s1" "length (buf @ ins) < MaxGuacMessage"
        proof -
          from 1 eq c have "f rd av fails ws ses k (buf @ ins) s1 w = Some x" by (auto simp: to_browser_def)
          from IH [rule_format, OF this np] step [of "[]" "buf @ ins" w _ _ _ w buf] c show ?thesis by simp
        qed
        show ?thesis using internal info failed sent kept unfolding to_browser_def by (meson linorder_not_le)
      next
        case (2 ins e s1)
        with eq have "x = (Val (), buf, s1, w)" by simp
        moreover have "relayed rd av fails ws k buf s w buf s1 w"
          using 2 unfolding relayed_def by (intro exI [of _ "[]"] exI [of _ s] exI [of _ "[]"]) simp
        ultimately show ?thesis by simp
      next
        case (3 s1)
        with eq np show ?thesis by auto
      qed
    qed (use eq in simp)
  qed
  with assms(2) show ?thesis by simp
qed

text \<open>It returns once a read fails.\<close>

lemma guacdToWs_returns:
  "read_n rd n s = Some (xs, t) \<Longrightarrow> rd t = Some (Ret ins (Some err), t') \<Longrightarrow> guacdToWs rd av fails ws ses k buf s w \<noteq> None"
proof (induction n arbitrary: xs s k buf w)
  case 0
  then show ?case by (subst guacdToWs.simps) simp
next
  case (Suc n)
  from Suc.prems(1) obtain i s1 ys where r: "rd s = Some (Ret i None, s1)" and y: "read_n rd n s1 = Some (ys, t)"
    by (auto split: option.splits read_result.splits prod.splits)
  have "guacdToWs rd av fails ws ses k' buf' s1 w' \<noteq> None" for k' buf' w' using y Suc.prems(2) by (rule Suc.IH)
  with r show ?case by (subst guacdToWs.simps) (simp split: outcome.split prod.split)
qed

context instruction_reader
begin

text \<open>
  The relay over a reader: what was read is the next bytes of the peer.
\<close>

lemma relays:
  assumes "guacdToWs ReadSome Available fails ws ses 0 [] s w = Some (r, buf', s', w')" and "invar s" and "r \<noteq> Panic"
  shows "r = Val () \<and> (\<exists>xs t es. read_n ReadSome (length xs) s = Some (xs, t) \<and> pending s = concat xs @ pending t \<and>
    trace w' = trace w @ es \<and> sent_to ws es @ buf' = concat (filter to_browser xs) \<and> (\<forall>i<sends ws es. \<not> fails i) \<and>
    ((\<exists>ins err. ReadSome t = Some (Ret ins (Some err), s')) \<and> held_back ReadSome Available s xs buf' \<or>
     s' = t \<and> fails (sends ws es)))"
proof -
  from guacdToWs_relays [OF assms(1,3)] obtain xs t es where x: "r = Val ()" "read_n ReadSome (length xs) s = Some (xs, t)"
    "trace w' = trace w @ es" "sent_to ws es @ buf' = concat (filter to_browser xs)" "\<forall>i<sends ws es. \<not> fails i"
    "(\<exists>ins err. ReadSome t = Some (Ret ins (Some err), s')) \<and>
       (held_back ReadSome Available s xs buf' \<or> (buf' = [] \<and> filter to_browser xs = [])) \<or> s' = t \<and> fails (sends ws es)"
    unfolding relayed_def by auto
  moreover have "pending s = concat xs @ pending t" using read_n_pending [OF assms(2) x(2)] by simp
  ultimately show ?thesis unfolding held_back_def by blast
qed

end

section \<open>The loop from guacd, over the guacd stream\<close>

text \<open>C13: the loop from guacd reads one instruction after the other until a read fails or a message to
  the browser does; once a read fails it has come to its end. It relays faithfully: the messages it has sent are, byte for byte and in
  order, the instructions that these reads returned, but for the internal ones and \<open>server_info\<close>, up
  to what is left in its buffer. When it ended by a failed read, that is nothing, or less than
  \<open>MaxGuacMessage\<close> bytes that were held back because more was buffered after the last of these
  instructions; when it ended by a failed message, no message before that one failed. What
  was read is the next bytes guacd sent.\<close>

theorem guacdToWs_in_order:
  assumes "stream_ok s"
  shows "(\<forall>n xs t ins err t'. read_n ReadSome n s = Some (xs, t) \<and> ReadSome t = Some (Ret ins (Some err), t') \<longrightarrow>
      guacdToWs ReadSome Available fails ws ses 0 [] s w \<noteq> None) \<and>
    (\<forall>r buf' s' w'. guacdToWs ReadSome Available fails ws ses 0 [] s w = Some (r, buf', s', w') \<and> r \<noteq> Panic \<longrightarrow>
      r = Val () \<and> (\<exists>xs t es. read_n ReadSome (length xs) s = Some (xs, t) \<and> pending s = concat xs @ pending t \<and>
      trace w' = trace w @ es \<and> sent_to ws es @ buf' = concat (filter to_browser xs) \<and> (\<forall>i<sends ws es. \<not> fails i) \<and>
      ((\<exists>ins err. ReadSome t = Some (Ret ins (Some err), s')) \<and> held_back ReadSome Available s xs buf' \<or>
       s' = t \<and> fails (sends ws es))))"
proof (intro conjI allI impI, goal_cases)
  case 1
  then show ?case by (elim conjE) (rule guacdToWs_returns)
next
  case (2 r buf' s' w')
  then show ?case using guacd.relays [OF _ assms, of fails ws ses w r buf' s' w'] by simp
next
  case (3 r buf' s' w')
  then show ?case using guacd.relays [OF _ assms, of fails ws ses w r buf' s' w'] by simp
qed

text \<open>One round of the loop that keeps the instruction back.\<close>

lemma guacdToWs_kept:
  assumes "rd s = Some (Ret ins None, s1)" and "to_browser ins" and "av s1" and "length (buf @ ins) < MaxGuacMessage"
  shows "guacdToWs rd av fails ws ses k buf s w = guacdToWs rd av fails ws ses k (buf @ ins) s1 w"
  using assms by (subst guacdToWs.simps) (simp add: to_browser_def)

lemma guacdToWs_sent:
  assumes "rd s = Some (Ret ins None, s1)" and "to_browser ins" and "\<not> av s1" and "\<not> fails k"
  shows "guacdToWs rd av fails ws ses k buf s w =
    guacdToWs rd av fails ws ses (Suc k) [] s1 (emit [WsSend ws (buf @ ins)] w)"
  using assms by (subst guacdToWs.simps) (simp add: to_browser_def)

lemma guacdToWs_end:
  assumes "rd s = Some (Ret ins (Some e), s1)"
  shows "guacdToWs rd av fails ws ses k buf s w = Some (Val (), buf, s1, w)"
  using assms by (subst guacdToWs.simps) simp

lemma to_browser_nop: "to_browser (wire [nop_elem])"
  by (simp only: wire_nop) (simp add: to_browser_def internalOpcodeIns_def serverInfoIns_def)

lemma guacdToWs_in_order_witness:
  "\<exists>r buf' s' w'. guacdToWs ReadSome Available (\<lambda>k. False) 7 None 0 [] (demo_stream (wire [nop_elem] @ [])) demo_world =
       Some (r, buf', s', w') \<and> trace w' = [WsSend 7 (wire [nop_elem])] \<and>
     (\<exists>xs t ins err. read_n ReadSome (length xs) (demo_stream (wire [nop_elem] @ [])) = Some (xs, t) \<and>
       ReadSome t = Some (Ret ins (Some err), s') \<and> wire [nop_elem] @ buf' = concat (filter to_browser xs))"
proof -
  let ?s = "demo_stream (wire [nop_elem] @ [])" and ?w = "emit [WsSend 7 (wire [nop_elem])] demo_world"
  obtain s1 where s1: "ReadSome ?s = Some (Ret (wire [nop_elem]) None, s1)"
    "conn s1 = demo_conn []" "buffer s1 = []" "stream_ok s1" "parseStart s1 = 0" "stream_ok ?s"
    using demo_nop [of "[]"] by auto
  have "blen s1 < MaxGuacMessage" using length_buffer [OF s1(4)] s1(3) by (simp add: MaxGuacMessage_def)
  moreover have "scan (buffer s1) (parseStart s1) 0 (parseStart s1) = NeedMore 0" by (simp add: s1(3,5) scan_Nil)
  ultimately obtain e s2 where "ReadSome s1 = Some (Ret [] (Some e), s2)"
    using ReadSome_at_end [OF s1(4)] s1(2) by auto
  from guacdToWs_end [where rd = ReadSome, OF this]
  have "guacdToWs ReadSome Available (\<lambda>k. False) 7 None 1 [] s1 ?w = Some (Val (), [], s2, ?w)" .
  then have g: "guacdToWs ReadSome Available (\<lambda>k. False) 7 None 0 [] ?s demo_world = Some (Val (), [], s2, ?w)"
    using guacdToWs_sent [where rd = ReadSome, OF s1(1) to_browser_nop, of Available "\<lambda>k. False" 0 7 None "[]" demo_world]
      s1(3) by (simp add: Available_def)
  obtain xs t es ins err where x: "read_n ReadSome (length xs) ?s = Some (xs, t)" "trace ?w = trace demo_world @ es"
    "sent_to 7 es @ [] = concat (filter to_browser xs)" "ReadSome t = Some (Ret ins (Some err), s2)"
    using guacdToWs_in_order [OF s1(6), of "\<lambda>k. False" 7 None demo_world] g by blast
  have d: "trace demo_world = []" by (simp add: demo_world_def)
  with x(2) have "es = [WsSend 7 (wire [nop_elem])]" by simp
  with x(3) have "wire [nop_elem] @ [] = concat (filter to_browser xs)" by (simp del: wire.simps)
  moreover have "trace ?w = [WsSend 7 (wire [nop_elem])]" using d by (simp del: wire.simps)
  ultimately show ?thesis using g x(1,4) by blast
qed

text \<open>An instruction is held back while a part of the next one is buffered behind it; if guacd
  then closes the connection, the complete instruction is in the buffer and never reaches
  the browser (so an error instruction that is guacd's last can be lost).\<close>

theorem guacdToWs_drops_last:
  assumes "stream_ok s" and "\<not> conn_closed (conn s)" and "parseStart s = 0" and "incoming (conn s) = []"
    and "es \<noteq> []" and "\<forall>e \<in> set es. valid_elem e" and "buffer s = wire es @ rest" and "rest \<noteq> []"
    and "scan rest 0 0 0 = NeedMore j" and "length rest < MaxGuacMessage" and "length (wire es) < MaxGuacMessage"
    and "to_browser (wire es)"
  shows "\<exists>s'. guacdToWs ReadSome Available fails ws ses k [] s w = Some (Val (), wire es, s', w)"
proof -
  obtain s1 where s1: "ReadSome s = Some (Ret (wire es) None, s1)" "conn s1 = conn s" "buffer s1 = rest"
    "stream_ok s1" "parseStart s1 = 0"
    using ReadSome_in_buffer [OF assms(1-3,5-7)] by blast
  obtain e s2 where "ReadSome s1 = Some (Ret [] (Some e), s2)"
    using ReadSome_at_end [OF s1(4)] s1 assms(2,4,9,10) length_buffer [OF s1(4)] by metis
  from guacdToWs_end [where rd = ReadSome, OF this] guacdToWs_kept [where rd = ReadSome, OF s1(1) assms(12)]
  show ?thesis using assms(8,11) s1(3) by (simp add: Available_def)
qed

lemma guacdToWs_drops_last_witness:
  "\<exists>s'. guacdToWs ReadSome Available (\<lambda>k. False) 7 None 0 [] (demo_stream (wire [nop_elem] @ ''1'')) demo_world =
     Some (Val (), wire [nop_elem], s', demo_world)"
proof -
  have l: "length (wire [nop_elem] @ ''1'') \<le> MaxGuacMessage"
    by (simp only: length_append length_nop MaxGuacMessage_def) simp
  note d = demo_stream_simps [OF l]
  have o: "\<not> conn_closed (conn (demo_stream (wire [nop_elem] @ ''1'')))"
    "incoming (conn (demo_stream (wire [nop_elem] @ ''1''))) = []"
    unfolding d(4) by simp_all
  have s: "scan ''1'' 0 0 0 = NeedMore 0" using scan_digits [of "''1''" "[]" "[]" 0 0]
    by (simp add: is_digit_def) (subst scan.simps, simp)
  show ?thesis
    by (rule guacdToWs_drops_last [OF d(2) o(1) d(3) o(2) valid_nop d(1) _ s])
      (simp_all add: length_nop to_browser_nop MaxGuacMessage_def del: wire.simps)
qed

section \<open>The loop to guacd\<close>

text \<open>What a client may send to guacd, by the first instruction of the message.\<close>

definition permitted_message :: "RdpClient \<Rightarrow> byte list \<Rightarrow> bool" where
  "permitted_message c data \<longleftrightarrow>
     \<not> HasPrefix data internalOpcodeIns \<and> \<not> HasPrefix data appaegisCmdOpcodeIns \<and>
     (HasPrefix data sizeCmdOpcodeIns \<longrightarrow> Role c = ROLE_ADMIN) \<and>
     (HasPrefix data mouseCmdOpcodeIns \<longrightarrow> Mouse c) \<and> (HasPrefix data keyCmdOpcodeIns \<longrightarrow> Keyboard c)"

lemma ws_message_gate:
  assumes "\<not> HasPrefix data appaegisCmdOpcodeIns"
  shows "ws_message env a key data w = (Val (if permitted_message (client w a) data then Some data else None), w)"
  using assms by (auto simp: ws_message_def permitted_message_def)

lemma command_not_forwarded:
  assumes "HasPrefix data appaegisCmdOpcodeIns" and "ws_message env a key data w = (Val r, w')"
  shows "r = None"
  using assms by (auto simp: ws_message_def split: if_splits prod.splits outcome.splits)

lemma Stream_Write_open:
  assumes "\<not> conn_closed (conn s)" and "write_script (conn s) = []"
  shows "Stream_Write s d = (length d, None, s\<lparr>conn := (conn s)\<lparr>outgoing := outgoing (conn s) @ [d]\<rparr>\<rparr>)"
  using assms by (simp add: Stream_Write_def Conn_Write.simps)

text \<open>C12: while the browser sends no commands, guacd gets exactly the messages its client may send,
  unmodified and in order: never one that starts with an internal instruction, and one that
  starts with \<open>size\<close>, \<open>mouse\<close> or \<open>key\<close> only from the host, with the mouse, with the keyboard. The
  rooms and clients do not change.\<close>

theorem wsToGuacd_forwards_permitted:
  assumes "\<forall>data \<in> set msgs. \<not> HasPrefix data appaegisCmdOpcodeIns"
    and "\<not> conn_closed (conn guacd)" and "write_script (conn guacd) = []"
  shows "\<exists>guacd'. wsToGuacd env a key msgs guacd w = (Val (), guacd', w) \<and>
    outgoing (conn guacd') = outgoing (conn guacd) @ filter (permitted_message (client w a)) msgs"
  using assms
proof (induction msgs arbitrary: guacd)
  case (Cons data msgs)
  have c: "\<not> HasPrefix data appaegisCmdOpcodeIns" using Cons.prems(1) by simp
  show ?case
  proof (cases "permitted_message (client w a) data")
    case True
    let ?g = "guacd\<lparr>conn := (conn guacd)\<lparr>outgoing := outgoing (conn guacd) @ [data]\<rparr>\<rparr>"
    obtain g' where "wsToGuacd env a key msgs ?g w = (Val (), g', w)"
      "outgoing (conn g') = outgoing (conn ?g) @ filter (permitted_message (client w a)) msgs"
      using Cons.IH [of ?g] Cons.prems by auto
    with True show ?thesis
      by (simp add: ws_message_gate [OF c] Stream_Write_open [OF Cons.prems(2,3)])
  next
    case False
    with Cons.IH [OF _ Cons.prems(2,3)] Cons.prems(1) show ?thesis
      by (simp add: ws_message_gate [OF c])
  qed
qed simp

lemma wsToGuacd_forwards_permitted_witness:
  "\<exists>guacd'. wsToGuacd demo_env 1 ''s'' [''5.mouse,1.1,1.2;'', ''3.key,2.65,1.1;'', ''4.size,1.1,1.1;'', ''0.,1.x;'', ''4.sync,1.1;'']
     (NewStream (demo_conn []) 15) demo_world = (Val (), guacd', demo_world) \<and>
   outgoing (conn guacd') = [''3.key,2.65,1.1;'', ''4.sync,1.1;'']"
proof -
  let ?msgs = "[''5.mouse,1.1,1.2;'', ''3.key,2.65,1.1;'', ''4.size,1.1,1.1;'', ''0.,1.x;'', ''4.sync,1.1;'']"
  have f: "filter (permitted_message (client demo_world 1)) ?msgs = [''3.key,2.65,1.1;'', ''4.sync,1.1;'']"
    by (simp add: permitted_message_def internalOpcodeIns_def appaegisCmdOpcodeIns_def sizeCmdOpcodeIns_def
        mouseCmdOpcodeIns_def keyCmdOpcodeIns_def)
  have "\<forall>data \<in> set ?msgs. \<not> HasPrefix data appaegisCmdOpcodeIns"
    by (simp add: appaegisCmdOpcodeIns_def)
  from wsToGuacd_forwards_permitted [OF this, of "NewStream (demo_conn []) 15" demo_env 1 "''s''" demo_world]
  show ?thesis unfolding f by simp
qed

text \<open>Only the first instruction of a message is looked at: a viewer who may use neither the
  mouse nor the keyboard nor change the size sends any instructions whatever to guacd behind
  a harmless one, in one message.\<close>

theorem wsToGuacd_bypass:
  assumes "\<not> conn_closed (conn guacd)" and "write_script (conn guacd) = []"
  shows "\<exists>guacd'. wsToGuacd env a key [concat (map (\<lambda>(op, args). ins_bytes op args) ((''nop'', []) # rest))] guacd w =
      (Val (), guacd', w) \<and>
    outgoing (conn guacd') = outgoing (conn guacd) @ [ins_bytes ''nop'' [] @ concat (map (\<lambda>(op, args). ins_bytes op args) rest)]"
proof -
  let ?d = "ins_bytes ''nop'' [] @ concat (map (\<lambda>(op, args). ins_bytes op args) rest)"
  have n: "ins_bytes ''nop'' [] = ''3.nop;''" by code_simp
  have c: "\<not> HasPrefix ?d appaegisCmdOpcodeIns" and p: "permitted_message (client w a) ?d"
    by (simp_all add: n permitted_message_def internalOpcodeIns_def appaegisCmdOpcodeIns_def sizeCmdOpcodeIns_def
        mouseCmdOpcodeIns_def keyCmdOpcodeIns_def)
  from ws_message_gate [OF c, of env a key w] p have m: "ws_message env a key ?d w = (Val (Some ?d), w)" by simp
  have d: "concat (map (\<lambda>(op, args). ins_bytes op args) ((''nop'', []) # rest)) = ?d" by simp
  show ?thesis unfolding d
    by (simp only: wsToGuacd.simps m prod.case outcome.case option.case Stream_Write_open [OF assms(1,2)] Let_def)
      simp
qed

lemma wsToGuacd_bypass_witness:
  "\<exists>guacd'. wsToGuacd demo_env 1 ''s'' [concat (map (\<lambda>(op, args). ins_bytes op args) ((''nop'', []) # [(''mouse'', [''1'', ''2''])]))]
       (NewStream (demo_conn []) 15) demo_world = (Val (), guacd', demo_world) \<and>
     outgoing (conn guacd') = [''3.nop;5.mouse,1.1,1.2;''] \<and> \<not> Mouse (client demo_world 1)"
proof -
  have b: "ins_bytes ''nop'' [] @ concat (map (\<lambda>(op, args). ins_bytes op args) [(''mouse'', [''1'', ''2''])]) = ''3.nop;5.mouse,1.1,1.2;''"
    by code_simp
  have "\<not> conn_closed (conn (NewStream (demo_conn []) 15))" "write_script (conn (NewStream (demo_conn []) 15)) = []"
    by simp_all
  from wsToGuacd_bypass [OF this, of demo_env 1 "''s''" "[(''mouse'', [''1'', ''2''])]" demo_world, unfolded b]
  show ?thesis by (auto simp del: concat.simps list.map)
qed

section \<open>Commands\<close>

text \<open>The answer to an unknown operation.\<close>

definition ng_text :: string where
  "ng_text = [CHR ''{'', CHR 0x22] @ ''ng'' @ [CHR 0x22] @ '':1}''"

lemma handleAppaegisCommand_parsed:
  assumes "Parse cmd = Val ins"
  shows "handleAppaegisCommand env a cmd key w =
    (case session_of w key of
       None \<Rightarrow> (Val (), w)
     | Some p \<Rightarrow>
         if length (Args ins) < 2 then (Panic, w)
         else case map_of commands (Args ins ! 1) of
             None \<Rightarrow> (Val (), WriteMessage a (NewInstruction APPAEGIS_RESP_OP [Args ins ! 0, ng_text])
               (emit [LogAction (empty_action\<lparr>AppTag := ''guac.'' @ ToLower env (Args ins ! 1), act_Session := Some p,
                        UserEmail := Email (ses_at w p), act_ClientIP := ses_ClientIP (ses_at w p)\<rparr>)] w))
           | Some c \<Rightarrow>
               (case Command_Exec c env ins p a w of
                  (Val (Some i), w1) \<Rightarrow> (Val (), WriteMessage a i w1)
                | (Val None, w1) \<Rightarrow> (Val (), w1)
                | (Fail e, w1) \<Rightarrow> (Fail e, w1)
                | (Panic, w1) \<Rightarrow> (Panic, w1)))"
proof -
  have j: "json_enc (JObj [(''ng'', JInt 1)]) = ng_text"
    by code_simp
  show ?thesis
    using assms by (auto simp: handleAppaegisCommand_def GetCommandByOp_def j Let_def simp del: json_enc.simps
        split: option.split prod.split outcome.split)
qed

text \<open>A command whose instruction parses reaches a command's code only with a session in the
  store and at least two arguments: without the session it is ignored, with fewer arguments
  it panics (in a goroutine of its own, where nothing recovers), and with an unknown
  operation it is logged and answered with \<open>ng\<close>.\<close>

theorem handleAppaegisCommand_guards:
  assumes "Parse cmd = Val ins"
  shows "handleAppaegisCommand env a cmd key w =
    (case session_of w key of
       None \<Rightarrow> (Val (), w)
     | Some p \<Rightarrow>
         if length (Args ins) < 2 then (Panic, w)
         else case map_of commands (Args ins ! 1) of
             None \<Rightarrow> (Val (), WriteMessage a (NewInstruction APPAEGIS_RESP_OP [Args ins ! 0, ng_text])
               (emit [LogAction (empty_action\<lparr>AppTag := ''guac.'' @ ToLower env (Args ins ! 1), act_Session := Some p,
                        UserEmail := Email (ses_at w p), act_ClientIP := ses_ClientIP (ses_at w p)\<rparr>)] w))
           | Some c \<Rightarrow>
               (case Command_Exec c env ins p a w of
                  (Val (Some i), w1) \<Rightarrow> (Val (), WriteMessage a i w1)
                | (Val None, w1) \<Rightarrow> (Val (), w1)
                | (Fail e, w1) \<Rightarrow> (Fail e, w1)
                | (Panic, w1) \<Rightarrow> (Panic, w1)))"
  using assms by (rule handleAppaegisCommand_parsed)

lemma handleAppaegisCommand_guards_witness:
  "fst (handleAppaegisCommand demo_env 1 (ins_bytes ''AACMD'' [''1'']) ''s'' demo_world) = Panic"
proof -
  have "Parse (ins_bytes ''AACMD'' [''1''] @ []) = Val (NewInstruction ''AACMD'' [''1''])"
    by (rule Parse_ins_bytes) (simp_all add: is_ascii_def)
  then have "Parse (ins_bytes ''AACMD'' [''1'']) = Val (NewInstruction ''AACMD'' [''1''])" by simp
  from handleAppaegisCommand_guards [OF this, of demo_env 1 "''s''" demo_world]
  show ?thesis by (simp add: NewInstruction_def)
qed

end
