(* ===== verification/Machine.thy ===== *)
theory Machine
  imports Main
begin

text \<open>
  State machines: the states a step relation reaches from its start states, and the
  contract that lifts an invariant of the steps to all of them.
\<close>

inductive reach :: "('s \<Rightarrow> bool) \<Rightarrow> ('s \<Rightarrow> 's \<Rightarrow> bool) \<Rightarrow> 's \<Rightarrow> bool" for start step where
  reach_start: "start s \<Longrightarrow> reach start step s"
| reach_step: "reach start step s \<Longrightarrow> step s t \<Longrightarrow> reach start step t"

locale invariant_machine =
  fixes start :: "'s \<Rightarrow> bool" and step :: "'s \<Rightarrow> 's \<Rightarrow> bool" and inv :: "'s \<Rightarrow> bool"
  assumes inv_start: "start s \<Longrightarrow> inv s"
    and inv_step: "inv s \<Longrightarrow> step s t \<Longrightarrow> inv t"
begin

lemma reach_inv: "reach start step s \<Longrightarrow> inv s"
  by (induction rule: reach.induct) (auto intro: inv_start inv_step)

lemma run_inv: "step\<^sup>*\<^sup>* s t \<Longrightarrow> inv s \<Longrightarrow> inv t"
  by (induction rule: rtranclp_induct) (auto intro: inv_step)

end

lemma reach_run: "reach start step s \<Longrightarrow> step\<^sup>*\<^sup>* s t \<Longrightarrow> reach start step t"
  by (rotate_tac, induction rule: rtranclp_induct) (auto intro: reach_step)

text \<open>A machine whose steps are simulated by those of a specification.\<close>

locale refinement =
  fixes start :: "'c \<Rightarrow> bool" and step :: "'c \<Rightarrow> 'c \<Rightarrow> bool" and inv :: "'c \<Rightarrow> bool"
    and spec_start :: "'a \<Rightarrow> bool" and spec_step :: "'a \<Rightarrow> 'a \<Rightarrow> bool" and abstr :: "'c \<Rightarrow> 'a"
  assumes machine: "invariant_machine start step inv"
    and abs_start: "start s \<Longrightarrow> spec_start (abstr s)"
    and abs_step: "inv s \<Longrightarrow> step s t \<Longrightarrow> abstr t = abstr s \<or> spec_step (abstr s) (abstr t)"
begin

lemma reach_abs: "reach start step s \<Longrightarrow> reach spec_start spec_step (abstr s)"
proof (induction rule: reach.induct)
  case (reach_step s t)
  then have "inv s" using invariant_machine.reach_inv [OF machine] by blast
  with abs_step reach_step show ?case by (metis reach.reach_step)
qed (auto intro: abs_start reach.reach_start)

end

end
