(* ===== verification/Gateway.thy ===== *)
theory Gateway
  imports WsProps Machine
begin

text \<open>
  The gateway as one machine: browsers open connections, send messages, guacd sends
  \<open>server_info\<close>, connections end, in any interleaving and with any answers from outside.
  Its reachable worlds keep the invariant of the rooms; who is in which room with which
  role is a machine of its own that the gateway refines.
\<close>

section \<open>Every step preserves the invariant\<close>

lemma WriteMessage_inv [simp]: "rooms_inv (WriteMessage a ins w) = rooms_inv w"
  and SendPermission_inv [simp]: "rooms_inv (SendPermission a w) = rooms_inv w"
  by (simp_all add: WriteMessage_def SendPermission_def Let_def)

lemma handleAppaegisCommand_inv:
  assumes "env_ok env" and "rooms_inv w"
  shows "rooms_inv (snd (handleAppaegisCommand env a cmd key w))"
proof -
  have "rooms_inv w1" if "Command_Exec c env ins p a w = (r, w1)" for c ins p r w1
    using Command_Exec_inv [OF assms, of c ins p a] that by simp
  then show ?thesis
    by (auto simp: handleAppaegisCommand_def Let_def assms(2)
        split: outcome.splits option.splits prod.splits)
qed

lemma ws_message_inv:
  assumes "env_ok env" and "rooms_inv w"
  shows "rooms_inv (snd (ws_message env a key data w))"
  using handleAppaegisCommand_inv [OF assms, of a data key]
  by (auto simp: ws_message_def assms(2) split: prod.splits outcome.splits)

lemma enter_room_inv:
  assumes "rooms_inv w"
  shows "rooms_inv (snd (enter_room env req ws target tunnel sharing w))"
proof -
  have n: "rooms_inv w2" if "NewRdpSessionRoom sid user ws cid share app info (emit es w) = (a, w2)"
    for sid user cid share app info es a w2
    using NewRdpSessionRoom_inv [of "emit es w", OF _ that] assms by simp
  have j: "rooms_inv w2" if "JoinRoom env sid user ws permissions w = (r, w2)" for sid user permissions r w2
    using JoinRoom_inv [OF assms, of env sid user ws permissions] that by simp
  show ?thesis
    by (auto simp: enter_room_def Let_def split: prod.splits outcome.splits option.splits dest: n j)
qed

text \<open>The callback that connects to guacd may store a session, and touches no room.\<close>

definition connect_ok :: "(world \<Rightarrow> (string, tunnel_info) outcome \<times> world) \<Rightarrow> bool" where
  "connect_ok connect \<longleftrightarrow> (\<forall>w. rdpRooms (snd (connect w)) = rdpRooms w \<and> clients (snd (connect w)) = clients w)"

lemma ws_open_inv:
  assumes "connect_ok connect" and "rooms_inv w"
  shows "rooms_inv (snd (ws_open env req ws connect w))"
proof -
  obtain r w1 where w1: "connect w = (r, w1)" by fastforce
  have c: "rooms_inv w1"
    using assms rooms_inv_cong [of w1 w] w1 unfolding connect_ok_def by (metis snd_conv)
  have e: "rooms_inv w2" if "enter_room env req ws target tunnel sharing w1 = (r, w2)" for target tunnel sharing r w2
    using enter_room_inv [OF c, of env req ws target tunnel sharing] that by simp
  show ?thesis
  proof (cases "share_target env req w")
    case (Some target)
    show ?thesis
    proof (cases r)
      case (Val tunnel)
      show ?thesis
      proof (cases "query_sharing env (appId req)")
        case sharing: (Some sharing)
        obtain q w2 where "enter_room env req ws target tunnel sharing w1 = (q, w2)" by fastforce
        with e [OF this] Some w1 Val sharing show ?thesis by (cases q) (simp_all add: ws_open_def)
      qed (simp add: ws_open_def Some w1 Val c)
    qed (simp_all add: ws_open_def Some w1 c)
  qed (simp add: ws_open_def assms(2))
qed

lemma ws_close_inv: "rooms_inv w \<Longrightarrow> rooms_inv (snd (ws_close env con w))"
proof -
  assume w: "rooms_inv w"
  let ?info = "tun_LoggingInfo (con_tunnel con)"
  obtain r w1 where l: "LeaveRoom env (con_ses con) (con_session con) (con_user con) (li_ClientIp ?info)
      (li_ClientPrivateIp ?info) w = (r, w1)" by fastforce
  with LeaveRoom_inv [OF w] have "rooms_inv w1" by (metis snd_conv)
  with l show ?thesis by (simp add: ws_close_def)
qed

lemma update_session_inv [simp]: "rooms_inv (update_session p s w) = rooms_inv w"
  by (rule rooms_inv_cong) (simp_all add: update_session_def)

lemma server_info_inv: "rooms_inv w \<Longrightarrow> rooms_inv (snd (server_info ses ins w))"
  by (simp add: server_info_def Let_def split: option.split)

section \<open>The machine\<close>

inductive gateway_step :: "world \<Rightarrow> world \<Rightarrow> bool" where
  browser_opens: "env_ok env \<Longrightarrow> connect_ok connect \<Longrightarrow> ws_open env req ws connect w = (r, w') \<Longrightarrow> gateway_step w w'"
| browser_sends: "env_ok env \<Longrightarrow> ws_message env a key data w = (r, w') \<Longrightarrow> gateway_step w w'"
| guacd_sends: "server_info ses ins w = (r, w') \<Longrightarrow> gateway_step w w'"
| connection_ends: "env_ok env \<Longrightarrow> ws_close env con w = (r, w') \<Longrightarrow> gateway_step w w'"

definition fresh_world :: "world \<Rightarrow> bool" where
  "fresh_world w \<longleftrightarrow> rdpRooms w = [] \<and> clients w = []"

interpretation gateway: invariant_machine fresh_world gateway_step rooms_inv
proof
  show "fresh_world w \<Longrightarrow> rooms_inv w" for w
    by (simp add: fresh_world_def rooms_inv_def GetRdpSessionRoom_def)
  show "rooms_inv w'" if "rooms_inv w" and "gateway_step w w'" for w w'
    using that(2,1)
  proof cases
    case (browser_opens env connect req ws r)
    with ws_open_inv [OF this(2) that(1), of env req ws] show ?thesis by simp
  next
    case (browser_sends env a key data r)
    with ws_message_inv [OF this(1) that(1), of a key data] show ?thesis by simp
  next
    case (guacd_sends ses ins r)
    with server_info_inv [OF that(1), of ses ins] show ?thesis by simp
  next
    case (connection_ends env con r)
    with ws_close_inv [OF that(1), of env con] show ?thesis by simp
  qed
qed

text \<open>C1: in every world the gateway reaches from an empty one, by any interleaving of browsers
  that connect, send and leave: a room is stored under its own session id and has at most
  four invitees; a client listed for a user is that user's, has one of the three roles, and
  is an administrator only if the user created the room; and no client is in two places.\<close>

theorem reachable_rooms:
  assumes "reach fresh_world gateway_step w"
    and "GetRdpSessionRoom w sid = Some r" and "map_of (Users r) user = Some a"
  shows "SessionId r = sid \<and> length (Invitees r) \<le> 4 \<and> a < length (clients w) \<and>
    UserId (client w a) = user \<and> Role (client w a) \<in> {ROLE_ADMIN, ROLE_CO_HOST, ROLE_VIEWER} \<and>
    (Role (client w a) = ROLE_ADMIN \<longrightarrow> user = Creator r) \<and>
    (\<forall>sid' r' user'. GetRdpSessionRoom w sid' = Some r' \<longrightarrow> map_of (Users r') user' = Some a \<longrightarrow> sid' = sid \<and> user' = user)"
proof -
  have i: "rooms_inv w" by (rule gateway.reach_inv [OF assms(1)])
  have "room_ok (clients w) sid r" by (rule rooms_inv_room [OF i assms(2)])
  with assms(3) have "SessionId r = sid" "length (Invitees r) \<le> 4" "member_ok (clients w) r user a"
    by (simp_all add: room_ok_def INVITEE_LIMIT_def)
  with rooms_inv_unique [OF i assms(2,3)] show ?thesis
    by (auto simp: member_ok_def client_def)
qed

lemma reachable_rooms_witness:
  "\<exists>w r a. reach fresh_world gateway_step w \<and> GetRdpSessionRoom w ''s'' = Some r \<and> map_of (Users r) ''host'' = Some a \<and>
     Role (client w a) = ROLE_ADMIN \<and> UserId (client w a) = ''host''"
proof -
  let ?req = "\<lparr>shareSessionId = [], userId = ''host'', appId = ''app'', clientIp = []\<rparr>"
  let ?connect = "\<lambda>w. (Val \<lparr>tun_UUID = ''s'', tun_ConnectionID = ''c'', tun_LoggingInfo = demo_info\<rparr>, w)"
  let ?w = "snd (ws_open demo_env ?req 10 ?connect empty_world)"
  have o: "gateway_step empty_world ?w"
    by (rule browser_opens [OF env_ok_demo _ prod.collapse [symmetric]]) (simp add: connect_ok_def)
  have r: "reach fresh_world gateway_step ?w"
    by (rule reach_step [of fresh_world gateway_step empty_world], rule reach_start)
      (simp_all add: fresh_world_def empty_world_def o [unfolded empty_world_def])
  have g: "GetRoomByAppIdAndCreator demo_env empty_world ''app'' ''host'' = None"
    by (simp add: GetRoomByAppIdAndCreator_def empty_world_def room_ids_def demo_env_def map_filter_simps)
  have q: "query_sharing demo_env ''app'' = Some True" by (simp add: query_sharing_def demo_env_def)
  have c: "clients empty_world = []" by (simp add: empty_world_def)
  define r0 where "r0 = the (GetRdpSessionRoom ?w ''s'')"
  have "GetRdpSessionRoom ?w ''s'' = Some r0" "map_of (Users r0) ''host'' = Some 0" "Role (client ?w 0) = ROLE_ADMIN"
    unfolding r0_def
    by (simp_all add: ws_open_def share_target_def g q enter_room_def NewRdpSessionRoom_def alloc_client_def Let_def
        SendPermission_def WriteMessage_def rooms.get_put client_def c)
  with reachable_rooms [OF r this(1,2)] r show ?thesis by blast
qed

end
