(* ===== verification/Locks.thy ===== *)
theory Locks
  imports Machine "HOL-Library.Word"
begin

text \<open>
  \<open>pkg/counted_lock.go\<close>: the lock of a tunnel's reader and writer, which counts the
  goroutines that hold it or wait for it in an \<open>int32\<close>. Its two fields, its atomic steps,
  the machine of the goroutines that use it the way the servers do (acquire, use,
  release), and the mutex it refines.
\<close>

section \<open>The lock\<close>

text \<open>\<open>core\<close> is a \<open>sync.Mutex\<close>: locked or not. \<open>Mutex_Lock\<close> blocks (\<open>None\<close>) while it is
  locked, and unlocking an unlocked one is a fatal error (\<open>None\<close> as well).\<close>

record CountedLock =
  core :: bool
  numLocks :: "32 word"

definition new_lock :: CountedLock where
  "new_lock = \<lparr>core = False, numLocks = 0\<rparr>"

definition AddInt32 :: "32 word \<Rightarrow> CountedLock \<Rightarrow> CountedLock" where
  "AddInt32 d l = l\<lparr>numLocks := numLocks l + d\<rparr>"

definition Mutex_Lock :: "CountedLock \<Rightarrow> CountedLock option" where
  "Mutex_Lock l = (if core l then None else Some (l\<lparr>core := True\<rparr>))"

definition Mutex_Unlock :: "CountedLock \<Rightarrow> CountedLock option" where
  "Mutex_Unlock l = (if core l then Some (l\<lparr>core := False\<rparr>) else None)"

text \<open>The two methods, run without an interruption by another goroutine.\<close>

definition Lock :: "CountedLock \<Rightarrow> CountedLock option" where
  "Lock l = Mutex_Lock (AddInt32 1 l)"

definition Unlock :: "CountedLock \<Rightarrow> CountedLock option" where
  "Unlock l = Mutex_Unlock (AddInt32 (- 1) l)"

definition HasQueued :: "CountedLock \<Rightarrow> bool" where
  "HasQueued l \<longleftrightarrow> 1 < sint (numLocks l)"

lemma Unlock_Lock: "Lock l = Some l' \<Longrightarrow> Unlock l' = Some l"
  by (auto simp: Lock_def Unlock_def Mutex_Lock_def Mutex_Unlock_def AddInt32_def split: if_splits)

section \<open>The goroutines\<close>

text \<open>
  \<open>Lock\<close> and \<open>Unlock\<close> take two atomic steps each. A goroutine is \<open>Queued\<close> between those
  of \<open>Lock\<close>, and \<open>Releasing\<close> between those of \<open>Unlock\<close>.
\<close>

datatype phase = Idle | Queued | Holding | Releasing

record lock_state =
  lock :: CountedLock
  phase_of :: "nat \<Rightarrow> phase"

definition goes :: "nat \<Rightarrow> phase \<Rightarrow> CountedLock \<Rightarrow> lock_state \<Rightarrow> lock_state" where
  "goes t p l s = s\<lparr>lock := l, phase_of := (phase_of s)(t := p)\<rparr>"

inductive lock_step :: "lock_state \<Rightarrow> lock_state \<Rightarrow> bool" where
  announce: "phase_of s t = Idle \<Longrightarrow> lock_step s (goes t Queued (AddInt32 1 (lock s)) s)"
| enter: "phase_of s t = Queued \<Longrightarrow> Mutex_Lock (lock s) = Some l \<Longrightarrow> lock_step s (goes t Holding l s)"
| withdraw: "phase_of s t = Holding \<Longrightarrow> lock_step s (goes t Releasing (AddInt32 (- 1) (lock s)) s)"
| leave: "phase_of s t = Releasing \<Longrightarrow> Mutex_Unlock (lock s) = Some l \<Longrightarrow> lock_step s (goes t Idle l s)"

definition lock_start :: "lock_state \<Rightarrow> bool" where
  "lock_start s \<longleftrightarrow> lock s = new_lock \<and> phase_of s = (\<lambda>_. Idle)"

text \<open>The goroutines the counter counts, and those that own the mutex.\<close>

definition counted :: "lock_state \<Rightarrow> nat set" where
  "counted s = {t. phase_of s t = Queued \<or> phase_of s t = Holding}"

definition owners :: "lock_state \<Rightarrow> nat set" where
  "owners s = {t. phase_of s t = Holding \<or> phase_of s t = Releasing}"

definition lock_inv :: "lock_state \<Rightarrow> bool" where
  "lock_inv s \<longleftrightarrow> finite (counted s) \<and> numLocks (lock s) = of_nat (card (counted s)) \<and>
     (\<exists>t. owners s \<subseteq> {t}) \<and> (core (lock s) \<longleftrightarrow> owners s \<noteq> {})"

lemma goes_simps [simp]:
  "lock (goes t p l s) = l" "phase_of (goes t p l s) = (phase_of s)(t := p)"
  by (simp_all add: goes_def)

lemma counted_goes:
  "counted (goes t p l s) = (if p = Queued \<or> p = Holding then insert t (counted s) else counted s - {t})"
  by (auto simp: counted_def)

lemma owners_goes:
  "owners (goes t p l s) = (if p = Holding \<or> p = Releasing then insert t (owners s) else owners s - {t})"
  by (auto simp: owners_def)

lemma counted_member [simp]: "t \<in> counted s \<longleftrightarrow> phase_of s t = Queued \<or> phase_of s t = Holding"
  by (simp add: counted_def)

lemma owners_member [simp]: "t \<in> owners s \<longleftrightarrow> phase_of s t = Holding \<or> phase_of s t = Releasing"
  by (simp add: owners_def)

lemma only_owner:
  assumes "lock_inv s" and "t \<in> owners s"
  shows "owners s = {t}"
proof -
  from assms(1) obtain u where "owners s \<subseteq> {u}" unfolding lock_inv_def by (elim conjE exE)
  with assms(2) show ?thesis by (metis empty_iff subset_singletonD singletonD)
qed

lemma lock_inv_step:
  assumes i: "lock_inv s" and "lock_step s s'"
  shows "lock_inv s'"
  using assms(2)
proof cases
  case (announce t)
  with i show ?thesis
    by (auto simp: lock_inv_def counted_goes owners_goes AddInt32_def)
next
  case (enter t l)
  then have o: "owners s = {}" and l: "l = (lock s)\<lparr>core := True\<rparr>"
    using i by (auto simp: lock_inv_def Mutex_Lock_def split: if_splits)
  have "counted s' = counted s" and "owners s' = {t}"
    using enter(1,2) by (auto simp: counted_goes owners_goes o)
  with i show ?thesis by (simp add: lock_inv_def enter(1) l)
next
  case (withdraw t)
  then have c: "t \<in> counted s" and "t \<in> owners s" by simp_all
  with i have o: "owners s = {t}" "finite (counted s)" "core (lock s)"
    using only_owner [OF i, of t] by (simp_all add: lock_inv_def)
  have "card (counted s) = Suc (card (counted s - {t}))"
    using c o(2) by (simp only: card_Suc_Diff1)
  then have "(of_nat (card (counted s)) :: 32 word) - 1 = of_nat (card (counted s - {t}))"
    by simp
  with withdraw(1) i o show ?thesis
    by (simp add: lock_inv_def counted_goes owners_goes AddInt32_def)
next
  case (leave t l)
  then have l: "l = (lock s)\<lparr>core := False\<rparr>" by (simp add: Mutex_Unlock_def split: if_splits)
  have o: "owners s = {t}" using leave(2) by (intro only_owner [OF i]) simp
  have "counted s - {t} = counted s" using leave(2) by auto
  with i show ?thesis by (simp add: lock_inv_def counted_goes owners_goes leave(1) l o)
qed

interpretation counted_lock: invariant_machine lock_start lock_step lock_inv
proof
  show "lock_start s \<Longrightarrow> lock_inv s" for s
    by (simp add: lock_start_def lock_inv_def counted_def owners_def new_lock_def)
qed (rule lock_inv_step)

section \<open>Refinement of a mutex\<close>

text \<open>The abstract lock: who holds it, and who asked for it.\<close>

record mutex =
  holder :: "nat option"
  asking :: "nat set"

inductive mutex_step :: "mutex \<Rightarrow> mutex \<Rightarrow> bool" where
  ask: "t \<notin> asking m \<Longrightarrow> holder m \<noteq> Some t \<Longrightarrow> mutex_step m (m\<lparr>asking := insert t (asking m)\<rparr>)"
| grant: "t \<in> asking m \<Longrightarrow> holder m = None \<Longrightarrow> mutex_step m \<lparr>holder = Some t, asking = asking m - {t}\<rparr>"
| free: "holder m = Some t \<Longrightarrow> mutex_step m (m\<lparr>holder := None\<rparr>)"

definition mutex_start :: "mutex \<Rightarrow> bool" where
  "mutex_start m \<longleftrightarrow> m = \<lparr>holder = None, asking = {}\<rparr>"

definition abs_lock :: "lock_state \<Rightarrow> mutex" where
  "abs_lock s =
     \<lparr>holder = (if owners s = {} then None else Some (Min (owners s))),
      asking = {t. phase_of s t = Queued}\<rparr>"

lemma abs_lock_step:
  assumes i: "lock_inv s" and "lock_step s s'"
  shows "abs_lock s' = abs_lock s \<or> mutex_step (abs_lock s) (abs_lock s')"
  using assms(2)
proof cases
  case (announce t)
  let ?m = "abs_lock s"
  have o: "owners s' = owners s" using announce by (auto simp: owners_goes)
  have "t \<notin> asking ?m" using announce by (simp add: abs_lock_def)
  moreover have "holder ?m \<noteq> Some t"
  proof
    assume "holder ?m = Some t"
    then have "owners s \<noteq> {}" "Min (owners s) = t" by (auto simp: abs_lock_def split: if_splits)
    moreover then obtain u where "u \<in> owners s" by blast
    ultimately have "t \<in> owners s" using only_owner [OF i] by fastforce
    then show False using announce by simp
  qed
  moreover have "abs_lock s' = ?m\<lparr>asking := insert t (asking ?m)\<rparr>"
    by (simp add: abs_lock_def o) (auto simp: announce)
  ultimately show ?thesis using mutex_step.ask by metis
next
  case (enter t l)
  then have o: "owners s = {}"
    using i by (auto simp: lock_inv_def Mutex_Lock_def split: if_splits)
  then have "owners s' = {t}" using enter by (auto simp: owners_goes)
  then have "abs_lock s' = \<lparr>holder = Some t, asking = asking (abs_lock s) - {t}\<rparr>"
    using enter by (auto simp: abs_lock_def)
  moreover have "t \<in> asking (abs_lock s)" "holder (abs_lock s) = None"
    using enter o by (simp_all add: abs_lock_def)
  ultimately show ?thesis using mutex_step.grant by metis
next
  case (withdraw t)
  then have "owners s' = owners s" by (auto simp: owners_goes)
  then show ?thesis using withdraw by (auto simp: abs_lock_def)
next
  case (leave t l)
  then have o: "owners s = {t}" by (intro only_owner [OF i]) simp
  then have "owners s' = {}" using leave by (auto simp: owners_goes)
  then have "abs_lock s' = (abs_lock s)\<lparr>holder := None\<rparr>" using leave by (auto simp: abs_lock_def)
  moreover have "holder (abs_lock s) = Some t" using o by (simp add: abs_lock_def)
  ultimately show ?thesis using mutex_step.free by metis
qed

interpretation counted_mutex: refinement lock_start lock_step lock_inv mutex_start mutex_step abs_lock
proof (rule refinement.intro)
  show "invariant_machine lock_start lock_step lock_inv" by (rule counted_lock.invariant_machine_axioms)
  show "lock_start s \<Longrightarrow> mutex_start (abs_lock s)" for s
    by (simp add: lock_start_def mutex_start_def abs_lock_def owners_def)
qed (rule abs_lock_step)

section \<open>What the servers rely on\<close>

lemma sint_count: "n < 2 ^ 31 \<Longrightarrow> sint (of_nat n :: 32 word) = int n"
proof -
  assume "n < 2 ^ 31"
  then have "int n < 2 ^ 31" by (metis of_nat_less_iff of_nat_numeral of_nat_power)
  then have "signed_take_bit 31 (int n) = int n" by (intro signed_take_bit_int_eq_self) simp_all
  then show ?thesis by (simp add: signed_of_nat)
qed

lemma HasQueued_count:
  "lock_inv s \<Longrightarrow> card (counted s) < 2 ^ 31 \<Longrightarrow> HasQueued (lock s) \<longleftrightarrow> 1 < card (counted s)"
  by (simp add: HasQueued_def lock_inv_def sint_count)

lemma others_counted:
  assumes "lock_inv s" and "phase_of s t = Holding"
  shows "1 < card (counted s) \<longleftrightarrow> (\<exists>u. phase_of s u = Queued)"
proof -
  have f: "finite (counted s)" using assms(1) by (simp add: lock_inv_def)
  have o: "owners s = {t}" using assms(2) by (intro only_owner [OF assms(1)]) simp
  have c: "counted s = insert t {u. phase_of s u = Queued}"
  proof (rule set_eqI)
    fix u
    have "phase_of s u = Holding \<Longrightarrow> u = t" using o owners_member [of u s] by blast
    with assms(2) show "u \<in> counted s \<longleftrightarrow> u \<in> insert t {u. phase_of s u = Queued}" by auto
  qed
  have "t \<notin> {u. phase_of s u = Queued}" using assms(2) by simp
  then have "card (counted s) = Suc (card {u. phase_of s u = Queued})" using c f by simp
  moreover have "0 < card {u. phase_of s u = Queued} \<longleftrightarrow> (\<exists>u. phase_of s u = Queued)"
    using c f by (auto simp: card_gt_0_iff)
  ultimately show ?thesis by simp
qed

text \<open>C37: while a goroutine holds the lock it is the only one that is past \<open>Lock\<close>, and as long
  as fewer than 2 to the 31 goroutines use the lock, \<open>HasQueued\<close> tells it exactly whether
  another one waits.\<close>

theorem HasQueued_iff_waiting:
  assumes "reach lock_start lock_step s" and "phase_of s t = Holding"
    and "card (counted s) < 2 ^ 31"
  shows "(\<forall>u. phase_of s u = Holding \<or> phase_of s u = Releasing \<longrightarrow> u = t) \<and>
    (HasQueued (lock s) \<longleftrightarrow> (\<exists>u. phase_of s u = Queued))"
proof -
  have i: "lock_inv s" by (rule counted_lock.reach_inv [OF assms(1)])
  have o: "owners s = {t}" using assms(2) by (intro only_owner [OF i]) simp
  have "u = t" if "phase_of s u = Holding \<or> phase_of s u = Releasing" for u
    using o owners_member [of u s] that by blast
  with HasQueued_count [OF i assms(3)] others_counted [OF i assms(2)] show ?thesis by blast
qed

text \<open>The owner can always go on until the lock is free, and then any waiting goroutine can enter.\<close>

lemma releasing_frees:
  assumes "lock_inv s" and "phase_of s t = Releasing"
  shows "\<exists>s'. lock_step s s' \<and> owners s' = {} \<and> asking (abs_lock s') = asking (abs_lock s)"
proof -
  have o: "owners s = {t}" using assms(2) by (intro only_owner [OF assms(1)]) simp
  with assms(1) have "core (lock s)" by (simp add: lock_inv_def)
  then obtain l where l: "Mutex_Unlock (lock s) = Some l" by (simp add: Mutex_Unlock_def)
  let ?s = "goes t Idle l s"
  have "owners ?s = {}" using o by (simp add: owners_goes)
  moreover have "asking (abs_lock ?s) = asking (abs_lock s)" using assms(2) by (auto simp: abs_lock_def)
  ultimately show ?thesis using leave [OF assms(2) l] by blast
qed

lemma lock_can_free:
  assumes i: "lock_inv s"
  shows "\<exists>s'. lock_step\<^sup>*\<^sup>* s s' \<and> owners s' = {} \<and> asking (abs_lock s') = asking (abs_lock s)"
proof (cases "owners s = {}")
  case False
  then obtain t where t: "phase_of s t = Holding \<or> phase_of s t = Releasing" by fastforce
  show ?thesis
  proof (cases "phase_of s t = Holding")
    case True
    let ?s = "goes t Releasing (AddInt32 (- 1) (lock s)) s"
    have st: "lock_step s ?s" by (rule withdraw [OF True])
    have a: "asking (abs_lock ?s) = asking (abs_lock s)" using True by (auto simp: abs_lock_def)
    from releasing_frees [OF lock_inv_step [OF i st], of t] obtain s'
      where "lock_step ?s s'" "owners s' = {}" "asking (abs_lock s') = asking (abs_lock ?s)" by auto
    with st a show ?thesis by (metis converse_rtranclp_into_rtranclp r_into_rtranclp)
  next
    case False
    with t releasing_frees [OF i, of t] show ?thesis by blast
  qed
qed auto

lemma queued_can_enter:
  assumes i: "lock_inv s" and "phase_of s t = Queued"
  shows "\<exists>s'. lock_step\<^sup>*\<^sup>* s s' \<and> holder (abs_lock s') = Some t \<and> asking (abs_lock s') = asking (abs_lock s) - {t}"
proof -
  from lock_can_free [OF i] obtain s1 where s1: "lock_step\<^sup>*\<^sup>* s s1" "owners s1 = {}"
    and a: "asking (abs_lock s1) = asking (abs_lock s)" by blast
  then have i1: "lock_inv s1" using counted_lock.run_inv i by blast
  have q: "phase_of s1 t = Queued" using a assms(2) by (auto simp: abs_lock_def)
  from i1 s1(2) obtain l where l: "Mutex_Lock (lock s1) = Some l" by (simp add: lock_inv_def Mutex_Lock_def)
  let ?s = "goes t Holding l s1"
  have "owners ?s = {t}" using s1(2) by (simp add: owners_goes)
  then have "holder (abs_lock ?s) = Some t" "asking (abs_lock ?s) = asking (abs_lock s1) - {t}"
    by (auto simp: abs_lock_def)
  with s1(1) enter [OF q l] a show ?thesis by (metis rtranclp.rtrancl_into_rtrancl)
qed

text \<open>One goroutine in the lock, another one waiting for it.\<close>

definition idle_state :: lock_state where
  "idle_state = \<lparr>lock = new_lock, phase_of = \<lambda>_. Idle\<rparr>"

definition busy_state :: lock_state where
  "busy_state = goes 8 Queued \<lparr>core = True, numLocks = 2\<rparr>
     (goes 7 Holding \<lparr>core = True, numLocks = 1\<rparr> (goes 7 Queued \<lparr>core = False, numLocks = 1\<rparr> idle_state))"

lemma reach_busy: "reach lock_start lock_step busy_state"
proof -
  let ?s1 = "goes 7 Queued \<lparr>core = False, numLocks = 1\<rparr> idle_state"
  let ?s2 = "goes 7 Holding \<lparr>core = True, numLocks = 1\<rparr> ?s1"
  have "reach lock_start lock_step idle_state"
    by (rule reach_start) (simp add: lock_start_def idle_state_def)
  moreover have "lock_step idle_state ?s1"
    using announce [of idle_state 7] by (simp add: idle_state_def AddInt32_def new_lock_def)
  ultimately have "reach lock_start lock_step ?s1" by (rule reach_step)
  moreover have "lock_step ?s1 ?s2"
    using enter [of ?s1 7] by (simp add: Mutex_Lock_def)
  ultimately have "reach lock_start lock_step ?s2" by (rule reach_step)
  moreover have "lock_step ?s2 busy_state"
    using announce [of ?s2 8] by (simp add: busy_state_def AddInt32_def idle_state_def)
  ultimately show ?thesis by (rule reach_step)
qed

lemma HasQueued_iff_waiting_witness:
  "phase_of busy_state 7 = Holding \<and> phase_of busy_state 8 = Queued \<and> HasQueued (lock busy_state)"
proof -
  have p: "phase_of busy_state 7 = Holding" "phase_of busy_state 8 = Queued"
    by (simp_all add: busy_state_def)
  have "counted busy_state = {7, 8}"
    by (auto simp: busy_state_def idle_state_def split: if_splits)
  then have "card (counted busy_state) < 2 ^ 31" by simp
  with HasQueued_iff_waiting [OF reach_busy p(1)] p show ?thesis by blast
qed

text \<open>C16: whatever the goroutines do with a \<open>CountedLock\<close>, an abstract mutex could have done: one
  holder at a time, granted only while nobody holds it and only to a goroutine that asked.
  And no goroutine that asked is stuck: from every reachable state there is a
  continuation in which it gets the lock while all the others still wait.\<close>

theorem lock_refines_mutex:
  assumes "reach lock_start lock_step s"
  shows "reach mutex_start mutex_step (abs_lock s) \<and>
    (phase_of s t = Queued \<longrightarrow>
       (\<exists>s'. lock_step\<^sup>*\<^sup>* s s' \<and> holder (abs_lock s') = Some t \<and> asking (abs_lock s') = asking (abs_lock s) - {t}))"
proof -
  have i: "lock_inv s" by (rule counted_lock.reach_inv [OF assms])
  have "\<exists>s'. lock_step\<^sup>*\<^sup>* s s' \<and> holder (abs_lock s') = Some t \<and> asking (abs_lock s') = asking (abs_lock s) - {t}"
    if "phase_of s t = Queued" by (rule queued_can_enter [OF i that])
  with counted_mutex.reach_abs [OF assms] show ?thesis by blast
qed

lemma lock_refines_mutex_witness:
  "reach mutex_start mutex_step \<lparr>holder = Some 7, asking = {8}\<rparr> \<and>
   (\<exists>s'. lock_step\<^sup>*\<^sup>* busy_state s' \<and> holder (abs_lock s') = Some 8)"
proof -
  have "owners busy_state = {7}" by (auto simp: busy_state_def idle_state_def split: if_splits)
  then have "abs_lock busy_state = \<lparr>holder = Some 7, asking = {8}\<rparr>"
    by (auto simp: abs_lock_def busy_state_def idle_state_def split: if_splits)
  moreover have "phase_of busy_state 8 = Queued" by (simp add: busy_state_def)
  ultimately show ?thesis using lock_refines_mutex [OF reach_busy, of 8] by auto
qed

end
