(* ===== verification/TunnelMap.thy ===== *)
theory TunnelMap
  imports World GuacStream Locks
begin

text \<open>
  \<open>pkg/tunnel.go\<close> and \<open>pkg/tunnel_map.go\<close>: the tunnel of an HTTP client, the map of the
  tunnels in use with the time of their last access, and the task that closes those
  nobody used. Go pointers are indices into the lists of tunnels and of handles; the map
  holds handles. \<open>now\<close> is the clock in nanoseconds.
\<close>

section \<open>Tunnels\<close>

record SimpleTunnel =
  stream :: Stream
  uuid :: string
  readerLock :: CountedLock
  writerLock :: CountedLock
  loggingInfo :: LoggingInfo

definition NewSimpleTunnel :: "Stream \<Rightarrow> string \<Rightarrow> LoggingInfo \<Rightarrow> SimpleTunnel" where
  "NewSimpleTunnel st u info =
     \<lparr>stream = st, uuid = u, readerLock = new_lock, writerLock = new_lock, loggingInfo = info\<rparr>"

text \<open>The lock operations block (\<open>None\<close>) while another goroutine holds the lock.\<close>

definition AcquireReader :: "SimpleTunnel \<Rightarrow> (Stream \<times> SimpleTunnel) option" where
  "AcquireReader t = map_option (\<lambda>l. (stream t, t\<lparr>readerLock := l\<rparr>)) (Lock (readerLock t))"

definition ReleaseReader :: "SimpleTunnel \<Rightarrow> SimpleTunnel option" where
  "ReleaseReader t = map_option (\<lambda>l. t\<lparr>readerLock := l\<rparr>) (Unlock (readerLock t))"

definition HasQueuedReaderThreads :: "SimpleTunnel \<Rightarrow> bool" where
  "HasQueuedReaderThreads t = HasQueued (readerLock t)"

definition AcquireWriter :: "SimpleTunnel \<Rightarrow> (Stream \<times> SimpleTunnel) option" where
  "AcquireWriter t = map_option (\<lambda>l. (stream t, t\<lparr>writerLock := l\<rparr>)) (Lock (writerLock t))"

definition ReleaseWriter :: "SimpleTunnel \<Rightarrow> SimpleTunnel option" where
  "ReleaseWriter t = map_option (\<lambda>l. t\<lparr>writerLock := l\<rparr>) (Unlock (writerLock t))"

definition HasQueuedWriterThreads :: "SimpleTunnel \<Rightarrow> bool" where
  "HasQueuedWriterThreads t = HasQueued (writerLock t)"

definition Tunnel_ConnectionID :: "SimpleTunnel \<Rightarrow> string" where
  "Tunnel_ConnectionID t = ConnectionID (stream t)"

definition GetUUID :: "SimpleTunnel \<Rightarrow> string" where
  "GetUUID t = uuid t"

definition GetLoggingInfo :: "SimpleTunnel \<Rightarrow> LoggingInfo" where
  "GetLoggingInfo t = loggingInfo t"

text \<open>Closing a connection a second time is an error of \<open>net.Conn\<close>.\<close>

definition SimpleTunnel_Close :: "SimpleTunnel \<Rightarrow> go_error option \<times> SimpleTunnel" where
  "SimpleTunnel_Close t =
     ((if conn_closed (conn (stream t)) then Some (Raw (conn_err_text closed_err)) else None),
      t\<lparr>stream := Stream_Close (stream t)\<rparr>)"

definition is_closed :: "SimpleTunnel \<Rightarrow> bool" where
  "is_closed t = conn_closed (conn (stream t))"

lemma is_closed_Close [simp]: "is_closed (snd (SimpleTunnel_Close t))"
  by (simp add: is_closed_def SimpleTunnel_Close_def Stream_Close_def)

section \<open>The map\<close>

record LastAccessedTunnel =
  Tunnel :: nat
  lastAccessedTime :: int

record http_world =
  tunnels :: "SimpleTunnel list"
  handles :: "LastAccessedTunnel list"
  tunnelMap :: "nat gomap"
  tunnelTimeout :: int
  ticking :: bool
  now :: int

definition TunnelTimeout :: int where
  "TunnelTimeout = 15 * 1000000000"

definition NewTunnelMap :: "int \<Rightarrow> http_world" where
  "NewTunnelMap t =
     \<lparr>tunnels = [], handles = [], tunnelMap = [], tunnelTimeout = TunnelTimeout, ticking = True, now = t\<rparr>"

definition NewLastAccessedTunnel :: "nat \<Rightarrow> http_world \<Rightarrow> LastAccessedTunnel" where
  "NewLastAccessedTunnel p w = \<lparr>Tunnel = p, lastAccessedTime = now w\<rparr>"

definition Access :: "nat \<Rightarrow> http_world \<Rightarrow> http_world" where
  "Access h w = w\<lparr>handles := (handles w)[h := (handles w ! h)\<lparr>lastAccessedTime := now w\<rparr>]\<rparr>"

definition GetLastAccessedTime :: "http_world \<Rightarrow> nat \<Rightarrow> int" where
  "GetLastAccessedTime w h = lastAccessedTime (handles w ! h)"

text \<open>\<open>Get\<close> reads the map under the read lock and accesses the tunnel after it.\<close>

definition TunnelMap_Get :: "string \<Rightarrow> http_world \<Rightarrow> nat option \<times> http_world" where
  "TunnelMap_Get u w =
     (case map_of (tunnelMap w) u of
        Some h \<Rightarrow> (Some h, Access h w)
      | None \<Rightarrow> (None, w))"

definition TunnelMap_Put :: "string \<Rightarrow> nat \<Rightarrow> http_world \<Rightarrow> http_world" where
  "TunnelMap_Put u p w =
     w\<lparr>handles := handles w @ [NewLastAccessedTunnel p w],
       tunnelMap := map_put u (length (handles w)) (tunnelMap w)\<rparr>"

definition TunnelMap_Remove :: "string \<Rightarrow> http_world \<Rightarrow> nat option \<times> http_world" where
  "TunnelMap_Remove u w =
     (case map_of (tunnelMap w) u of
        Some h \<Rightarrow> (Some h, w\<lparr>tunnelMap := map_del u (tunnelMap w)\<rparr>)
      | None \<Rightarrow> (None, w))"

definition Shutdown :: "http_world \<Rightarrow> http_world" where
  "Shutdown w = w\<lparr>ticking := False\<rparr>"

definition close_tunnel :: "nat \<Rightarrow> http_world \<Rightarrow> go_error option \<times> http_world" where
  "close_tunnel p w =
     (let (e, t) = SimpleTunnel_Close (tunnels w ! p) in (e, w\<lparr>tunnels := (tunnels w)[p := t]\<rparr>))"

section \<open>The timeout task\<close>

text \<open>
  \<open>tunnelTimeoutTaskRun\<close> looks for idle tunnels under the read lock, in the order the map
  is visited, and removes and closes them under the write lock: other operations can run
  between the two parts.
\<close>

definition removeIDs :: "(string list \<Rightarrow> string list) \<Rightarrow> int \<Rightarrow> http_world \<Rightarrow> (string \<times> nat) list" where
  "removeIDs visit timeLine w =
     [(u, h). u \<leftarrow> visit (map_keys (tunnelMap w)),
              h \<leftarrow> (case map_of (tunnelMap w) u of Some h \<Rightarrow> [h] | None \<Rightarrow> []),
              GetLastAccessedTime w h < timeLine]"

definition remove_expired :: "string \<times> nat \<Rightarrow> http_world \<Rightarrow> http_world" where
  "remove_expired = (\<lambda>(u, h) w.
     let w1 = w\<lparr>tunnelMap := map_del u (tunnelMap w)\<rparr>
     in snd (close_tunnel (Tunnel (handles w1 ! h)) w1))"

definition sweep :: "(string \<times> nat) list \<Rightarrow> http_world \<Rightarrow> http_world" where
  "sweep ids = fold remove_expired ids"

definition tunnelTimeoutTaskRun :: "(string list \<Rightarrow> string list) \<Rightarrow> http_world \<Rightarrow> http_world" where
  "tunnelTimeoutTaskRun visit w = sweep (removeIDs visit (now w - tunnelTimeout w) w) w"

text \<open>
  The goroutine of the task: for every value it receives, the time and whether the channel
  is still open; \<open>True\<close> when the loop has ended. After the given receives it waits.
\<close>

fun tunnelTimeoutTask :: "(string list \<Rightarrow> string list) \<Rightarrow> (int \<times> bool) list \<Rightarrow> http_world \<Rightarrow> bool \<times> http_world" where
  "tunnelTimeoutTask visit [] w = (False, w)"
| "tunnelTimeoutTask visit ((t, ok) # rs) w =
     (if \<not> ok then (True, w)
      else tunnelTimeoutTask visit rs (tunnelTimeoutTaskRun visit (w\<lparr>now := t\<rparr>)))"

section \<open>The map as a keyed store\<close>

lemma close_tunnel_fields [simp]:
  "handles (snd (close_tunnel p w)) = handles w" "tunnelMap (snd (close_tunnel p w)) = tunnelMap w"
  "tunnelTimeout (snd (close_tunnel p w)) = tunnelTimeout w" "now (snd (close_tunnel p w)) = now w"
  "tunnels (snd (close_tunnel p w)) = (tunnels w)[p := snd (SimpleTunnel_Close (tunnels w ! p))]"
  by (simp_all add: close_tunnel_def split: prod.split)

lemma Access_fields [simp]:
  "tunnels (Access h w) = tunnels w" "tunnelMap (Access h w) = tunnelMap w"
  "tunnelTimeout (Access h w) = tunnelTimeout w" "now (Access h w) = now w"
  "length (handles (Access h w)) = length (handles w)"
  by (simp_all add: Access_def)

lemma Access_handle: "h' \<noteq> h \<Longrightarrow> handles (Access h w) ! h' = handles w ! h'"
  by (simp add: Access_def)

lemma Access_Tunnel [simp]: "Tunnel (handles (Access h w) ! h') = Tunnel (handles w ! h')"
  by (cases "h' = h"; cases "h < length (handles w)") (simp_all add: Access_def list_update_beyond)

text \<open>The handles the map holds exist, and no two keys hold the same.\<close>

definition tmap_ok :: "http_world \<Rightarrow> bool" where
  "tmap_ok w \<longleftrightarrow> map_ok (tunnelMap w) \<and>
     (\<forall>u h. map_of (tunnelMap w) u = Some h \<longrightarrow> h < length (handles w)) \<and>
     (\<forall>u u' h. map_of (tunnelMap w) u = Some h \<longrightarrow> map_of (tunnelMap w) u' = Some h \<longrightarrow> u = u')"

lemma tmap_ok_New [simp]: "tmap_ok (NewTunnelMap t)"
  by (simp add: tmap_ok_def NewTunnelMap_def)

lemma tmap_ok_handle: "tmap_ok w \<Longrightarrow> map_of (tunnelMap w) u = Some h \<Longrightarrow> h < length (handles w)"
  and tmap_ok_inj: "tmap_ok w \<Longrightarrow> map_of (tunnelMap w) u = Some h \<Longrightarrow>
    map_of (tunnelMap w) u' = Some h \<Longrightarrow> u' = u"
  unfolding tmap_ok_def by blast+

lemma tmap_ok_Put: "tmap_ok w \<Longrightarrow> tmap_ok (TunnelMap_Put u p w)"
  by (auto simp: tmap_ok_def TunnelMap_Put_def go_map_simps gm.invar_put less_Suc_eq split: if_splits)

lemma tmap_ok_del: "tmap_ok w \<Longrightarrow> tunnelMap w' = map_del u (tunnelMap w) \<Longrightarrow>
    length (handles w') = length (handles w) \<Longrightarrow> tmap_ok w'"
  by (auto simp: tmap_ok_def go_map_simps gm.invar_del split: if_splits)

lemma tmap_ok_cong: "tunnelMap w' = tunnelMap w \<Longrightarrow> length (handles w') = length (handles w) \<Longrightarrow>
    tmap_ok w' = tmap_ok w"
  by (simp add: tmap_ok_def)

lemma tmap_ok_Access [simp]: "tmap_ok (Access h w) = tmap_ok w"
  by (rule tmap_ok_cong) simp_all

lemma tmap_ok_now [simp]: "tmap_ok (w\<lparr>now := t\<rparr>) = tmap_ok w"
  by (rule tmap_ok_cong) simp_all

lemma tmap_ok_Remove: "tmap_ok w \<Longrightarrow> tmap_ok (snd (TunnelMap_Remove u w))"
  by (auto simp: TunnelMap_Remove_def intro: tmap_ok_del split: option.split)

lemma tmap_ok_Get: "tmap_ok (snd (TunnelMap_Get u w)) = tmap_ok w"
  by (simp add: TunnelMap_Get_def split: option.split)

section \<open>The sweep\<close>

lemma remove_expired_fields [simp]:
  "tunnelMap (remove_expired x w) = map_del (fst x) (tunnelMap w)"
  "handles (remove_expired x w) = handles w" "now (remove_expired x w) = now w"
  "tunnelTimeout (remove_expired x w) = tunnelTimeout w"
  "tunnels (remove_expired x w) =
     (let p = Tunnel (handles w ! snd x) in (tunnels w)[p := snd (SimpleTunnel_Close (tunnels w ! p))])"
  by (simp_all add: remove_expired_def Let_def split: prod.split)

lemma sweep_Cons: "sweep (x # ids) w = sweep ids (remove_expired x w)"
  by (simp add: sweep_def)

lemma sweep_fields [simp]:
  "handles (sweep ids w) = handles w" "now (sweep ids w) = now w"
  "tunnelTimeout (sweep ids w) = tunnelTimeout w" "length (tunnels (sweep ids w)) = length (tunnels w)"
  by (induction ids arbitrary: w) (simp_all add: sweep_Cons Let_def, simp_all add: sweep_def)

lemma sweep_lookup:
  "map_of (tunnelMap (sweep ids w)) u = (if u \<in> fst ` set ids then None else map_of (tunnelMap w) u)"
  by (induction ids arbitrary: w) (auto simp: sweep_Cons go_map_simps, auto simp: sweep_def)

lemma tmap_ok_sweep: "tmap_ok w \<Longrightarrow> tmap_ok (sweep ids w)"
proof (induction ids arbitrary: w)
  case (Cons x ids)
  have "tmap_ok (remove_expired x w)" by (rule tmap_ok_del [OF Cons.prems]) simp_all
  from Cons.IH [OF this] show ?case by (simp add: sweep_Cons)
qed (simp add: sweep_def)

lemma sweep_other:
  "p \<notin> (\<lambda>x. Tunnel (handles w ! snd x)) ` set ids \<Longrightarrow> tunnels (sweep ids w) ! p = tunnels w ! p"
  by (induction ids arbitrary: w) (auto simp: sweep_Cons Let_def, auto simp: sweep_def)

lemma sweep_closed: "is_closed (tunnels w ! p) \<Longrightarrow> is_closed (tunnels (sweep ids w) ! p)"
proof (induction ids arbitrary: w)
  case (Cons x ids)
  have "is_closed (tunnels (remove_expired x w) ! p)"
    using Cons.prems
    by (cases "Tunnel (handles w ! snd x) = p"; cases "p < length (tunnels w)")
      (simp_all add: Let_def list_update_beyond)
  from Cons.IH [OF this] show ?case by (simp add: sweep_Cons)
qed (simp add: sweep_def)

lemma sweep_closes:
  "x \<in> set ids \<Longrightarrow> Tunnel (handles w ! snd x) < length (tunnels w) \<Longrightarrow>
     is_closed (tunnels (sweep ids w) ! Tunnel (handles w ! snd x))"
proof (induction ids arbitrary: w)
  case (Cons y ids)
  show ?case
  proof (cases "x = y")
    case True
    then have "is_closed (tunnels (remove_expired y w) ! Tunnel (handles w ! snd x))"
      using Cons.prems(2) by (simp add: Let_def)
    then show ?thesis unfolding sweep_Cons by (rule sweep_closed)
  next
    case False
    with Cons.prems have "x \<in> set ids" by simp
    with Cons.IH [of "remove_expired y w"] Cons.prems(2) show ?thesis
      by (simp add: sweep_Cons Let_def)
  qed
qed simp

lemma set_removeIDs:
  assumes "is_order visit"
  shows "set (removeIDs visit timeLine w) =
     {(u, h). map_of (tunnelMap w) u = Some h \<and> GetLastAccessedTime w h < timeLine}"
proof (rule set_eqI)
  fix x :: "string \<times> nat"
  obtain u h where x: "x = (u, h)" by (cases x)
  have "map_of (tunnelMap w) u = Some h \<Longrightarrow> u \<in> set (visit (map_keys (tunnelMap w)))"
    using assms map_key_mem [of "tunnelMap w" u h] by (simp only: order_set)
  then show "x \<in> set (removeIDs visit timeLine w) \<longleftrightarrow>
      x \<in> {(u, h). map_of (tunnelMap w) u = Some h \<and> GetLastAccessedTime w h < timeLine}"
    unfolding x removeIDs_def by (auto split: option.splits if_splits)
qed

lemma tmap_ok_run: "tmap_ok w \<Longrightarrow> tmap_ok (tunnelTimeoutTaskRun visit w)"
  by (simp add: tunnelTimeoutTaskRun_def tmap_ok_sweep)

section \<open>All interleavings\<close>

text \<open>
  The steps of the goroutines that share the map, each as long as a lock is held; the
  second component is what the task has found and not removed yet.
\<close>

inductive tmap_step ::
    "http_world \<times> (string \<times> nat) list option \<Rightarrow> http_world \<times> (string \<times> nat) list option \<Rightarrow> bool" where
  clock: "now w \<le> t \<Longrightarrow> tmap_step (w, ids) (w\<lparr>now := t\<rparr>, ids)"
| connected: "tmap_step (w, ids) (w\<lparr>tunnels := tunnels w @ [t]\<rparr>, ids)"
| relayed: "GetUUID t = GetUUID (tunnels w ! p) \<Longrightarrow> tmap_step (w, ids) (w\<lparr>tunnels := (tunnels w)[p := t]\<rparr>, ids)"
| put: "p < length (tunnels w) \<Longrightarrow> tmap_step (w, ids) (TunnelMap_Put u p w, ids)"
| access: "h < length (handles w) \<Longrightarrow> tmap_step (w, ids) (Access h w, ids)"
| remove: "tmap_step (w, ids) (snd (TunnelMap_Remove u w), ids)"
| find_idle: "is_order visit \<Longrightarrow>
    tmap_step (w, None) (w, Some (removeIDs visit (t - tunnelTimeout w) w))" if "t \<le> now w"
| remove_idle: "tmap_step (w, Some ids) (sweep ids w, None)"
| stop: "tmap_step (w, ids) (Shutdown w, ids)"

definition tmap_start :: "http_world \<times> (string \<times> nat) list option \<Rightarrow> bool" where
  "tmap_start s \<longleftrightarrow> (\<exists>t. s = (NewTunnelMap t, None))"

definition task_inv :: "http_world \<times> (string \<times> nat) list option \<Rightarrow> bool" where
  "task_inv s \<longleftrightarrow> tmap_ok (fst s) \<and> tunnelTimeout (fst s) = TunnelTimeout \<and>
     (\<forall>h<length (handles (fst s)). Tunnel (handles (fst s) ! h) < length (tunnels (fst s)))"

interpretation tmap: invariant_machine tmap_start tmap_step task_inv
proof
  show "tmap_start s \<Longrightarrow> task_inv s" for s
    by (auto simp: tmap_start_def task_inv_def NewTunnelMap_def tmap_ok_def)
  show "task_inv s'" if "task_inv s" and "tmap_step s s'" for s s'
    using that(2,1)
  proof cases
    case (connected w ids t)
    have "tmap_ok (w\<lparr>tunnels := tunnels w @ [t]\<rparr>) = tmap_ok w" by (rule tmap_ok_cong) simp_all
    with connected that(1) show ?thesis by (simp add: task_inv_def less_SucI)
  next
    case (relayed t w p ids)
    have "tmap_ok (w\<lparr>tunnels := (tunnels w)[p := t]\<rparr>) = tmap_ok w" by (rule tmap_ok_cong) simp_all
    with relayed that(1) show ?thesis by (simp add: task_inv_def)
  next
    case (put p w ids u)
    with tmap_ok_Put [of w u p] that(1) show ?thesis
      by (simp add: task_inv_def) (simp add: TunnelMap_Put_def NewLastAccessedTunnel_def nth_append less_Suc_eq)
  next
    case (remove w ids u)
    with tmap_ok_Remove [of w u] that(1) show ?thesis
      by (simp add: task_inv_def) (simp add: TunnelMap_Remove_def split: option.split)
  next
    case (stop w ids)
    have "tmap_ok (Shutdown w) = tmap_ok w" by (rule tmap_ok_cong) (simp_all add: Shutdown_def)
    with stop that(1) show ?thesis by (simp add: task_inv_def) (simp add: Shutdown_def)
  qed (simp_all add: task_inv_def tmap_ok_sweep)
qed

section \<open>When a tunnel times out\<close>

datatype tm_event = Ticked | Put_event string nat | Get_event string | Remove_event string

fun tm_apply :: "(string list \<Rightarrow> string list) \<Rightarrow> int \<times> tm_event \<Rightarrow> http_world \<Rightarrow> http_world" where
  "tm_apply visit (t, Ticked) w = snd (tunnelTimeoutTask visit [(t, True)] w)"
| "tm_apply visit (t, Put_event u p) w = TunnelMap_Put u p (w\<lparr>now := t\<rparr>)"
| "tm_apply visit (t, Get_event u) w = snd (TunnelMap_Get u (w\<lparr>now := t\<rparr>))"
| "tm_apply visit (t, Remove_event u) w = snd (TunnelMap_Remove u (w\<lparr>now := t\<rparr>))"

text \<open>An event that leaves the tunnel \<open>p\<close> under the key \<open>u\<close> alone.\<close>

fun quiet :: "string \<Rightarrow> nat \<Rightarrow> tm_event \<Rightarrow> bool" where
  "quiet u p Ticked = True"
| "quiet u p (Put_event v q) = (v \<noteq> u \<and> q \<noteq> p)"
| "quiet u p (Get_event v) = (v \<noteq> u)"
| "quiet u p (Remove_event v) = (v \<noteq> u)"

text \<open>The tunnel \<open>p\<close> is open under the key \<open>u\<close> only, and was last accessed at \<open>a\<close>.\<close>

definition idle_since :: "int \<Rightarrow> string \<Rightarrow> nat \<Rightarrow> http_world \<Rightarrow> bool" where
  "idle_since a u p w \<longleftrightarrow> tmap_ok w \<and> p < length (tunnels w) \<and> \<not> is_closed (tunnels w ! p) \<and>
     (\<exists>h. map_of (tunnelMap w) u = Some h \<and> handles w ! h = \<lparr>Tunnel = p, lastAccessedTime = a\<rparr>) \<and>
     (\<forall>v h. map_of (tunnelMap w) v = Some h \<longrightarrow> v \<noteq> u \<longrightarrow> Tunnel (handles w ! h) \<noteq> p)"

definition gone :: "string \<Rightarrow> nat \<Rightarrow> http_world \<Rightarrow> bool" where
  "gone u p w \<longleftrightarrow> map_of (tunnelMap w) u = None \<and> is_closed (tunnels w ! p)"

lemma tick_unfold: "tm_apply visit (t, Ticked) w =
    sweep (removeIDs visit (t - tunnelTimeout w) w) (w\<lparr>now := t\<rparr>)"
  by (simp add: tunnelTimeoutTaskRun_def removeIDs_def GetLastAccessedTime_def)

lemma tm_apply_timeout [simp]: "tunnelTimeout (tm_apply visit te w) = tunnelTimeout w"
  by (cases "(visit, te, w)" rule: tm_apply.cases)
    (simp_all add: tick_unfold TunnelMap_Put_def TunnelMap_Get_def TunnelMap_Remove_def
      del: tm_apply.simps(1) split: option.split)

lemma idle_tick_early:
  assumes v: "is_order visit" and i: "idle_since a u p w" and t: "t - tunnelTimeout w \<le> a"
  shows "idle_since a u p (tm_apply visit (t, Ticked) w)"
proof -
  let ?ids = "removeIDs visit (t - tunnelTimeout w) w" and ?w = "w\<lparr>now := t\<rparr>"
  from i obtain h where ok: "tmap_ok w" and h: "map_of (tunnelMap w) u = Some h"
    "handles w ! h = \<lparr>Tunnel = p, lastAccessedTime = a\<rparr>"
    and o: "\<And>v k. map_of (tunnelMap w) v = Some k \<Longrightarrow> v \<noteq> u \<Longrightarrow> Tunnel (handles w ! k) \<noteq> p"
    unfolding idle_since_def by (elim conjE exE) simp
  have u: "u \<notin> fst ` set ?ids"
    using t h by (auto simp: set_removeIDs [OF v] GetLastAccessedTime_def)
  have "p \<notin> (\<lambda>x. Tunnel (handles ?w ! snd x)) ` set ?ids"
  proof
    assume "p \<in> (\<lambda>x. Tunnel (handles ?w ! snd x)) ` set ?ids"
    then obtain v k where vk: "(v, k) \<in> set ?ids" "Tunnel (handles w ! k) = p" by auto
    then have "map_of (tunnelMap w) v = Some k" by (simp add: set_removeIDs [OF v])
    moreover have "v \<noteq> u" using vk(1) u by force
    ultimately show False using o vk(2) by blast
  qed
  then have p: "tunnels (sweep ?ids ?w) ! p = tunnels w ! p" using sweep_other by fastforce
  have "tmap_ok (sweep ?ids ?w)" using ok by (simp add: tmap_ok_sweep)
  with i h o u p show ?thesis
    unfolding tick_unfold idle_since_def by (auto simp: sweep_lookup)
qed

lemma idle_tick_late:
  assumes v: "is_order visit" and i: "idle_since a u p w" and t: "a < t - tunnelTimeout w"
  shows "gone u p (tm_apply visit (t, Ticked) w)"
proof -
  let ?ids = "removeIDs visit (t - tunnelTimeout w) w" and ?w = "w\<lparr>now := t\<rparr>"
  from i obtain h where h: "map_of (tunnelMap w) u = Some h"
    "handles w ! h = \<lparr>Tunnel = p, lastAccessedTime = a\<rparr>" and p: "p < length (tunnels w)"
    unfolding idle_since_def by (elim conjE exE) simp
  have x: "(u, h) \<in> set ?ids" using t h by (simp add: set_removeIDs [OF v] GetLastAccessedTime_def)
  with sweep_closes [OF x, of ?w] h p have "is_closed (tunnels (sweep ?ids ?w) ! p)" by simp
  moreover have "u \<in> fst ` set ?ids" using x by (metis fst_conv imageI)
  ultimately show ?thesis unfolding tick_unfold gone_def by (simp add: sweep_lookup)
qed

lemma idle_quiet:
  assumes "is_order visit" and "idle_since a u p w" and "quiet u p e"
    and "e = Ticked \<Longrightarrow> t - tunnelTimeout w \<le> a"
  shows "idle_since a u p (tm_apply visit (t, e) w)"
proof -
  from assms(2) obtain h where ok: "tmap_ok w" and h: "map_of (tunnelMap w) u = Some h" "h < length (handles w)"
    using tmap_ok_handle unfolding idle_since_def by (elim conjE exE) simp
  have n: "k \<noteq> h" if "map_of (tunnelMap w) v = Some k" "v \<noteq> u" for v k
    using tmap_ok_inj [OF ok h(1)] that by blast
  have l: "k < length (handles w)" if "map_of (tunnelMap w) v = Some k" for v k
    using tmap_ok_handle [OF ok that] .
  show ?thesis
  proof (cases e)
    case Ticked
    with assms idle_tick_early show ?thesis by blast
  next
    case (Put_event v q)
    have "tmap_ok (TunnelMap_Put v q (w\<lparr>now := t\<rparr>))" using ok by (simp add: tmap_ok_Put)
    with Put_event assms(2,3) h l show ?thesis
      by (auto simp: idle_since_def TunnelMap_Put_def NewLastAccessedTunnel_def go_map_simps nth_append
          split: if_splits)
  next
    case (Get_event v)
    then have "handles (snd (TunnelMap_Get v (w\<lparr>now := t\<rparr>))) ! h = handles w ! h"
      using n [of v] assms(3) by (auto simp: TunnelMap_Get_def Access_handle split: option.split)
    moreover have "tunnelMap (snd (TunnelMap_Get v (w\<lparr>now := t\<rparr>))) = tunnelMap w"
      "tunnels (snd (TunnelMap_Get v (w\<lparr>now := t\<rparr>))) = tunnels w"
      "Tunnel (handles (snd (TunnelMap_Get v (w\<lparr>now := t\<rparr>))) ! k) = Tunnel (handles w ! k)" for k
      by (simp_all add: TunnelMap_Get_def split: option.split)
    ultimately show ?thesis
      using assms(2) h Get_event tmap_ok_Get [of v "w\<lparr>now := t\<rparr>"] by (simp add: idle_since_def)
  next
    case (Remove_event v)
    have "tmap_ok (snd (TunnelMap_Remove v (w\<lparr>now := t\<rparr>)))" using ok by (simp add: tmap_ok_Remove)
    with Remove_event assms(2,3) show ?thesis
      by (auto simp: idle_since_def TunnelMap_Remove_def go_map_simps split: option.split)
  qed
qed

lemma gone_quiet: "gone u p w \<Longrightarrow> quiet u p e \<Longrightarrow> gone u p (tm_apply visit (t, e) w)"
proof (cases e)
  case Ticked
  then show "gone u p w \<Longrightarrow> ?thesis"
    by (simp only: tick_unfold) (simp add: gone_def sweep_lookup sweep_closed)
qed (auto simp: gone_def TunnelMap_Put_def TunnelMap_Get_def TunnelMap_Remove_def go_map_simps
    split: option.split)

lemma idle_run:
  assumes "is_order visit" and "idle_since a u p w" and "\<forall>(t, e)\<in>set es. quiet u p e"
  shows "(\<forall>t. (t, Ticked) \<in> set es \<longrightarrow> t - tunnelTimeout w \<le> a) \<and> idle_since a u p (fold (tm_apply visit) es w) \<or>
    (\<exists>t. (t, Ticked) \<in> set es \<and> a < t - tunnelTimeout w) \<and> gone u p (fold (tm_apply visit) es w)"
  using assms(2,3)
proof (induction es arbitrary: w)
  case (Cons te es)
  obtain t e where te: "te = (t, e)" by (cases te)
  have q: "quiet u p e" "\<forall>(t, e)\<in>set es. quiet u p e" using Cons.prems(2) te by auto
  have g: "gone u p (fold (tm_apply visit) es w')" if "gone u p w'" for w'
    using that q(2) by (induction es arbitrary: w') (auto simp: gone_quiet)
  show ?case
  proof (cases "e = Ticked \<and> a < t - tunnelTimeout w")
    case True
    with idle_tick_late [OF assms(1) Cons.prems(1), of t] g te show ?thesis by auto
  next
    case False
    then have "idle_since a u p (tm_apply visit (t, e) w)"
      by (intro idle_quiet [OF assms(1) Cons.prems(1) q(1)]) auto
    from Cons.IH [OF this q(2)] False te show ?thesis by auto
  qed
qed simp

text \<open>C18: a tunnel that nobody accesses after time \<open>a\<close> stays open and registered through every
  tick up to the timeout \<open>T\<close> after \<open>a\<close>, whatever happens to the other tunnels; and if the
  ticks come every \<open>T\<close>, it is removed and closed at the latest two timeouts after \<open>a\<close>, as
  the comment on \<open>TunnelTimeout\<close> says.\<close>

theorem tunnel_times_out:
  assumes "is_order visit" and "idle_since a u p w" and "tunnelTimeout w = T" and "0 < T"
    and "\<forall>(t, e)\<in>set es. quiet u p e"
  shows "((\<forall>t. (t, Ticked) \<in> set es \<longrightarrow> t \<le> a + T) \<longrightarrow> idle_since a u p (fold (tm_apply visit) es w)) \<and>
    ((\<forall>k. a < s + k * T \<and> s + k * T \<le> a + 2 * T \<longrightarrow> (s + k * T, Ticked) \<in> set es) \<longrightarrow>
       gone u p (fold (tm_apply visit) es w))"
proof -
  define k r where "k = (a + T - s) div T + 1" and "r = (a + T - s) mod T"
  have "s + k * T = a + 2 * T - r"
    using div_mult_mod_eq [of "a + T - s" T] unfolding k_def r_def distrib_right by linarith
  then have "a + T < s + k * T" "s + k * T \<le> a + 2 * T"
    using assms(4) pos_mod_bound [of T "a + T - s"] pos_mod_sign [of T "a + T - s"] by (simp_all add: r_def)
  then have "\<exists>t. (t, Ticked) \<in> set es \<and> a < t - T"
    if "\<forall>k. a < s + k * T \<and> s + k * T \<le> a + 2 * T \<longrightarrow> (s + k * T, Ticked) \<in> set es"
    using that assms(4) by (intro exI [of _ "s + k * T"]) auto
  with idle_run [OF assms(1,2,5)] assms(3) show ?thesis by (smt (verit, best))
qed

text \<open>A tunnel put under \<open>u\<close> at time 0, another one used in between, and two ticks.\<close>

definition demo_tunnel :: SimpleTunnel where
  "demo_tunnel = NewSimpleTunnel (NewStream (demo_conn []) 15) ''u'' demo_info"

definition demo_http :: http_world where
  "demo_http = TunnelMap_Put ''v'' 1 (TunnelMap_Put ''u'' 0 ((NewTunnelMap 0)\<lparr>tunnels := [demo_tunnel, demo_tunnel]\<rparr>))"

lemma demo_http_fields:
  "tunnels demo_http = [demo_tunnel, demo_tunnel]" "tunnelMap demo_http = [(''u'', 0), (''v'', 1)]"
  "handles demo_http = [\<lparr>Tunnel = 0, lastAccessedTime = 0\<rparr>, \<lparr>Tunnel = 1, lastAccessedTime = 0\<rparr>]"
  "tunnelTimeout demo_http = TunnelTimeout" "now demo_http = 0"
  by (simp_all add: demo_http_def TunnelMap_Put_def NewTunnelMap_def NewLastAccessedTunnel_def)

lemma tmap_ok_demo: "tmap_ok demo_http"
  unfolding demo_http_def by (intro tmap_ok_Put) (simp add: tmap_ok_def NewTunnelMap_def)

lemma demo_tunnel_open [simp]: "is_closed demo_tunnel = False"
  by (simp add: is_closed_def demo_tunnel_def NewSimpleTunnel_def NewStream_def demo_conn_def)

lemma idle_demo: "idle_since 0 ''u'' 0 demo_http"
  using tmap_ok_demo by (auto simp: idle_since_def demo_http_fields)

lemma tunnel_times_out_witness:
  "gone ''u'' 0 (fold (tm_apply rev)
     [(15 * 1000000000, Ticked), (20 * 1000000000, Get_event ''v''), (30 * 1000000000, Ticked)] demo_http)"
proof -
  let ?es = "[(15 * 1000000000, Ticked), (20 * 1000000000, Get_event ''v''), (30 * 1000000000, Ticked)]"
  have k: "\<forall>k. 0 < 0 + k * TunnelTimeout \<and> 0 + k * TunnelTimeout \<le> 0 + 2 * TunnelTimeout \<longrightarrow>
      (0 + k * TunnelTimeout, Ticked) \<in> set ?es"
  proof (intro allI impI)
    fix k
    assume "0 < 0 + k * TunnelTimeout \<and> 0 + k * TunnelTimeout \<le> 0 + 2 * TunnelTimeout"
    then have "k = 1 \<or> k = 2" by (auto simp: TunnelTimeout_def)
    then show "(0 + k * TunnelTimeout, Ticked) \<in> set ?es" by (auto simp: TunnelTimeout_def)
  qed
  have "0 < TunnelTimeout" and q: "\<forall>(t, e)\<in>set ?es. quiet ''u'' 0 e" by (simp_all add: TunnelTimeout_def)
  from tunnel_times_out [OF is_order_rev idle_demo demo_http_fields(4) this, of 0] k show ?thesis by blast
qed

text \<open>A request can be given a tunnel that the timeout task is about to close: between the
  two parts of \<open>tunnelTimeoutTaskRun\<close> a \<open>Get\<close> finds an idle tunnel, renews its access time
  and returns it, and the task removes and closes it all the same.\<close>

theorem Get_during_timeout:
  assumes "is_order visit" and "tmap_ok w" and "map_of (tunnelMap w) u = Some h"
    and "Tunnel (handles w ! h) < length (tunnels w)"
    and "GetLastAccessedTime w h < now w - tunnelTimeout w"
  shows "\<exists>ids w1 w2. tmap_step (w, None) (w, Some ids) \<and> TunnelMap_Get u w = (Some h, w1) \<and>
    GetLastAccessedTime w1 h = now w \<and> tmap_step (w, Some ids) (w1, Some ids) \<and>
    tmap_step (w1, Some ids) (w2, None) \<and> map_of (tunnelMap w2) u = None \<and>
    is_closed (tunnels w2 ! Tunnel (handles w ! h))"
proof -
  define ids where "ids = removeIDs visit (now w - tunnelTimeout w) w"
  have h: "h < length (handles w)" by (rule tmap_ok_handle [OF assms(2,3)])
  have x: "(u, h) \<in> set ids" using assms(3,5) by (simp add: ids_def set_removeIDs [OF assms(1)])
  have "is_closed (tunnels (sweep ids (Access h w)) ! Tunnel (handles w ! h))"
    using sweep_closes [OF x, of "Access h w"] assms(4) by simp
  moreover have "map_of (tunnelMap (sweep ids (Access h w))) u = None"
    using x by (force simp: sweep_lookup)
  moreover have "TunnelMap_Get u w = (Some h, Access h w)" using assms(3) by (simp add: TunnelMap_Get_def)
  moreover have "GetLastAccessedTime (Access h w) h = now w"
    using h by (simp add: GetLastAccessedTime_def Access_def)
  moreover have "tmap_step (w, None) (w, Some ids)" unfolding ids_def by (rule find_idle) (simp_all add: assms(1))
  ultimately show ?thesis using access [OF h] remove_idle by blast
qed

lemma Get_during_timeout_witness:
  "\<exists>w1. TunnelMap_Get ''u'' (demo_http\<lparr>now := 15 * 1000000000 + 1\<rparr>) = (Some 0, w1)"
proof -
  let ?w = "demo_http\<lparr>now := 15 * 1000000000 + 1\<rparr>"
  have "tmap_ok ?w" "map_of (tunnelMap ?w) ''u'' = Some 0" "Tunnel (handles ?w ! 0) < length (tunnels ?w)"
    "GetLastAccessedTime ?w 0 < now ?w - tunnelTimeout ?w"
    by (simp_all add: tmap_ok_demo demo_http_fields GetLastAccessedTime_def TunnelTimeout_def)
  from Get_during_timeout [OF is_order_id this] show ?thesis by blast
qed

end
