(* ===== verification/HttpServer.thy ===== *)
theory HttpServer
  imports TunnelMap GoStrings
begin

text \<open>
  \<open>pkg/server.go\<close>: the HTTP tunnel. A client connects, then reads and writes by requests
  that name its tunnel. A handler is a function of the world of the tunnels, with the
  response it writes; what other goroutines do meanwhile is a parameter where the handler
  looks at it (the goroutines that queue for the reader).
\<close>

section \<open>Requests and responses\<close>

record request =
  RawQuery :: string
  Body :: "byte list list"
  Body_err :: "string option"

text \<open>
  An \<open>http.ResponseWriter\<close>: \<open>header\<close> is what \<open>Header()\<close> holds (a value is a joined list of
  texts, as in an error), \<open>sent\<close> the status and the headers that went out with the first write
  or flush, \<open>body\<close> what was written after them and \<open>write_errs\<close> how the coming writes
  fail. \<open>flusher\<close> tells whether it is an \<open>http.Flusher\<close> as well; \<open>status\<close> is the field that
  \<open>ResponseWriterWrapper\<close> (\<open>pkg/metrics.go\<close>) adds, the last code its \<open>WriteHeader\<close> was given.
\<close>

record response =
  flusher :: bool
  header :: "err_text list gomap"
  sent :: "(int \<times> err_text list gomap) option"
  body :: "byte list list"
  write_errs :: "string option list"
  status :: int

definition new_response :: "string option list \<Rightarrow> response" where
  "new_response errs = \<lparr>flusher = True, header = [], sent = None, body = [], write_errs = errs, status = 0\<rparr>"

definition Header_Set :: "string \<Rightarrow> err_text list \<Rightarrow> response \<Rightarrow> response" where
  "Header_Set k v r = r\<lparr>header := map_put k v (header r)\<rparr>"

text \<open>\<open>send_header\<close> is \<open>WriteHeader\<close> of \<open>net/http\<close>, which its \<open>Write\<close> and \<open>Flush\<close> use too.\<close>

definition send_header :: "int \<Rightarrow> response \<Rightarrow> response" where
  "send_header code r = (if sent r = None then r\<lparr>sent := Some (code, header r)\<rparr> else r)"

definition WriteHeader :: "int \<Rightarrow> response \<Rightarrow> response" where
  "WriteHeader code r = send_header code (r\<lparr>status := code\<rparr>)"

definition res_Write :: "byte list \<Rightarrow> response \<Rightarrow> string option \<times> response" where
  "res_Write data r =
     (let r1 = send_header 200 r
      in case write_errs r1 of
           Some e # es \<Rightarrow> (Some e, r1\<lparr>write_errs := es\<rparr>)
         | _ \<Rightarrow> (None, r1\<lparr>body := body r1 @ [data], write_errs := tl (write_errs r1)\<rparr>))"

definition res_Flush :: "response \<Rightarrow> response" where
  "res_Flush r = (if flusher r then send_header 200 r else r)"

definition sendError :: "Status \<Rightarrow> err_text list \<Rightarrow> response \<Rightarrow> response" where
  "sendError s message r =
     WriteHeader (GetHTTPStatusCode s)
       (Header_Set ''Guacamole-Error-Message'' message
         (Header_Set ''Guacamole-Status-Code'' [Txt (dec_int (GetGuacamoleStatusCode s))] r))"

section \<open>The tunnels of the server\<close>

definition registerTunnel :: "nat \<Rightarrow> http_world \<Rightarrow> http_world" where
  "registerTunnel p w = TunnelMap_Put (GetUUID (tunnels w ! p)) p w"

text \<open>\<open>tunnel\<close> is the handle \<open>h\<close>, whose methods are those of the tunnel in it.\<close>

definition tunnel_of :: "http_world \<Rightarrow> nat \<Rightarrow> SimpleTunnel" where
  "tunnel_of w h = tunnels w ! Tunnel (handles w ! h)"

definition set_tunnel :: "nat \<Rightarrow> SimpleTunnel \<Rightarrow> http_world \<Rightarrow> http_world" where
  "set_tunnel h t w = w\<lparr>tunnels := (tunnels w)[Tunnel (handles w ! h) := t]\<rparr>"

definition deregisterTunnel :: "nat \<Rightarrow> http_world \<Rightarrow> http_world" where
  "deregisterTunnel h w = snd (TunnelMap_Remove (GetUUID (tunnel_of w h)) w)"

definition close_handle :: "nat \<Rightarrow> http_world \<Rightarrow> go_error option \<times> http_world" where
  "close_handle h w = close_tunnel (Tunnel (handles w ! h)) w"

definition getTunnel :: "string \<Rightarrow> http_world \<Rightarrow> nat res \<times> http_world" where
  "getTunnel u w =
     (case TunnelMap_Get u w of
        (Some h, w1) \<Rightarrow> (Val h, w1)
      | (None, w1) \<Rightarrow> (Fail (NewError ErrResourceNotFound [Txt ''No such tunnel.'']), w1))"

definition terminate :: "nat \<Rightarrow> http_world \<Rightarrow> http_world" where
  "terminate h w = snd (close_handle h (deregisterTunnel h w))"

section \<open>Reading\<close>

definition end_marker :: "byte list" where "end_marker = ''0.;''"

text \<open>The end of \<open>writeSome\<close>.\<close>

definition write_end :: "response \<Rightarrow> unit res \<times> response" where
  "write_end r =
     (case res_Write end_marker r of
        (Some e, r1) \<Rightarrow> (Fail (Raw e), r1)
      | (None, r1) \<Rightarrow> (Val (), res_Flush r1))"

text \<open>
  \<open>writeSome\<close>: \<open>queue k\<close> is the number of goroutines that ask for the reader before the
  \<open>k\<close>-th test whether one is waiting.
\<close>

partial_function (option) writeSome ::
  "nat \<Rightarrow> (nat \<Rightarrow> nat) \<Rightarrow> nat \<Rightarrow> http_world \<Rightarrow> response \<Rightarrow> (unit res \<times> http_world \<times> response) option" where
  "writeSome h queue k w r =
     (case ReadSome (stream (tunnel_of w h)) of
        None \<Rightarrow> None
      | Some (RPanic, s) \<Rightarrow> Some (Panic, set_tunnel h ((tunnel_of w h)\<lparr>stream := s\<rparr>) w, r)
      | Some (Ret message (Some e), s) \<Rightarrow>
          Some (Fail e, terminate h (set_tunnel h ((tunnel_of w h)\<lparr>stream := s\<rparr>) w), r)
      | Some (Ret message None, s) \<Rightarrow>
          (let t = (tunnel_of w h)\<lparr>stream := s\<rparr>
           in if message = [] then Some (Val (), set_tunnel h t w, r)
              else case res_Write message r of
                     (Some e, r1) \<Rightarrow> Some (Fail (NewError ErrOther [Txt e]), set_tunnel h t w, r1)
                   | (None, r1) \<Rightarrow>
                       (let r2 = (if \<not> Available s then res_Flush r1 else r1);
                            t1 = t\<lparr>readerLock := AddInt32 (of_nat (queue k)) (readerLock t)\<rparr>;
                            w1 = set_tunnel h t1 w
                        in if HasQueuedReaderThreads t1
                           then (let (q, r3) = write_end r2 in Some (q, w1, r3))
                           else writeSome h queue (Suc k) w1 r2)))"

text \<open>\<open>doRead\<close>; \<open>None\<close> when it waits or reads for ever. The deferred release of the reader runs
  on every way out.\<close>

definition read_failed :: "nat \<Rightarrow> go_error \<Rightarrow> http_world \<Rightarrow> response \<Rightarrow> unit res \<times> http_world \<times> response" where
  "read_failed h e w r =
     (case error_kind e of
        None \<Rightarrow> (Panic, w, r)
      | Some kind \<Rightarrow>
          (Fail e, terminate h w,
           if kind = ErrConnectionClosed then res_Flush (snd (res_Write end_marker r)) else r))"

definition release_reader :: "nat \<Rightarrow> http_world \<Rightarrow> http_world" where
  "release_reader h w =
     (case ReleaseReader (tunnel_of w h) of Some t \<Rightarrow> set_tunnel h t w | None \<Rightarrow> w)"

definition doRead :: "string \<Rightarrow> (nat \<Rightarrow> nat) \<Rightarrow> http_world \<Rightarrow> response \<Rightarrow> (unit res \<times> http_world \<times> response) option" where
  "doRead u queue w r =
     (case getTunnel u w of
        (Fail e, w1) \<Rightarrow> Some (Fail e, w1, r)
      | (Panic, w1) \<Rightarrow> Some (Panic, w1, r)
      | (Val h, w1) \<Rightarrow>
          (case AcquireReader (tunnel_of w1 h) of
             None \<Rightarrow> None
           | Some (st, t) \<Rightarrow>
               let r1 = res_Flush (Header_Set ''Cache-Control'' [Txt ''no-cache'']
                          (Header_Set ''Content-Type'' [Txt ''application/octet-stream''] r))
               in case writeSome h queue 0 (set_tunnel h t w1) r1 of
                    None \<Rightarrow> None
                  | Some (q, w2, r2) \<Rightarrow>
                      let (q1, w3, r3) = (case q of Fail e \<Rightarrow> read_failed h e w2 r2 | _ \<Rightarrow> (q, w2, r2))
                      in Some (q1, release_reader h w3, r3)))"

section \<open>Writing\<close>

text \<open>\<open>io.Copy(writer, request.Body)\<close>, chunk by chunk.\<close>

fun io_Copy :: "byte list list \<Rightarrow> string option \<Rightarrow> Stream \<Rightarrow> go_error option \<times> Stream" where
  "io_Copy [] e s = (map_option Raw e, s)"
| "io_Copy (c # cs) e s =
     (let (n, we, s1) = Stream_Write s c
      in if we \<noteq> None then (we, s1)
         else if n \<noteq> length c then (Some (Raw ''short write''), s1)
         else io_Copy cs e s1)"

definition release_writer :: "nat \<Rightarrow> http_world \<Rightarrow> http_world" where
  "release_writer h w =
     (case ReleaseWriter (tunnel_of w h) of Some t \<Rightarrow> set_tunnel h t w | None \<Rightarrow> w)"

definition doWrite :: "request \<Rightarrow> string \<Rightarrow> http_world \<Rightarrow> response \<Rightarrow> (unit res \<times> http_world \<times> response) option" where
  "doWrite req u w r =
     (case getTunnel u w of
        (Fail e, w1) \<Rightarrow> Some (Fail e, w1, r)
      | (Panic, w1) \<Rightarrow> Some (Panic, w1, r)
      | (Val h, w1) \<Rightarrow>
          let r1 = Header_Set ''Content-Length'' [Txt ''0''] (Header_Set ''Cache-Control'' [Txt ''no-cache'']
                     (Header_Set ''Content-Type'' [Txt ''application/octet-stream''] r))
          in (case AcquireWriter (tunnel_of w1 h) of
                None \<Rightarrow> None
              | Some (st, t) \<Rightarrow>
                  let (err, s) = io_Copy (Body req) (Body_err req) st;
                      w2 = set_tunnel h (t\<lparr>stream := s\<rparr>) w1
                  in (case err of
                        None \<Rightarrow> Some (Val (), release_writer h w2, r1)
                      | Some e \<Rightarrow>
                          let (ce, w3) = close_handle h (deregisterTunnel h w2)
                          in Some (case ce of None \<Rightarrow> Val () | Some e \<Rightarrow> Fail e, release_writer h w3, r1))))"

section \<open>The handler\<close>

definition readPrefix :: string where "readPrefix = ''read:''"
definition writePrefix :: string where "writePrefix = ''write:''"
definition uuidLength :: nat where "uuidLength = 36"

text \<open>\<open>connect\<close> is the callback the server was made with.\<close>

definition http_connect :: "(string, SimpleTunnel) outcome \<Rightarrow> http_world \<Rightarrow> response \<Rightarrow> unit res \<times> http_world \<times> response" where
  "http_connect answer w r =
     (case answer of
        Panic \<Rightarrow> (Panic, w, r)
      | Fail e \<Rightarrow> (Fail (NewError ErrResourceNotFound [Txt ''No tunnel created.'', Txt e]), w, r)
      | Val t \<Rightarrow>
          let w1 = registerTunnel (length (tunnels w)) (w\<lparr>tunnels := tunnels w @ [t]\<rparr>)
          in (case res_Write (GetUUID t) (Header_Set ''Cache-Control'' [Txt ''no-cache''] r) of
                (Some e, r1) \<Rightarrow> (Fail (NewError ErrServer [Txt e]), w1, r1)
              | (None, r1) \<Rightarrow> (Val (), w1, r1)))"

definition handleTunnelRequestCore ::
  "(request \<Rightarrow> (string, SimpleTunnel) outcome) \<Rightarrow> (nat \<Rightarrow> nat) \<Rightarrow> request \<Rightarrow> http_world \<Rightarrow> response \<Rightarrow>
     (unit res \<times> http_world \<times> response) option" where
  "handleTunnelRequestCore connect queue req w r =
     (let query = RawQuery req
      in if query = [] then Some (Fail (NewError ErrClient [Txt ''No query string provided.'']), w, r)
         else if query = ''connect'' then Some (http_connect (connect req) w r)
         else if HasPrefix query readPrefix \<and> length readPrefix + uuidLength \<le> length query then
           doRead (take uuidLength (drop (length readPrefix) query)) queue w r
         else if HasPrefix query writePrefix \<and> length writePrefix + uuidLength \<le> length query then
           doWrite req (take uuidLength (drop (length writePrefix) query)) w r
         else Some (Fail (NewError ErrClient [Txt (''Invalid tunnel operation: '' @ query)]), w, r))"

text \<open>\<open>ServeHTTP\<close>: \<open>err.(*ErrGuac)\<close> panics when the error is of another type.\<close>

definition ServeHTTP ::
  "(request \<Rightarrow> (string, SimpleTunnel) outcome) \<Rightarrow> (nat \<Rightarrow> nat) \<Rightarrow> request \<Rightarrow> http_world \<Rightarrow> response \<Rightarrow>
     (unit res \<times> http_world \<times> response) option" where
  "ServeHTTP connect queue req w r =
     map_option (\<lambda>(q, w1, r1).
       case q of
         Fail (Guac e) \<Rightarrow>
           (Val (), w1, sendError (err_Status e)
              (if err_Kind e = ErrClient then err_args e else [Txt ''Internal server error.'']) r1)
       | Fail (Raw e) \<Rightarrow> (Panic, w1, r1)
       | _ \<Rightarrow> (q, w1, r1)) (handleTunnelRequestCore connect queue req w r)"

section \<open>With metrics (\<open>pkg/metrics.go\<close>)\<close>

text \<open>
  The program serves tunnels through \<open>GuacServerWrapper\<close>: the handler writes to a
  \<open>ResponseWriterWrapper\<close>, which passes writes on, keeps the code of \<open>WriteHeader\<close> and is no
  \<open>http.Flusher\<close>; afterwards its duration is observed and the request is counted with that
  code. \<open>Inc\<close> and \<open>Observe\<close> are what the counter and the histogram are given, by their labels; a
  duration is in nanoseconds, which the source divides into seconds as a \<open>float64\<close>.
\<close>

datatype metric = Observe "string list" int | Inc "string list"

definition ResponseWriterWrapper :: "string option list \<Rightarrow> response" where
  "ResponseWriterWrapper errs = (new_response errs)\<lparr>flusher := False, status := 0\<rparr>"

definition RecordHttpRequest :: "string \<Rightarrow> string \<Rightarrow> int \<Rightarrow> metric" where
  "RecordHttpRequest url m code = Inc [dec_int code, m, url]"

definition RecordHttpRequestDur :: "string \<Rightarrow> string \<Rightarrow> int \<Rightarrow> metric" where
  "RecordHttpRequestDur url m duration = Observe [url, m] duration"

text \<open>\<open>clock\<close> is what the clock shows before and after the request.\<close>

definition WithMetrics ::
  "(response \<Rightarrow> (unit res \<times> 'w \<times> response) option) \<Rightarrow> int \<times> int \<Rightarrow> string \<Rightarrow> string \<Rightarrow> string option list \<Rightarrow>
     (unit res \<times> 'w \<times> response \<times> metric list) option" where
  "WithMetrics fn clock path m errs =
     map_option (\<lambda>(q, w, r).
         (q, w, r, if q = Panic then []
           else [RecordHttpRequestDur path m (snd clock - fst clock), RecordHttpRequest path m (status r)]))
       (fn (ResponseWriterWrapper errs))"

definition GuacServerWrapper_ServeHTTP ::
  "(request \<Rightarrow> (string, SimpleTunnel) outcome) \<Rightarrow> (nat \<Rightarrow> nat) \<Rightarrow> request \<Rightarrow> int \<times> int \<Rightarrow> string \<Rightarrow> string \<Rightarrow>
     string option list \<Rightarrow> http_world \<Rightarrow> (unit res \<times> http_world \<times> response \<times> metric list) option" where
  "GuacServerWrapper_ServeHTTP connect queue req clock path m errs w =
     WithMetrics (ServeHTTP connect queue req w) clock path m errs"

end
