(* ===== verification/HttpProps.thy ===== *)
theory HttpProps
  imports HttpServer
begin

text \<open>
  What the HTTP tunnel of \<open>HttpServer\<close> guarantees: a connected client reaches its tunnel and no
  other, a reader gets what guacd sent, in order, and a tunnel whose reader failed is gone.
\<close>

section \<open>Tunnels behind handles\<close>

definition handle_ok :: "http_world \<Rightarrow> nat \<Rightarrow> bool" where
  "handle_ok w h \<longleftrightarrow> h < length (handles w) \<and> Tunnel (handles w ! h) < length (tunnels w)"

lemma set_tunnel_simps [simp]:
  "handles (set_tunnel h t w) = handles w" "tunnelMap (set_tunnel h t w) = tunnelMap w"
  "now (set_tunnel h t w) = now w" "handle_ok (set_tunnel h t w) k = handle_ok w k"
  "set_tunnel h t' (set_tunnel h t w) = set_tunnel h t' w"
  by (simp_all add: set_tunnel_def handle_ok_def)

lemma tunnel_of_set [simp]: "handle_ok w h \<Longrightarrow> tunnel_of (set_tunnel h t w) h = t"
  by (simp add: set_tunnel_def tunnel_of_def handle_ok_def)

lemma terminate_simps [simp]:
  "handles (terminate h w) = handles w" "handle_ok (terminate h w) k = handle_ok w k"
  by (simp_all add: terminate_def close_handle_def deregisterTunnel_def TunnelMap_Remove_def handle_ok_def
      split: option.split)

lemma tunnel_of_terminate [simp]:
  "handle_ok w h \<Longrightarrow> tunnel_of (terminate h w) h = snd (SimpleTunnel_Close (tunnel_of w h))"
  by (simp add: terminate_def close_handle_def deregisterTunnel_def TunnelMap_Remove_def handle_ok_def
      tunnel_of_def split: option.split)

lemma lookup_terminate:
  "map_of (tunnelMap (terminate h w)) u =
     (if u = GetUUID (tunnel_of w h) then None else map_of (tunnelMap w) u)"
  by (auto simp: terminate_def close_handle_def deregisterTunnel_def TunnelMap_Remove_def go_map_simps
      split: option.split)

lemma GetUUID_Close [simp]: "GetUUID (snd (SimpleTunnel_Close t)) = GetUUID t"
  by (simp add: SimpleTunnel_Close_def GetUUID_def)

section \<open>Responses\<close>

lemma sent_kept [simp]:
  assumes "sent r = Some y"
  shows "sent (send_header c r) = Some y" "sent (WriteHeader c r) = Some y" "sent (snd (res_Write d r)) = Some y"
    "sent (res_Flush r) = Some y" "sent (sendError st m r) = Some y"
  using assms by (simp_all add: WriteHeader_def send_header_def res_Write_def res_Flush_def sendError_def Header_Set_def
      Let_def split: list.split option.split)

lemma body_simps [simp]:
  "body (send_header c r) = body r" "body (WriteHeader c r) = body r" "body (res_Flush r) = body r" "body (Header_Set k v r) = body r"
  by (simp_all add: WriteHeader_def send_header_def res_Flush_def Header_Set_def)

lemma res_Write_body: "res_Write d r = (None, r') \<Longrightarrow> body r' = body r @ [d]"
  by (auto simp: res_Write_def Let_def split: list.splits option.splits)

lemma sent_write_end: "sent r = Some y \<Longrightarrow> sent (snd (write_end r)) = Some y"
  using sent_kept(3) [of r y end_marker]
  by (cases "res_Write end_marker r") (auto simp: write_end_def split: option.split)

section \<open>The loop of a reader\<close>

text \<open>
  From the world \<open>w\<close> and the response \<open>r\<close> to the result \<open>x\<close>: \<open>xs\<close> was read and written,
  \<open>rest\<close> read only.
\<close>

definition wrote :: "nat \<Rightarrow> http_world \<Rightarrow> response \<Rightarrow> unit res \<times> http_world \<times> response \<Rightarrow> bool" where
  "wrote h w r = (\<lambda>(q, w', r'). \<exists>t xs rest.
     uuid t = uuid (tunnel_of w h) \<and> core (readerLock t) = core (readerLock (tunnel_of w h)) \<and>
     pending (stream (tunnel_of w h)) = concat xs @ rest @ pending (stream t) \<and>
     (sent r \<noteq> None \<longrightarrow> sent r' = sent r) \<and>
     (w' = set_tunnel h t w \<or> (\<exists>e. q = Fail e) \<and> w' = terminate h (set_tunnel h t w)) \<and>
     (q = Val () \<longrightarrow> w' = set_tunnel h t w \<and> rest = [] \<and> body r' = body r @ xs @ [end_marker] \<and>
        HasQueuedReaderThreads t))"

lemma wrote_step:
  assumes "wrote h (set_tunnel h t w) r1 x" and "handle_ok w h"
    and "uuid t = uuid (tunnel_of w h)" and "core (readerLock t) = core (readerLock (tunnel_of w h))"
    and "pending (stream (tunnel_of w h)) = ins @ pending (stream t)"
    and "body r1 = body r @ [ins]" and "sent r \<noteq> None \<longrightarrow> sent r1 = sent r"
  shows "wrote h w r x"
proof -
  obtain q w' r' where x: "x = (q, w', r')" by (cases x)
  from assms(1) obtain t' xs rest where
    w: "uuid t' = uuid t" "core (readerLock t') = core (readerLock t)"
      "pending (stream t) = concat xs @ rest @ pending (stream t')"
      "sent r1 \<noteq> None \<longrightarrow> sent r' = sent r1"
      "w' = set_tunnel h t' w \<or> (\<exists>e. q = Fail e) \<and> w' = terminate h (set_tunnel h t' w)"
      "q = Val () \<longrightarrow> w' = set_tunnel h t' w \<and> rest = [] \<and> body r' = body r1 @ xs @ [end_marker] \<and>
        HasQueuedReaderThreads t'"
    unfolding x wrote_def using assms(2) by auto
  have "pending (stream (tunnel_of w h)) = concat (ins # xs) @ rest @ pending (stream t')"
    using w(3) assms(5) by simp
  moreover have "sent r \<noteq> None \<longrightarrow> sent r' = sent r" using w(4) assms(7) by metis
  moreover have "q = Val () \<longrightarrow> body r' = body r @ (ins # xs) @ [end_marker]" using w(6) assms(6) by simp
  ultimately show ?thesis
    unfolding x wrote_def prod.case using w(1,2,5,6) assms(3,4)
    by (intro exI [of _ t'] exI [of _ "ins # xs"] exI [of _ rest]) simp
qed

lemma writeSome_wrote:
  assumes "writeSome h queue k w r = Some x" and "handle_ok w h" and "stream_ok (stream (tunnel_of w h))"
    and "fst x \<noteq> Panic"
  shows "wrote h w r x"
proof -
  let ?P = "\<lambda>h (queue :: nat \<Rightarrow> nat) (k :: nat) w r (x :: unit res \<times> http_world \<times> response). handle_ok w h \<longrightarrow> stream_ok (stream (tunnel_of w h)) \<longrightarrow> fst x \<noteq> Panic \<longrightarrow> wrote h w r x"
  have "?P h queue k w r x"
  proof (rule writeSome.raw_induct [where P = ?P, OF _ assms(1)], intro impI)
    fix f h and queue :: "nat \<Rightarrow> nat" and k :: nat and w r and x :: "unit res \<times> http_world \<times> response"
    assume IH: "\<And>h (queue :: nat \<Rightarrow> nat) (k :: nat) w r x. f h queue k w r = Some x \<Longrightarrow> ?P h queue k w r x"
      and h: "handle_ok w h" and ok: "stream_ok (stream (tunnel_of w h))" and np: "fst x \<noteq> Panic"
    let ?t = "\<lambda>s. (tunnel_of w h)\<lparr>stream := s\<rparr>"
    let ?t1 = "\<lambda>s. (?t s)\<lparr>readerLock := AddInt32 (of_nat (queue k)) (readerLock (?t s))\<rparr>"
    assume eq: "(case ReadSome (stream (tunnel_of w h)) of
        None \<Rightarrow> None
      | Some (Ret message None, s) \<Rightarrow>
          (let t = ?t s
           in if message = [] then Some (Val (), set_tunnel h t w, r)
              else case res_Write message r of
                     (None, r1) \<Rightarrow>
                       (let r2 = (if \<not> Available s then res_Flush r1 else r1);
                            t1 = t\<lparr>readerLock := AddInt32 (of_nat (queue k)) (readerLock t)\<rparr>;
                            w1 = set_tunnel h t1 w
                        in if HasQueuedReaderThreads t1
                           then (let (q, r3) = write_end r2 in Some (q, w1, r3))
                           else f h queue (Suc k) w1 r2)
                   | (Some e, r1) \<Rightarrow> Some (Fail (NewError ErrOther [Txt e]), set_tunnel h t w, r1))
      | Some (Ret message (Some e), s) \<Rightarrow> Some (Fail e, terminate h (set_tunnel h (?t s) w), r)
      | Some (RPanic, s) \<Rightarrow> Some (Panic, set_tunnel h (?t s) w, r)) = Some x"
    from eq obtain y s where y: "ReadSome (stream (tunnel_of w h)) = Some (y, s)"
      by (cases "ReadSome (stream (tunnel_of w h))"; fastforce)
    from eq y np obtain ins e where r: "y = Ret ins e" by (cases y) auto
    have p: "stream_ok s" "pending (stream (tunnel_of w h)) = ins @ pending s"
      using guacd.read_ret [OF ok] y r by blast+
    note eq' = eq [unfolded y r option.case prod.case read_result.case]
    show "wrote h w r x"
    proof (cases e)
      case (Some err)
      with eq' have x: "x = (Fail err, terminate h (set_tunnel h (?t s) w), r)" by simp
      from p(2) show ?thesis unfolding wrote_def x prod.case
        by (intro exI [of _ "?t s"] exI [of _ "[]"] exI [of _ ins]) simp
    next
      case None
      then have n: "ins \<noteq> []" using guacd.read_some [OF ok] y r by blast
      obtain we r1 where w1: "res_Write ins r = (we, r1)" by fastforce
      then have sr1: "sent r \<noteq> None \<longrightarrow> sent r1 = sent r" using sent_kept(3) [of r _ ins] by auto
      show ?thesis
      proof (cases we)
        case (Some er)
        with eq' None n w1 have x: "x = (Fail (NewError ErrOther [Txt er]), set_tunnel h (?t s) w, r1)"
          by (simp add: Let_def)
        from p(2) sr1 show ?thesis unfolding wrote_def x prod.case
          by (intro exI [of _ "?t s"] exI [of _ "[]"] exI [of _ ins]) simp
      next
        case wn: None
        define r2 where "r2 = (if \<not> Available s then res_Flush r1 else r1)"
        have b2: "body r2 = body r @ [ins]" using res_Write_body [of ins r r1] w1 wn by (simp add: r2_def)
        have s2: "sent r \<noteq> None \<longrightarrow> sent r2 = sent r" using sr1 by (auto simp: r2_def)
        have t1: "uuid (?t1 s) = uuid (tunnel_of w h)" "stream (?t1 s) = s"
          "core (readerLock (?t1 s)) = core (readerLock (tunnel_of w h))" by (simp_all add: AddInt32_def)
        have eq'': "(if HasQueuedReaderThreads (?t1 s)
            then (let (q, r3) = write_end r2 in Some (q, set_tunnel h (?t1 s) w, r3))
            else f h queue (Suc k) (set_tunnel h (?t1 s) w) r2) = Some x"
          using eq' None n w1 wn unfolding r2_def by (simp add: Let_def)
        have "wrote h (set_tunnel h (?t1 s) w) r2 x"
        proof (cases "HasQueuedReaderThreads (?t1 s)")
          case True
          obtain q r3 where q: "write_end r2 = (q, r3)" by fastforce
          with eq'' True have x: "x = (q, set_tunnel h (?t1 s) w, r3)" by simp
          have "q = Val () \<longrightarrow> body r3 = body r2 @ [end_marker]"
            using q by (auto simp: write_end_def dest: res_Write_body split: prod.splits option.splits)
          moreover have "sent r2 \<noteq> None \<longrightarrow> sent r3 = sent r2" using sent_write_end [of r2] q by auto
          ultimately show ?thesis
            unfolding wrote_def x prod.case using h True
            by (intro exI [of _ "?t1 s"] exI [of _ "[]"]) simp
        next
          case False
          with eq'' have "f h queue (Suc k) (set_tunnel h (?t1 s) w) r2 = Some x" by simp
          from IH [OF this] h p(1) np show ?thesis by simp
        qed
        then show ?thesis by (rule wrote_step [OF _ h t1(1,3) _ b2 s2]) (simp add: p(2) t1)
      qed
    qed
  qed
  with assms(2-4) show ?thesis by blast
qed

section \<open>A read request\<close>

lemma tunnel_of_Access [simp]: "tunnel_of (Access h w) k = tunnel_of w k"
  and handle_ok_Access [simp]: "handle_ok (Access h w) k = handle_ok w k"
  by (simp_all add: tunnel_of_def handle_ok_def)

lemma getTunnel_found: "map_of (tunnelMap w) u = Some h \<Longrightarrow> getTunnel u w = (Val h, Access h w)"
  by (simp add: getTunnel_def TunnelMap_Get_def)

lemma getTunnel_missing:
  "map_of (tunnelMap w) u = None \<Longrightarrow>
     getTunnel u w = (Fail (NewError ErrResourceNotFound [Txt ''No such tunnel.'']), w)"
  by (simp add: getTunnel_def TunnelMap_Get_def)

definition stream_headers :: "err_text list gomap \<Rightarrow> err_text list gomap" where
  "stream_headers hs = map_put ''Cache-Control'' [Txt ''no-cache'']
     (map_put ''Content-Type'' [Txt ''application/octet-stream''] hs)"

lemma release_reader_held:
  assumes "handle_ok w h" and "core (readerLock (tunnel_of w h))"
  shows "\<exists>l. release_reader h w = set_tunnel h ((tunnel_of w h)\<lparr>readerLock := l\<rparr>) w \<and> \<not> core l"
  using assms unfolding release_reader_def ReleaseReader_def Unlock_def Mutex_Unlock_def AddInt32_def
  by (intro exI [of _ "(readerLock (tunnel_of w h))\<lparr>numLocks := numLocks (readerLock (tunnel_of w h)) - 1, core := False\<rparr>"])
    simp

lemma AcquireReader_Some:
  "AcquireReader t = Some (st, t') \<Longrightarrow> st = stream t \<and> stream t' = stream t \<and> uuid t' = uuid t \<and> core (readerLock t')"
  by (auto simp: AcquireReader_def Lock_def Mutex_Lock_def split: if_splits)

lemma doRead_runs:
  assumes "doRead u queue w r = Some (q, w', r')" and "map_of (tunnelMap w) u = Some h"
  obtains t q0 w2 r2 q1 w3 where "AcquireReader (tunnel_of w h) = Some (stream (tunnel_of w h), t)"
    and "writeSome h queue 0 (set_tunnel h t (Access h w))
           (res_Flush (r\<lparr>header := stream_headers (header r)\<rparr>)) = Some (q0, w2, r2)"
    and "(case q0 of Fail e \<Rightarrow> read_failed h e w2 r2 | _ \<Rightarrow> (q0, w2, r2)) = (q, w3, r')"
    and "w' = release_reader h w3"
  using assms AcquireReader_Some [of "tunnel_of w h"]
  by (simp add: doRead_def getTunnel_found Header_Set_def stream_headers_def Let_def
      split: option.splits prod.splits)

lemma flushed_headers:
  "flusher r \<Longrightarrow> sent r = None \<Longrightarrow> sent (res_Flush (r\<lparr>header := hs\<rparr>)) = Some (200, hs)"
  by (simp add: res_Flush_def WriteHeader_def send_header_def)

lemma doRead_wrote:
  assumes "doRead u queue w r = Some (q, w', r')" and "map_of (tunnelMap w) u = Some h"
    and "handle_ok w h" and "stream_ok (stream (tunnel_of w h))" and "q \<noteq> Panic"
  obtains t xs rest q0 w2 r2 w3 where "uuid t = uuid (tunnel_of w h)" and "core (readerLock t)"
    and "pending (stream (tunnel_of w h)) = concat xs @ rest @ pending (stream t)"
    and "flusher r \<longrightarrow> sent r = None \<longrightarrow> sent r2 = Some (200, stream_headers (header r))"
    and "w2 = set_tunnel h t (Access h w) \<or> (\<exists>e. q0 = Fail e) \<and> w2 = terminate h (set_tunnel h t (Access h w))"
    and "q0 = Val () \<longrightarrow> w2 = set_tunnel h t (Access h w) \<and> rest = [] \<and> body r2 = body r @ xs @ [end_marker]"
    and "(case q0 of Fail e \<Rightarrow> read_failed h e w2 r2 | _ \<Rightarrow> (q0, w2, r2)) = (q, w3, r')"
    and "w' = release_reader h w3"
proof -
  from doRead_runs [OF assms(1,2)] obtain t q0 w2 r2 w3
    where a: "AcquireReader (tunnel_of w h) = Some (stream (tunnel_of w h), t)"
    and s: "writeSome h queue 0 (set_tunnel h t (Access h w))
           (res_Flush (r\<lparr>header := stream_headers (header r)\<rparr>)) = Some (q0, w2, r2)"
    and q: "(case q0 of Fail e \<Rightarrow> read_failed h e w2 r2 | _ \<Rightarrow> (q0, w2, r2)) = (q, w3, r')"
    and w': "w' = release_reader h w3" .
  note t = AcquireReader_Some [OF a]
  have q0: "q0 \<noteq> Panic" using q assms(5) by auto
  have "wrote h (set_tunnel h t (Access h w)) (res_Flush (r\<lparr>header := stream_headers (header r)\<rparr>)) (q0, w2, r2)"
    using writeSome_wrote [OF s] assms(3,4) t q0 by simp
  then obtain t' xs rest where w: "uuid t' = uuid t" "core (readerLock t') = core (readerLock t)"
      "pending (stream t) = concat xs @ rest @ pending (stream t')"
      "sent (res_Flush (r\<lparr>header := stream_headers (header r)\<rparr>)) \<noteq> None \<longrightarrow>
         sent r2 = sent (res_Flush (r\<lparr>header := stream_headers (header r)\<rparr>))"
      "w2 = set_tunnel h t' (Access h w) \<or> (\<exists>e. q0 = Fail e) \<and> w2 = terminate h (set_tunnel h t' (Access h w))"
      "q0 = Val () \<longrightarrow> w2 = set_tunnel h t' (Access h w) \<and> rest = [] \<and> body r2 = body r @ xs @ [end_marker]"
    unfolding wrote_def using assms(3) by auto
  have "flusher r \<longrightarrow> sent r = None \<longrightarrow> sent r2 = Some (200, stream_headers (header r))"
    using w(4) flushed_headers [of r] by simp
  with w t q w' show ?thesis by (intro that [of t' xs rest r2 w2 q0 w3]) simp_all
qed

text \<open>C4: a read request that succeeds answers with instructions guacd sent: whole reads, in order,
  nothing lost, repeated or made up, and the end marker after them; the tunnel stays
  registered with the rest still to be read, and the reader is free again.\<close>

theorem doRead_in_order:
  assumes "doRead u queue w r = Some (Val (), w', r')" and "map_of (tunnelMap w) u = Some h"
    and "handle_ok w h" and "stream_ok (stream (tunnel_of w h))"
  shows "\<exists>xs. pending (stream (tunnel_of w h)) = concat xs @ pending (stream (tunnel_of w' h)) \<and>
    body r' = body r @ xs @ [''0.;''] \<and> map_of (tunnelMap w') u = Some h \<and>
    \<not> core (readerLock (tunnel_of w' h))"
proof -
  have "Val () \<noteq> (Panic :: unit res)" by simp
  from doRead_wrote [OF assms this] obtain t xs rest q0 w2 r2 w3 where
    t: "core (readerLock t)" "pending (stream (tunnel_of w h)) = concat xs @ rest @ pending (stream t)"
    and v: "q0 = Val () \<longrightarrow> w2 = set_tunnel h t (Access h w) \<and> rest = [] \<and> body r2 = body r @ xs @ [end_marker]"
    and q: "(case q0 of Fail e \<Rightarrow> read_failed h e w2 r2 | _ \<Rightarrow> (q0, w2, r2)) = (Val (), w3, r')"
    and w': "w' = release_reader h w3" by metis
  from q have "q0 = Val ()" and r': "r' = r2" and w3: "w3 = w2"
    by (auto simp: read_failed_def split: outcome.splits option.splits)
  with v have w2: "w2 = set_tunnel h t (Access h w)" and b: "rest = []" "body r' = body r @ xs @ [end_marker]" by auto
  obtain l where "w' = set_tunnel h (t\<lparr>readerLock := l\<rparr>) w2" "\<not> core l"
    using release_reader_held [of w2 h] w' w3 w2 assms(3) t(1) by auto
  with w2 b t(2) assms(2,3) show ?thesis by (auto simp: end_marker_def)
qed

text \<open>The status of the answer, unless one was sent before: 200 as soon as something was written.\<close>

lemma sent_res_Write: "sent r = None \<Longrightarrow> sent (snd (res_Write d r)) = Some (200, header r)"
  by (simp add: res_Write_def send_header_def Let_def split: list.split option.split)

lemma sent_read_failed:
  assumes "read_failed h e w r = (q, w', r')" and "q \<noteq> Panic"
  shows "sent r' = (if sent r = None \<and> error_kind e = Some ErrConnectionClosed then Some (200, header r) else sent r)"
proof (cases "sent r")
  case None
  with assms sent_kept(4) [OF sent_res_Write [OF None]] sent_res_Write [OF None] show ?thesis
    by (auto simp: read_failed_def split: option.splits if_splits)
next
  case (Some y)
  with assms sent_kept(4) [OF sent_kept(3) [OF Some]] show ?thesis
    by (auto simp: read_failed_def split: option.splits if_splits)
qed

lemma writeSome_first:
  assumes "writeSome h queue k w r = Some (Fail e, w', r')" and "handle_ok w h" and "stream_ok (stream (tunnel_of w h))"
    and "sent r = None"
  shows "sent r' = (if \<exists>ins s. ReadSome (stream (tunnel_of w h)) = Some (Ret ins None, s) then Some (200, header r) else None)"
proof -
  from assms(1) obtain y s where y: "ReadSome (stream (tunnel_of w h)) = Some (y, s)"
    by (subst (asm) writeSome.simps) (cases "ReadSome (stream (tunnel_of w h))"; fastforce)
  show ?thesis
  proof (cases "\<exists>ins. y = Ret ins None")
    case False
    with assms(1,4) y show ?thesis
      by (subst (asm) writeSome.simps) (auto split: read_result.splits option.splits)
  next
    case True
    then obtain ins where i: "y = Ret ins None" by blast
    then have n: "ins \<noteq> []" and p: "stream_ok s" using guacd.read_some [OF assms(3)] guacd.read_ret [OF assms(3)] y by blast+
    obtain we r1 where w1: "res_Write ins r = (we, r1)" by fastforce
    then have s1: "sent r1 = Some (200, header r)" using sent_res_Write [OF assms(4), of ins] by simp
    show ?thesis
    proof (cases we)
      case (Some e')
      with assms(1) y i n w1 s1 show ?thesis by (subst (asm) writeSome.simps) (simp add: Let_def)
    next
      case None
      define t1 where "t1 = (tunnel_of w h)\<lparr>stream := s, readerLock := AddInt32 (of_nat (queue k)) (readerLock (tunnel_of w h))\<rparr>"
      define r2 where "r2 = (if \<not> Available s then res_Flush r1 else r1)"
      have s2: "sent r2 = Some (200, header r)" using s1 by (simp add: r2_def)
      have "writeSome h queue k w r = (if HasQueuedReaderThreads t1
          then (let (q, r3) = write_end r2 in Some (q, set_tunnel h t1 w, r3))
          else writeSome h queue (Suc k) (set_tunnel h t1 w) r2)"
        using y i n w1 None by (subst writeSome.simps) (simp add: Let_def t1_def r2_def)
      with assms(1) have "(let (q, r3) = write_end r2 in Some (q, set_tunnel h t1 w, r3)) = Some (Fail e, w', r') \<or>
          writeSome h queue (Suc k) (set_tunnel h t1 w) r2 = Some (Fail e, w', r')" by (simp split: if_splits)
      then have "sent r' = sent r2"
      proof
        assume "(let (q, r3) = write_end r2 in Some (q, set_tunnel h t1 w, r3)) = Some (Fail e, w', r')"
        then show ?thesis using sent_write_end [OF s2] s2 by (auto simp: Let_def split: prod.splits)
      next
        assume "writeSome h queue (Suc k) (set_tunnel h t1 w) r2 = Some (Fail e, w', r')"
        from writeSome_wrote [OF this] have "wrote h (set_tunnel h t1 w) r2 (Fail e, w', r')"
          using assms(2) p by (simp add: t1_def)
        with s2 show ?thesis by (auto simp: wrote_def)
      qed
      with s2 y i show ?thesis by simp
    qed
  qed
qed

lemma writeSome_unsent:
  assumes "writeSome h queue k w r = Some (Fail e, w', r')" and "handle_ok w h" and "stream_ok (stream (tunnel_of w h))"
    and "sent r' = None"
  shows "header r' = header r"
proof -
  have "wrote h w r (Fail e, w', r')" using writeSome_wrote [OF assms(1-3)] by simp
  then have "sent r \<noteq> None \<longrightarrow> sent r' = sent r" unfolding wrote_def by blast
  with assms(4) have r: "sent r = None" by argo
  have "\<nexists>ins s. ReadSome (stream (tunnel_of w h)) = Some (Ret ins None, s)"
    using writeSome_first [OF assms(1-3) r] assms(4) by (auto split: if_splits)
  with assms(1) show ?thesis
    by (subst (asm) writeSome.simps) (auto split: read_result.splits option.splits)
qed

lemma sent_sendError:
  "map_option fst (sent (sendError st m r)) = Some (case sent r of Some (c, _) \<Rightarrow> c | None \<Rightarrow> GetHTTPStatusCode st)"
  by (simp add: sendError_def WriteHeader_def send_header_def Header_Set_def split: option.split)

text \<open>The status of a failed read request whose response had not begun.\<close>

definition began :: "SimpleTunnel \<Rightarrow> go_error \<Rightarrow> response \<Rightarrow> bool" where
  "began t e r \<longleftrightarrow> flusher r \<or> (\<exists>ins s. ReadSome (stream t) = Some (Ret ins None, s)) \<or> error_kind e = Some ErrConnectionClosed"

lemma doRead_sent:
  assumes "doRead u queue w r = Some (Fail e, w', r')" and "map_of (tunnelMap w) u = Some h"
    and "handle_ok w h" and "stream_ok (stream (tunnel_of w h))" and "sent r = None"
  shows "sent r' = (if began (tunnel_of w h) e r then Some (200, stream_headers (header r)) else None)"
proof -
  let ?r = "res_Flush (r\<lparr>header := stream_headers (header r)\<rparr>)"
  from doRead_runs [OF assms(1,2)] obtain t q0 w2 r2 w3
    where a: "AcquireReader (tunnel_of w h) = Some (stream (tunnel_of w h), t)"
    and s: "writeSome h queue 0 (set_tunnel h t (Access h w)) ?r = Some (q0, w2, r2)"
    and q: "(case q0 of Fail e \<Rightarrow> read_failed h e w2 r2 | _ \<Rightarrow> (q0, w2, r2)) = (Fail e, w3, r')" .
  note t = AcquireReader_Some [OF a]
  from q obtain e0 where q0: "q0 = Fail e0" by (cases q0) auto
  with q have f: "read_failed h e0 w2 r2 = (Fail e, w3, r')" by simp
  then have e: "e0 = e" by (auto simp: read_failed_def split: option.splits)
  have k: "handle_ok (set_tunnel h t (Access h w)) h" "stream (tunnel_of (set_tunnel h t (Access h w)) h) = stream (tunnel_of w h)"
    using assms(3) t by simp_all
  have fail: "(Fail e :: unit res) \<noteq> Panic" by simp
  show ?thesis
  proof (cases "flusher r")
    case True
    then have r: "sent ?r = Some (200, stream_headers (header r))" using flushed_headers assms(5) by blast
    have "wrote h (set_tunnel h t (Access h w)) ?r (q0, w2, r2)" using writeSome_wrote [OF s k(1)] k(2) assms(4) q0 by simp
    with r have "sent r2 = Some (200, stream_headers (header r))" by (auto simp: wrote_def)
    with sent_read_failed [OF f fail] True show ?thesis by (simp add: began_def)
  next
    case False
    then have r: "?r = r\<lparr>header := stream_headers (header r)\<rparr>" by (simp add: res_Flush_def)
    note s' = s [unfolded q0 r]
    have "sent r2 = (if \<exists>ins s. ReadSome (stream (tunnel_of w h)) = Some (Ret ins None, s)
        then Some (200, stream_headers (header r)) else None)"
      using writeSome_first [OF s' k(1)] k(2) assms(4,5) by simp
    moreover have "sent r2 = None \<Longrightarrow> header r2 = stream_headers (header r)"
      using writeSome_unsent [OF s' k(1)] k(2) assms(4) by simp
    ultimately show ?thesis using sent_read_failed [OF f fail] False e by (auto simp: began_def)
  qed
qed

text \<open>C19: a read request that fails leaves nothing behind: the tunnel is closed and no longer
  registered, so the next request for it finds no tunnel, and the reader is free. What status
  the error set afterwards still has depends on the response. It is lost, and the answer has
  status 200, when the response can be flushed, when a first read succeeded (even if its write
  failed) or when the end marker was written because the connection is closed. Otherwise,
  that is with the wrapped response of the program when the first read fails in another way, the answer has
  the status of the error.\<close>

theorem doRead_failure_closes:
  assumes "doRead u queue w r = Some (Fail e, w', r')" and "map_of (tunnelMap w) u = Some h"
    and "handle_ok w h" and "stream_ok (stream (tunnel_of w h))" and "GetUUID (tunnel_of w h) = u"
  shows "is_closed (tunnel_of w' h) \<and> fst (getTunnel u w') = Fail (NewError ErrResourceNotFound [Txt ''No such tunnel.'']) \<and>
    \<not> core (readerLock (tunnel_of w' h)) \<and>
    (sent r = None \<longrightarrow> (\<forall>st m. map_option fst (sent (sendError st m r')) = Some (
       if flusher r \<or> (\<exists>ins s. ReadSome (stream (tunnel_of w h)) = Some (Ret ins None, s)) \<or>
          error_kind e = Some ErrConnectionClosed then 200 else GetHTTPStatusCode st)))"
proof -
  have "Fail e \<noteq> (Panic :: unit res)" by simp
  from doRead_wrote [OF assms(1-4) this] obtain t xs rest q0 w2 r2 w3 where
    t: "uuid t = uuid (tunnel_of w h)" "core (readerLock t)"
    and w2: "w2 = set_tunnel h t (Access h w) \<or> (\<exists>e. q0 = Fail e) \<and> w2 = terminate h (set_tunnel h t (Access h w))"
    and q: "(case q0 of Fail e \<Rightarrow> read_failed h e w2 r2 | _ \<Rightarrow> (q0, w2, r2)) = (Fail e, w3, r')"
    and w': "w' = release_reader h w3" by metis
  from q have w3: "w3 = terminate h w2"
    by (auto simp: read_failed_def split: outcome.splits option.splits if_splits)
  have h: "handle_ok w2 h" using w2 assms(3) by auto
  have u: "GetUUID (tunnel_of w2 h) = u" "core (readerLock (tunnel_of w2 h))"
    using w2 t assms(3,5) by (auto simp: SimpleTunnel_Close_def GetUUID_def)
  obtain l where "w' = set_tunnel h ((tunnel_of w3 h)\<lparr>readerLock := l\<rparr>) w3" "\<not> core l"
    using release_reader_held [of w3 h] w' w3 h u(2) by (auto simp: SimpleTunnel_Close_def)
  moreover have "map_of (tunnelMap w3) u = None" using u(1) by (simp add: w3 lookup_terminate)
  moreover have "is_closed (tunnel_of w3 h)" using h by (simp add: w3)
  moreover have "map_option fst (sent (sendError st m r')) =
      Some (if began (tunnel_of w h) e r then 200 else GetHTTPStatusCode st)" if "sent r = None" for st m
    using doRead_sent [OF assms(1-4) that] by (simp add: sent_sendError split: if_splits)
  ultimately show ?thesis
    using h w3 by (auto simp: getTunnel_missing is_closed_def began_def)
qed

section \<open>A write request\<close>

lemma io_Copy_ok:
  "\<not> conn_closed (conn s) \<Longrightarrow> write_script (conn s) = [] \<Longrightarrow>
     io_Copy cs None s = (None, s\<lparr>conn := (conn s)\<lparr>outgoing := outgoing (conn s) @ cs\<rparr>\<rparr>)"
  by (induction cs arbitrary: s) (simp_all add: Stream_Write_def Conn_Write.simps)

lemma AcquireWriter_free:
  "\<not> core (writerLock t) \<Longrightarrow> \<exists>l. AcquireWriter t = Some (stream t, t\<lparr>writerLock := l\<rparr>) \<and> core l"
  by (simp add: AcquireWriter_def Lock_def Mutex_Lock_def AddInt32_def) (rule exI, rule conjI, rule refl, simp)

lemma release_writer_held:
  assumes "handle_ok w h" and "core (writerLock (tunnel_of w h))"
  shows "\<exists>l. release_writer h w = set_tunnel h ((tunnel_of w h)\<lparr>writerLock := l\<rparr>) w"
  using assms by (auto simp: release_writer_def ReleaseWriter_def Unlock_def Mutex_Unlock_def AddInt32_def)

definition write_headers :: "response \<Rightarrow> response" where
  "write_headers r = Header_Set ''Content-Length'' [Txt ''0''] (Header_Set ''Cache-Control'' [Txt ''no-cache'']
     (Header_Set ''Content-Type'' [Txt ''application/octet-stream''] r))"

lemma doWrite_found:
  assumes "map_of (tunnelMap w) u = Some h" and "AcquireWriter (tunnel_of w h) = Some (stream (tunnel_of w h), t)"
    and "io_Copy (Body req) (Body_err req) (stream (tunnel_of w h)) = (err, s)"
  shows "doWrite req u w r =
    (let w2 = set_tunnel h (t\<lparr>stream := s\<rparr>) (Access h w)
     in case err of
          None \<Rightarrow> Some (Val (), release_writer h w2, write_headers r)
        | Some e \<Rightarrow>
            (let (ce, w3) = close_handle h (deregisterTunnel h w2)
             in Some (case ce of None \<Rightarrow> Val () | Some e \<Rightarrow> Fail e, release_writer h w3, write_headers r)))"
  using assms by (cases err) (simp_all add: doWrite_def getTunnel_found write_headers_def Let_def)

text \<open>The request that reads or writes the tunnel \<open>u\<close>.\<close>

lemma handle_write:
  assumes "length u = uuidLength" and "RawQuery req = writePrefix @ u"
  shows "handleTunnelRequestCore connect queue req w r = doWrite req u w r"
  using assms by (simp add: handleTunnelRequestCore_def writePrefix_def readPrefix_def uuidLength_def)

lemma handle_read:
  assumes "length u = uuidLength" and "RawQuery req = readPrefix @ u"
  shows "handleTunnelRequestCore connect queue req w r = doRead u queue w r"
  using assms by (simp add: handleTunnelRequestCore_def writePrefix_def readPrefix_def uuidLength_def)

text \<open>C9: a client that connects is given the id of its own tunnel, and what it posts under this
  id is handed to guacd through that tunnel, whole and in order, while the tunnel stays
  registered.\<close>

theorem connect_then_write:
  assumes "connect req1 = Val t" and "RawQuery req1 = ''connect''" and "length (GetUUID t) = 36"
    and "\<not> is_closed t" and "write_script (conn (stream t)) = []" and "\<not> core (writerLock t)"
    and "RawQuery req2 = ''write:'' @ GetUUID t" and "Body_err req2 = None"
  shows "\<exists>w1 r1 w2 r2 h. ServeHTTP connect queue req1 w (new_response []) = Some (Val (), w1, r1) \<and>
    body r1 = [GetUUID t] \<and> map_option fst (sent r1) = Some 200 \<and>
    ServeHTTP connect queue req2 w1 (new_response []) = Some (Val (), w2, r2) \<and>
    body r2 = [] \<and> sent r2 = None \<and> map_of (tunnelMap w2) (GetUUID t) = Some h \<and>
    outgoing (conn (stream (tunnel_of w2 h))) = outgoing (conn (stream t)) @ Body req2"
proof -
  let ?p = "length (tunnels w)" and ?h = "length (handles w)"
  define w1 where "w1 = registerTunnel ?p (w\<lparr>tunnels := tunnels w @ [t]\<rparr>)"
  define r1 where "r1 = snd (res_Write (GetUUID t) (Header_Set ''Cache-Control'' [Txt ''no-cache''] (new_response [])))"
  have r1: "res_Write (GetUUID t) (Header_Set ''Cache-Control'' [Txt ''no-cache''] (new_response [])) = (None, r1)"
    "body r1 = [GetUUID t]" "map_option fst (sent r1) = Some 200"
    by (simp_all add: r1_def res_Write_def WriteHeader_def send_header_def Header_Set_def new_response_def Let_def)
  have s1: "ServeHTTP connect queue req1 w (new_response []) = Some (Val (), w1, r1)"
    unfolding ServeHTTP_def handleTunnelRequestCore_def http_connect_def
    by (simp add: assms(1,2) w1_def Let_def r1)
  have lk: "map_of (tunnelMap w1) (GetUUID t) = Some ?h" and ok: "handle_ok w1 ?h" and tw: "tunnel_of w1 ?h = t"
    by (simp_all add: w1_def registerTunnel_def TunnelMap_Put_def go_map_simps handle_ok_def tunnel_of_def
        NewLastAccessedTunnel_def)
  obtain l where l: "AcquireWriter t = Some (stream t, t\<lparr>writerLock := l\<rparr>)" "core l"
    using AcquireWriter_free [OF assms(6)] by blast
  define s where "s = (stream t)\<lparr>conn := (conn (stream t))\<lparr>outgoing := outgoing (conn (stream t)) @ Body req2\<rparr>\<rparr>"
  have c: "io_Copy (Body req2) (Body_err req2) (stream t) = (None, s)"
    using io_Copy_ok assms(4,5,8) by (simp add: is_closed_def s_def)
  define w2 where "w2 = set_tunnel ?h (t\<lparr>writerLock := l, stream := s\<rparr>) (Access ?h w1)"
  have d: "doWrite req2 (GetUUID t) w1 r = Some (Val (), release_writer ?h w2, write_headers r)" for r
    using doWrite_found [OF lk, of "t\<lparr>writerLock := l\<rparr>" req2] l(1) c by (simp add: tw w2_def)
  have s2: "ServeHTTP connect queue req2 w1 (new_response []) =
      Some (Val (), release_writer ?h w2, write_headers (new_response []))"
    using handle_write [of "GetUUID t" req2] assms(3,7) d
    by (simp add: ServeHTTP_def writePrefix_def uuidLength_def)
  have t2: "tunnel_of w2 ?h = t\<lparr>writerLock := l, stream := s\<rparr>" "handle_ok w2 ?h" using ok by (simp_all add: w2_def)
  then obtain l' where "release_writer ?h w2 = set_tunnel ?h (t\<lparr>stream := s, writerLock := l'\<rparr>) w2"
    using release_writer_held [of w2 ?h] l(2) by auto
  then have "map_of (tunnelMap (release_writer ?h w2)) (GetUUID t) = Some ?h"
    "outgoing (conn (stream (tunnel_of (release_writer ?h w2) ?h))) = outgoing (conn (stream t)) @ Body req2"
    using t2 lk by (simp_all add: w2_def s_def)
  moreover have "body (write_headers (new_response [])) = []" "sent (write_headers (new_response [])) = None"
    by (simp_all add: write_headers_def Header_Set_def new_response_def)
  ultimately show ?thesis using s1 r1(2,3) s2 by blast
qed

section \<open>Requests that are refused, and errors of other types\<close>

lemma operation_iff:
  "HasPrefix q p \<and> length p + n \<le> length q \<longleftrightarrow> (\<exists>v rest. length v = n \<and> q = p @ v @ rest)"
proof
  assume "HasPrefix q p \<and> length p + n \<le> length q"
  then obtain q' where q': "q = p @ q'" "n \<le> length q'" by (auto simp: HasPrefix_iff elim: prefixE)
  then show "\<exists>v rest. length v = n \<and> q = p @ v @ rest"
    by (intro exI [of _ "take n q'"] exI [of _ "drop n q'"]) simp
qed auto

definition names_tunnel :: "string \<Rightarrow> string \<Rightarrow> bool" where
  "names_tunnel q v \<longleftrightarrow> length v = uuidLength \<and> (\<exists>rest. q = readPrefix @ v @ rest \<or> q = writePrefix @ v @ rest)"

lemma refusal_codes: "dec_int (GetGuacamoleStatusCode ResourceNotFound) = ''516''"
    "dec_int (GetGuacamoleStatusCode ClientBadRequest) = ''768''"
  by code_simp+

lemma sendError_refusal:
  "sent (sendError ResourceNotFound m (new_response [])) =
     Some (404, [(''Guacamole-Status-Code'', [Txt ''516'']), (''Guacamole-Error-Message'', m)])"
  "sent (sendError ClientBadRequest m (new_response [])) =
     Some (400, [(''Guacamole-Status-Code'', [Txt ''768'']), (''Guacamole-Error-Message'', m)])"
  "body (sendError st m (new_response [])) = []"
  by (simp_all add: sendError_def refusal_codes)
    (simp_all add: Header_Set_def WriteHeader_def send_header_def new_response_def GetHTTPStatusCode_def newStatusData_def)

text \<open>A request without a known tunnel changes nothing: a read or write of a tunnel that is
  not registered is answered with 404 and the Guacamole code 516, anything that is neither
  \<open>connect\<close> nor names a tunnel with 400 and the code 768, and no body.\<close>

theorem ServeHTTP_refuses:
  assumes "RawQuery req \<noteq> ''connect''" and "\<forall>v. names_tunnel (RawQuery req) v \<longrightarrow> map_of (tunnelMap w) v = None"
  shows "\<exists>msg r'. ServeHTTP connect queue req w (new_response []) = Some (Val (), w, r') \<and> body r' = [] \<and>
    sent r' = (if \<exists>v. names_tunnel (RawQuery req) v
      then Some (404, [(''Guacamole-Status-Code'', [Txt ''516'']), (''Guacamole-Error-Message'', [Txt ''Internal server error.''])])
      else Some (400, [(''Guacamole-Status-Code'', [Txt ''768'']), (''Guacamole-Error-Message'', msg)]))"
proof -
  let ?q = "RawQuery req"
  let ?reads = "HasPrefix ?q readPrefix \<and> length readPrefix + uuidLength \<le> length ?q"
  let ?posts = "HasPrefix ?q writePrefix \<and> length writePrefix + uuidLength \<le> length ?q"
  have n: "(\<exists>v. names_tunnel ?q v) \<longleftrightarrow> ?reads \<or> ?posts"
    unfolding operation_iff names_tunnel_def by blast
  have found: "names_tunnel ?q (take uuidLength (drop (length p) ?q))"
    if "HasPrefix ?q p \<and> length p + uuidLength \<le> length ?q" and "p = readPrefix \<or> p = writePrefix" for p
    using that unfolding operation_iff names_tunnel_def by auto
  have missing: "map_of (tunnelMap w) (take uuidLength (drop (length p) ?q)) = None"
    if "HasPrefix ?q p \<and> length p + uuidLength \<le> length ?q" and "p = readPrefix \<or> p = writePrefix" for p
    using found [OF that] assms(2) by blast
  let ?none = "NewError ErrResourceNotFound [Txt ''No such tunnel.'']"
  let ?r = "new_response []"
  have nr: "?q \<noteq> []" if "?reads \<or> ?posts" using that by (auto simp: readPrefix_def writePrefix_def)
  have "\<exists>e msg. handleTunnelRequestCore connect queue req w ?r = Some (Fail (NewError e msg), w, ?r) \<and>
      (if ?reads \<or> ?posts then e = ErrResourceNotFound else e = ErrClient)"
  proof (cases ?reads)
    case True
    with nr assms(1) getTunnel_missing [OF missing, of readPrefix] show ?thesis
      by (auto simp: handleTunnelRequestCore_def doRead_def Let_def)
  next
    case False
    note read = this
    show ?thesis
    proof (cases ?posts)
      case True
      with read nr assms(1) getTunnel_missing [OF missing, of writePrefix] show ?thesis
        by (auto simp: handleTunnelRequestCore_def doWrite_def Let_def)
    next
      case False
      with read assms(1) show ?thesis
        by (cases "?q = []") (auto simp: handleTunnelRequestCore_def)
    qed
  qed
  then obtain e msg where c: "handleTunnelRequestCore connect queue req w ?r = Some (Fail (NewError e msg), w, ?r)"
    and e: "if ?reads \<or> ?posts then e = ErrResourceNotFound else e = ErrClient" by blast
  have "ServeHTTP connect queue req w ?r = Some (Val (), w, sendError (ErrKind_Status e)
      (if e = ErrClient then msg else [Txt ''Internal server error.'']) ?r)"
    by (simp add: ServeHTTP_def c NewError_def)
  with e show ?thesis unfolding n by (cases "?reads \<or> ?posts") (simp_all add: sendError_refusal del: not_less)
qed

lemma io_Copy_closed: "io_Copy cs e s = (err, s') \<Longrightarrow> conn_closed (conn s') = conn_closed (conn s)"
  by (induction cs arbitrary: s)
    (auto simp: Stream_Write_def Conn_Write.simps Let_def split: if_splits list.splits option.splits prod.splits)

lemma release_writer_keeps:
  "handle_ok w h \<Longrightarrow> tunnelMap (release_writer h w) = tunnelMap w \<and>
     is_closed (tunnel_of (release_writer h w) h) = is_closed (tunnel_of w h)"
  by (auto simp: release_writer_def ReleaseWriter_def is_closed_def split: option.split)

lemma handle_ok_deregister [simp]: "handle_ok (deregisterTunnel h w) k = handle_ok w k"
  and tunnel_of_deregister [simp]: "tunnel_of (deregisterTunnel h w) k = tunnel_of w k"
  by (simp_all add: deregisterTunnel_def TunnelMap_Remove_def handle_ok_def tunnel_of_def split: option.split)

lemma close_handle_err: "fst (close_handle h w) = fst (SimpleTunnel_Close (tunnel_of w h))"
  by (simp add: close_handle_def close_tunnel_def tunnel_of_def split: prod.split)

text \<open>What \<open>doWrite\<close> returns when copying fails: what \<open>Close\<close> returns.\<close>

lemma doWrite_failed:
  assumes "map_of (tunnelMap w) u = Some h" and "handle_ok w h" and "\<not> core (writerLock (tunnel_of w h))"
    and "GetUUID (tunnel_of w h) = u"
    and "io_Copy (Body req) (Body_err req) (stream (tunnel_of w h)) = (Some e, s)"
  shows "\<exists>w'. doWrite req u w r =
      Some (if is_closed (tunnel_of w h) then Fail (Raw (conn_err_text closed_err)) else Val (), w', write_headers r) \<and>
    map_of (tunnelMap w') u = None \<and> is_closed (tunnel_of w' h)"
proof -
  obtain l where l: "AcquireWriter (tunnel_of w h) = Some (stream (tunnel_of w h), (tunnel_of w h)\<lparr>writerLock := l\<rparr>)"
    using AcquireWriter_free [OF assms(3)] by blast
  define t where "t = (tunnel_of w h)\<lparr>writerLock := l, stream := s\<rparr>"
  define w2 where "w2 = set_tunnel h t (Access h w)"
  have t2: "tunnel_of w2 h = t" "handle_ok w2 h" using assms(2) by (simp_all add: w2_def)
  obtain ce w3 where c: "close_handle h (deregisterTunnel h w2) = (ce, w3)" by fastforce
  then have w3: "w3 = terminate h w2" by (simp add: terminate_def)
  have "is_closed t = is_closed (tunnel_of w h)"
    using io_Copy_closed [OF assms(5)] by (simp add: t_def is_closed_def)
  moreover have "ce = fst (SimpleTunnel_Close t)"
    using close_handle_err [of h "deregisterTunnel h w2"] c t2 by simp
  ultimately have ce: "ce = (if is_closed (tunnel_of w h) then Some (Raw (conn_err_text closed_err)) else None)"
    by (simp add: SimpleTunnel_Close_def is_closed_def)
  have "GetUUID t = u" using assms(4) by (simp add: t_def GetUUID_def)
  then have "map_of (tunnelMap w3) u = None" "is_closed (tunnel_of w3 h)" "handle_ok w3 h"
    using t2 by (simp_all add: w3 lookup_terminate)
  with release_writer_keeps [of w3 h] have g: "map_of (tunnelMap (release_writer h w3)) u = None"
    "is_closed (tunnel_of (release_writer h w3) h)" by simp_all
  have "doWrite req u w r = Some (case ce of None \<Rightarrow> Val () | Some e \<Rightarrow> Fail e, release_writer h w3, write_headers r)"
    using doWrite_found [OF assms(1) l assms(5)] c by (simp add: w2_def t_def)
  with g ce show ?thesis by auto
qed

lemma write_headers_sent [simp]: "sent (write_headers r) = sent r" "body (write_headers r) = body r"
  by (simp_all add: write_headers_def Header_Set_def)

text \<open>A post that cannot be handed to guacd, or whose body cannot be read, is answered like
  one that was: the error is replaced by what closing the tunnel returns, which is none; but
  the tunnel is closed and gone.\<close>

theorem failed_write_is_accepted:
  assumes "RawQuery req = ''write:'' @ u" and "length u = 36" and "map_of (tunnelMap w) u = Some h"
    and "handle_ok w h" and "\<not> core (writerLock (tunnel_of w h))" and "GetUUID (tunnel_of w h) = u"
    and "\<not> is_closed (tunnel_of w h)"
    and "io_Copy (Body req) (Body_err req) (stream (tunnel_of w h)) = (Some e, s)"
  shows "\<exists>w' r'. ServeHTTP connect queue req w (new_response []) = Some (Val (), w', r') \<and> sent r' = None \<and>
    body r' = [] \<and> map_of (tunnelMap w') u = None \<and> is_closed (tunnel_of w' h)"
proof -
  have "handleTunnelRequestCore connect queue req w r = doWrite req u w r" for r
    using handle_write [of u req] assms(1,2) by (simp add: writePrefix_def uuidLength_def)
  with doWrite_failed [OF assms(3-6,8)] assms(7) show ?thesis
    by (fastforce simp: ServeHTTP_def new_response_def)
qed

text \<open>A request that finds a tunnel whose stream is closed already (by the timeout task, or by
  the reader before it) panics: reading fails with an error of the connection, writing with
  one of closing it again, and neither is an \<open>ErrGuac\<close>.\<close>

theorem closed_tunnel_panics:
  assumes "map_of (tunnelMap w) u = Some h" and "handle_ok w h" and "length u = 36" and "GetUUID (tunnel_of w h) = u"
    and "is_closed (tunnel_of w h)" and "\<not> core (readerLock (tunnel_of w h))" and "\<not> core (writerLock (tunnel_of w h))"
    and "RawQuery req = ''read:'' @ u \<or> RawQuery req = ''write:'' @ u \<and> concat (Body req) \<noteq> []"
  shows "\<exists>w' r'. ServeHTTP connect queue req w (new_response []) = Some (Panic, w', r') \<and>
    map_of (tunnelMap w') u = None"
proof (cases "RawQuery req = ''read:'' @ u")
  case True
  have c: "conn_closed (conn (stream (tunnel_of w h)))" using assms(5) by (simp add: is_closed_def)
  obtain t where t: "AcquireReader (tunnel_of w h) = Some (stream (tunnel_of w h), t)" "uuid t = uuid (tunnel_of w h)"
    "stream t = stream (tunnel_of w h)"
    using assms(6) by (simp add: AcquireReader_def Lock_def Mutex_Lock_def AddInt32_def)
  have tt: "t\<lparr>stream := stream (tunnel_of w h)\<rparr> = t" by (simp add: t(3) [symmetric])
  let ?w = "set_tunnel h t (Access h w)"
  have r: "writeSome h queue 0 ?w r =
      Some (Fail (Raw (conn_err_text closed_err)), terminate h ?w, r)" for r
    using assms(2) c by (subst writeSome.simps) (simp add: ReadSome_def t(3) tt)
  have d: "\<exists>r'. doRead u queue w (new_response []) = Some (Panic, release_reader h (terminate h ?w), r')"
    by (simp add: doRead_def getTunnel_found [OF assms(1)] t(1) r read_failed_def Let_def)
  have "map_of (tunnelMap (terminate h ?w)) u = None"
    using assms(2,4) t(2) by (simp add: lookup_terminate GetUUID_def)
  then have "map_of (tunnelMap (release_reader h (terminate h ?w))) u = None"
    by (simp add: release_reader_def split: option.split)
  with d handle_read [of u req] True assms(3) show ?thesis
    by (auto simp: ServeHTTP_def readPrefix_def uuidLength_def)
next
  case False
  with assms(8) have q: "RawQuery req = writePrefix @ u" and b: "concat (Body req) \<noteq> []" by (simp_all add: writePrefix_def)
  then obtain c cs where "Body req = c # cs" by (cases "Body req") auto
  then obtain e s where "io_Copy (Body req) (Body_err req) (stream (tunnel_of w h)) = (Some e, s)"
    using assms(5) by (simp add: Stream_Write_def is_closed_def)
  from doWrite_failed [OF assms(1,2,7,4) this] assms(5) show ?thesis
    using handle_write [of u req] q assms(3) by (fastforce simp: ServeHTTP_def uuidLength_def)
qed

section \<open>The theorems at work\<close>

definition demo_uuid :: string where "demo_uuid = replicate 36 (CHR ''a'')"

lemma demo_uuid_length [simp]: "length demo_uuid = 36"
  by (simp add: demo_uuid_def)

text \<open>A tunnel over a connection, registered in a new map.\<close>

definition web_tunnel :: "Stream \<Rightarrow> SimpleTunnel" where
  "web_tunnel st = NewSimpleTunnel st demo_uuid demo_info"

definition web_world :: "Stream \<Rightarrow> http_world" where
  "web_world st = registerTunnel 0 ((NewTunnelMap 0)\<lparr>tunnels := [web_tunnel st]\<rparr>)"

lemma web_world_simps [simp]:
  "map_of (tunnelMap (web_world st)) demo_uuid = Some 0" "handle_ok (web_world st) 0"
  "tunnel_of (web_world st) 0 = web_tunnel st" "stream (web_tunnel st) = st" "GetUUID (web_tunnel st) = demo_uuid"
  "core (readerLock (web_tunnel st)) = False" "core (writerLock (web_tunnel st)) = False"
  "is_closed (web_tunnel st) = conn_closed (conn st)"
  by (simp_all add: web_world_def registerTunnel_def TunnelMap_Put_def NewTunnelMap_def web_tunnel_def
      NewSimpleTunnel_def GetUUID_def new_lock_def handle_ok_def tunnel_of_def NewLastAccessedTunnel_def
      is_closed_def go_map_simps)

lemma connect_then_write_witness:
  "\<exists>w1 r1 w2 r2. ServeHTTP (\<lambda>req. Val (web_tunnel (demo_stream []))) (\<lambda>k. 0)
       \<lparr>RawQuery = ''connect'', Body = [], Body_err = None\<rparr> (NewTunnelMap 0) (new_response []) = Some (Val (), w1, r1) \<and>
     ServeHTTP (\<lambda>req. Val (web_tunnel (demo_stream []))) (\<lambda>k. 0)
       \<lparr>RawQuery = ''write:'' @ demo_uuid, Body = [''3.nop;'', ''3.nop;''], Body_err = None\<rparr> w1 (new_response []) = Some (Val (), w2, r2)"
proof -
  let ?t = "web_tunnel (demo_stream [])"
  let ?r1 = "\<lparr>RawQuery = ''connect'', Body = [], Body_err = None\<rparr>"
  let ?r2 = "\<lparr>RawQuery = ''write:'' @ demo_uuid, Body = [''3.nop;'', ''3.nop;''], Body_err = None\<rparr>"
  have c: "conn (demo_stream []) = demo_conn []" by (simp add: demo_stream_simps)
  have "\<not> is_closed ?t" "write_script (conn (stream ?t)) = []" "length (GetUUID ?t) = 36"
    by (simp_all add: c demo_conn_def)
  then show ?thesis
    using connect_then_write [of "\<lambda>req. Val ?t" ?r1 ?t ?r2 "\<lambda>k. 0" "NewTunnelMap 0"] by simp fast
qed

lemma ServeHTTP_refuses_witness:
  "\<exists>msg r'. ServeHTTP (\<lambda>req. Panic) (\<lambda>k. 0) \<lparr>RawQuery = ''bogus'', Body = [], Body_err = None\<rparr>
       (NewTunnelMap 0) (new_response []) = Some (Val (), NewTunnelMap 0, r') \<and>
     sent r' = Some (400, [(''Guacamole-Status-Code'', [Txt ''768'']), (''Guacamole-Error-Message'', msg)])"
proof -
  let ?req = "\<lparr>RawQuery = ''bogus'', Body = [], Body_err = None\<rparr>"
  have "\<not> names_tunnel (RawQuery ?req) v" for v
    by (simp add: names_tunnel_def readPrefix_def writePrefix_def)
  with ServeHTTP_refuses [of ?req "NewTunnelMap 0" "\<lambda>req. Panic" "\<lambda>k. 0"] show ?thesis by auto
qed

text \<open>A connection whose first write fails.\<close>

definition broken_stream :: Stream where
  "broken_stream = NewStream ((demo_conn [])\<lparr>write_script := [Some (2, OtherErr ''reset'')]\<rparr>) 15"

lemma failed_write_is_accepted_witness:
  "\<exists>w' r'. ServeHTTP (\<lambda>req. Panic) (\<lambda>k. 0) \<lparr>RawQuery = ''write:'' @ demo_uuid, Body = [''3.nop;''], Body_err = None\<rparr>
     (web_world broken_stream) (new_response []) = Some (Val (), w', r') \<and> is_closed (tunnel_of w' 0)"
proof -
  let ?req = "\<lparr>RawQuery = ''write:'' @ demo_uuid, Body = [''3.nop;''], Body_err = None\<rparr>"
  have o: "\<not> conn_closed (conn broken_stream)" by (simp add: broken_stream_def NewStream_def)
  obtain e s where "io_Copy (Body ?req) (Body_err ?req) (stream (tunnel_of (web_world broken_stream) 0)) = (Some e, s)"
    by (simp add: broken_stream_def NewStream_def Stream_Write_def Conn_Write.simps)
  from failed_write_is_accepted [of ?req demo_uuid "web_world broken_stream" 0, OF _ _ _ _ _ _ _ this] o
  show ?thesis by (simp del: io_Copy.simps) blast
qed

lemma closed_tunnel_panics_witness:
  "\<exists>w' r'. ServeHTTP (\<lambda>req. Panic) (\<lambda>k. 0) \<lparr>RawQuery = ''read:'' @ demo_uuid, Body = [], Body_err = None\<rparr>
     (web_world (Stream_Close (demo_stream []))) (new_response []) = Some (Panic, w', r')"
proof -
  have "is_closed (web_tunnel (Stream_Close (demo_stream [])))" by (simp add: Stream_Close_def)
  then show ?thesis
    using closed_tunnel_panics [of "web_world (Stream_Close (demo_stream []))" demo_uuid 0
        "\<lparr>RawQuery = ''read:'' @ demo_uuid, Body = [], Body_err = None\<rparr>" "\<lambda>req. Panic" "\<lambda>k. 0"] by simp blast
qed

lemma res_Write_ok: "write_errs r = [] \<Longrightarrow> \<exists>r'. res_Write d r = (None, r') \<and> write_errs r' = []"
  by (simp add: res_Write_def WriteHeader_def send_header_def Let_def)

lemma write_errs_simps [simp]:
  "write_errs (send_header c r) = write_errs r" "write_errs (WriteHeader c r) = write_errs r" "write_errs (res_Flush r) = write_errs r"
  "write_errs (Header_Set k v r) = write_errs r"
  by (simp_all add: WriteHeader_def send_header_def res_Flush_def Header_Set_def)

lemma writeSome_one:
  assumes "ReadSome (stream (tunnel_of w h)) = Some (Ret ins None, s)" and "ins \<noteq> []" and "write_errs r = []"
    and "HasQueued (AddInt32 (of_nat (queue k)) (readerLock (tunnel_of w h)))"
  shows "\<exists>w' r'. writeSome h queue k w r = Some (Val (), w', r')"
proof -
  obtain r1 where r1: "res_Write ins r = (None, r1)" "write_errs r1 = []" using res_Write_ok [OF assms(3)] by blast
  define r2 where "r2 = (if \<not> Available s then res_Flush r1 else r1)"
  obtain r3 where "res_Write end_marker r2 = (None, r3)"
    using res_Write_ok [of r2 end_marker] r1(2) by (auto simp: r2_def)
  then have "write_end r2 = (Val (), res_Flush r3)" by (simp add: write_end_def)
  with assms(2,4) r1(1) show ?thesis
    by (subst writeSome.simps) (simp add: assms(1) HasQueuedReaderThreads_def Let_def r2_def)
qed

text \<open>One instruction is read and written while another reader is waiting.\<close>

lemma doRead_one:
  assumes "ReadSome st = Some (Ret ins None, s')" and "ins \<noteq> []"
  shows "\<exists>w' r'. doRead demo_uuid (\<lambda>k. 1) (web_world st) (new_response []) = Some (Val (), w', r')"
proof -
  let ?t = "(web_tunnel st)\<lparr>readerLock := \<lparr>core = True, numLocks = 1\<rparr>\<rparr>"
  have a: "AcquireReader (web_tunnel st) = Some (st, ?t)"
    by (simp add: AcquireReader_def Lock_def Mutex_Lock_def AddInt32_def web_tunnel_def NewSimpleTunnel_def new_lock_def)
  let ?w = "set_tunnel 0 ?t (Access 0 (web_world st))" and ?r = "res_Flush (Header_Set ''Cache-Control'' [Txt ''no-cache'']
     (Header_Set ''Content-Type'' [Txt ''application/octet-stream''] (new_response [])))"
  have "write_errs ?r = []" by (simp add: new_response_def)
  then have "\<exists>w' r'. writeSome 0 (\<lambda>k. 1) 0 ?w ?r = Some (Val (), w', r')"
    using writeSome_one [of ?w 0 ins s' ?r "\<lambda>k. 1" 0] assms by (simp add: HasQueued_def AddInt32_def)
  then show ?thesis by (auto simp: doRead_def getTunnel_found [OF web_world_simps(1)] a Let_def)
qed

lemma doRead_in_order_witness:
  "\<exists>w' r'. doRead demo_uuid (\<lambda>k. 1) (web_world (demo_stream (wire [nop_elem] @ []))) (new_response []) = Some (Val (), w', r') \<and>
     (\<exists>xs. body r' = xs @ [''0.;''] \<and> map_of (tunnelMap w') demo_uuid = Some 0)"
proof -
  obtain s' where s': "ReadSome (demo_stream (wire [nop_elem] @ [])) = Some (Ret (wire [nop_elem]) None, s')"
    and ok: "stream_ok (demo_stream (wire [nop_elem] @ []))" using demo_nop [of "[]"] by auto
  have "wire [nop_elem] \<noteq> []" using length_nop by force
  from doRead_one [OF s' this] obtain w' r' where
    r: "doRead demo_uuid (\<lambda>k. 1) (web_world (demo_stream (wire [nop_elem] @ []))) (new_response []) = Some (Val (), w', r')"
    by blast
  have "stream_ok (stream (tunnel_of (web_world (demo_stream (wire [nop_elem] @ []))) 0))"
    unfolding web_world_simps by (rule ok)
  from doRead_in_order [OF r web_world_simps(1,2) this] r show ?thesis unfolding new_response_def by fastforce
qed

lemma doRead_failure_closes_witness:
  "\<exists>e w' r'. doRead demo_uuid (\<lambda>k. 0) (web_world (demo_stream [])) (new_response []) = Some (Fail e, w', r') \<and>
     is_closed (tunnel_of w' 0)"
proof -
  let ?w = "web_world (demo_stream [])"
  have l: "length ([] :: byte list) \<le> MaxGuacMessage" by simp
  note d = demo_stream_simps [OF l]
  have "blen (demo_stream []) < MaxGuacMessage" using length_buffer [OF d(2)] d(1) by (simp add: MaxGuacMessage_def)
  moreover have "scan (buffer (demo_stream [])) (parseStart (demo_stream [])) 0 (parseStart (demo_stream [])) = NeedMore 0"
    by (simp add: d scan_Nil)
  ultimately obtain s' where s': "ReadSome (demo_stream []) = Some (Ret [] (Some (read_error (OtherErr ''EOF''))), s')"
    using ReadSome_EOF [OF d(2)] d(4) by auto
  obtain t where a: "AcquireReader (web_tunnel (demo_stream [])) = Some (demo_stream [], t)" "stream t = demo_stream []"
    by (simp add: AcquireReader_def Lock_def Mutex_Lock_def AddInt32_def web_tunnel_def NewSimpleTunnel_def new_lock_def)
  let ?r = "res_Flush (Header_Set ''Cache-Control'' [Txt ''no-cache'']
     (Header_Set ''Content-Type'' [Txt ''application/octet-stream''] (new_response [])))"
  have "\<exists>w' r'. writeSome 0 (\<lambda>k. 0) 0 (set_tunnel 0 t (Access 0 ?w)) ?r = Some (Fail (read_error (OtherErr ''EOF'')), w', r')"
    by (subst writeSome.simps) (simp add: a(2) s')
  then obtain w1 r1 where "writeSome 0 (\<lambda>k. 0) 0 (set_tunnel 0 t (Access 0 ?w)) ?r =
      Some (Fail (read_error (OtherErr ''EOF'')), w1, r1)" by blast
  then have "\<exists>e w' r'. doRead demo_uuid (\<lambda>k. 0) ?w (new_response []) = Some (Fail e, w', r')"
    by (simp add: doRead_def getTunnel_found [OF web_world_simps(1)] a(1) Let_def read_failed_def)
  then obtain e w' r' where r: "doRead demo_uuid (\<lambda>k. 0) ?w (new_response []) = Some (Fail e, w', r')" by blast
  from doRead_failure_closes [OF r web_world_simps(1,2)] d(2) r show ?thesis by (auto simp: new_response_def)
qed

section \<open>What is counted\<close>

text \<open>The handler sets a status only by way of \<open>sendError\<close>.\<close>

lemma status_simps [simp]:
  "status (send_header c r) = status r" "status (res_Flush r) = status r" "status (Header_Set k v r) = status r"
  "status (snd (res_Write d r)) = status r" "status (sendError st m r) = GetHTTPStatusCode st"
  "status (WriteHeader c r) = c" "status (write_headers r) = status r"
  by (simp_all add: WriteHeader_def send_header_def res_Flush_def Header_Set_def res_Write_def sendError_def
      write_headers_def Let_def split: list.split option.split)

lemma res_Write_status: "res_Write d r = (e, r') \<Longrightarrow> status r' = status r"
  using status_simps(4) [of d r] by simp

lemma write_end_status: "write_end r = (q, r') \<Longrightarrow> status r' = status r"
  by (auto simp: write_end_def dest: res_Write_status split: prod.splits option.splits)

lemma writeSome_status:
  assumes "writeSome h queue k w r = Some x"
  shows "status (snd (snd x)) = status r"
proof (rule writeSome.raw_induct
    [where P = "\<lambda>h queue k w r (x :: unit res \<times> http_world \<times> response). status (snd (snd x)) = status r", OF _ assms])
  fix f :: "nat \<Rightarrow> (nat \<Rightarrow> nat) \<Rightarrow> nat \<Rightarrow> http_world \<Rightarrow> response \<Rightarrow> (unit res \<times> http_world \<times> response) option"
    and h queue k w r and x :: "unit res \<times> http_world \<times> response"
  assume IH: "\<And>h queue k w r x. f h queue k w r = Some x \<Longrightarrow> status (snd (snd x)) = status r"
  assume eq: "(case ReadSome (stream (tunnel_of w h)) of
        None \<Rightarrow> None
      | Some (Ret message None, s) \<Rightarrow>
          (let t = (tunnel_of w h)\<lparr>stream := s\<rparr>
           in if message = [] then Some (Val (), set_tunnel h t w, r)
              else case res_Write message r of
                     (None, r1) \<Rightarrow>
                       (let r2 = (if \<not> Available s then res_Flush r1 else r1);
                            t1 = t\<lparr>readerLock := AddInt32 (of_nat (queue k)) (readerLock t)\<rparr>;
                            w1 = set_tunnel h t1 w
                        in if HasQueuedReaderThreads t1
                           then (let (q, r3) = write_end r2 in Some (q, w1, r3))
                           else f h queue (Suc k) w1 r2)
                   | (Some e, r1) \<Rightarrow> Some (Fail (NewError ErrOther [Txt e]), set_tunnel h t w, r1))
      | Some (Ret message (Some e), s) \<Rightarrow> Some (Fail e, terminate h (set_tunnel h ((tunnel_of w h)\<lparr>stream := s\<rparr>) w), r)
      | Some (RPanic, s) \<Rightarrow> Some (Panic, set_tunnel h ((tunnel_of w h)\<lparr>stream := s\<rparr>) w, r)) = Some x"
  then show "status (snd (snd x)) = status r"
    by (auto simp: Let_def split: option.splits prod.splits read_result.splits if_splits
        dest!: IH res_Write_status write_end_status)
qed

lemma read_failed_status: "read_failed h e w r = (q, w', r') \<Longrightarrow> status r' = status r"
  by (auto simp: read_failed_def split: option.splits if_splits)

lemma doRead_status:
  assumes "doRead u queue w r = Some (q, w', r')"
  shows "status r' = status r"
proof (cases "map_of (tunnelMap w) u")
  case None
  with assms show ?thesis by (simp add: doRead_def getTunnel_missing)
next
  case (Some h)
  from doRead_runs [OF assms this] obtain t q0 w2 r2 w3
    where "writeSome h queue 0 (set_tunnel h t (Access h w))
           (res_Flush (r\<lparr>header := stream_headers (header r)\<rparr>)) = Some (q0, w2, r2)"
    and q: "(case q0 of Fail e \<Rightarrow> read_failed h e w2 r2 | _ \<Rightarrow> (q0, w2, r2)) = (q, w3, r')" by metis
  from writeSome_status [OF this(1)] have "status r2 = status r" by simp
  with q show ?thesis by (auto dest: read_failed_status split: outcome.splits)
qed

lemma doWrite_status:
  assumes "doWrite req u w r = Some (q, w', r')"
  shows "status r' = status r"
  using assms by (auto simp: doWrite_def Let_def split: prod.splits outcome.splits option.splits)

lemma handleTunnelRequestCore_status:
  assumes "handleTunnelRequestCore connect queue req w r = Some (q, w', r')"
  shows "status r' = status r"
  using assms by (auto simp: handleTunnelRequestCore_def http_connect_def Let_def
      dest: doRead_status doWrite_status res_Write_status
      split: if_splits outcome.splits option.splits prod.splits)

text \<open>A request that fails with a Guacamole error is counted with its HTTP status, one that
  panics is not counted, every other one with how long it took; but one that succeeds is counted with code 0, since the wrapper
  takes the code only from \<open>WriteHeader\<close>, which the handlers call for errors alone.\<close>

theorem success_counted_as_zero:
  assumes "GuacServerWrapper_ServeHTTP connect queue req clock path m errs w = Some (q, w', r', metrics)"
  obtains q0 r0 where "handleTunnelRequestCore connect queue req w (ResponseWriterWrapper errs) = Some (q0, w', r0)"
    and "q0 = Val () \<Longrightarrow> q = Val () \<and> metrics = [Observe [path, m] (snd clock - fst clock), Inc [''0'', m, path]]"
    and "\<And>e. q0 = Fail (Guac e) \<Longrightarrow> q = Val () \<and> 
        metrics = [Observe [path, m] (snd clock - fst clock), Inc [dec_int (GetHTTPStatusCode (err_Status e)), m, path]]"
    and "\<And>e. q0 = Fail (Raw e) \<or> q0 = Panic \<Longrightarrow> q = Panic \<and> metrics = []"
proof -
  from assms obtain x where "handleTunnelRequestCore connect queue req w (ResponseWriterWrapper errs) = Some x"
    by (auto simp: GuacServerWrapper_ServeHTTP_def WithMetrics_def ServeHTTP_def)
  then obtain q0 w0 r0 where
    c: "handleTunnelRequestCore connect queue req w (ResponseWriterWrapper errs) = Some (q0, w0, r0)" by (cases x) auto
  define y where "y = (case q0 of
         Fail (Guac e) \<Rightarrow> (Val (), w0, sendError (err_Status e)
              (if err_Kind e = ErrClient then err_args e else [Txt ''Internal server error.'']) r0)
       | Fail (Raw e) \<Rightarrow> (Panic, w0, r0) | _ \<Rightarrow> (q0, w0, r0))"
  let ?m = "\<lambda>q r. if q = Panic then [] else [RecordHttpRequestDur path m (snd clock - fst clock), RecordHttpRequest path m (status r)]"
  have "(case y of (q, w, r) \<Rightarrow> (q, w, r, ?m q r)) = (q, w', r', metrics)"
    using assms by (simp add: GuacServerWrapper_ServeHTTP_def WithMetrics_def ServeHTTP_def c y_def)
  then have y: "y = (q, w', r')" and k: "metrics = ?m q r'"
    by (cases y, auto)+
  have w0: "w0 = w'" using y unfolding y_def by (simp split: outcome.splits go_error.splits)
  have z: "dec_int 0 = ''0''" by code_simp
  have "status r0 = 0"
    using handleTunnelRequestCore_status [OF c] by (simp add: ResponseWriterWrapper_def)
  with y k z c show ?thesis unfolding w0 y_def by (intro that) (auto simp: RecordHttpRequest_def RecordHttpRequestDur_def)
qed

lemma success_counted_as_zero_witness:
  "\<exists>w' r'. GuacServerWrapper_ServeHTTP (\<lambda>req. Val (web_tunnel (demo_stream []))) (\<lambda>k. 0)
     \<lparr>RawQuery = ''connect'', Body = [], Body_err = None\<rparr> (3, 8) ''/tunnel'' ''POST'' [] (NewTunnelMap 0) =
       Some (Val (), w', r', [Observe [''/tunnel'', ''POST''] 5, Inc [''0'', ''POST'', ''/tunnel'']])"
proof -
  let ?con = "\<lambda>req :: request. (Val (web_tunnel (demo_stream [])) :: (string, SimpleTunnel) outcome)"
  let ?req = "\<lparr>RawQuery = ''connect'', Body = [], Body_err = None\<rparr>"
  have c: "\<exists>w' r'. handleTunnelRequestCore ?con (\<lambda>k. 0) ?req (NewTunnelMap 0) (ResponseWriterWrapper []) = Some (Val (), w', r')"
    by (simp add: handleTunnelRequestCore_def http_connect_def Let_def res_Write_def send_header_def Header_Set_def
        ResponseWriterWrapper_def new_response_def)
  then obtain x where "GuacServerWrapper_ServeHTTP ?con (\<lambda>k. 0) ?req (3, 8) ''/tunnel'' ''POST'' [] (NewTunnelMap 0) = Some x"
    by (auto simp: GuacServerWrapper_ServeHTTP_def WithMetrics_def ServeHTTP_def)
  then obtain q w' r' metrics where
    s: "GuacServerWrapper_ServeHTTP ?con (\<lambda>k. 0) ?req (3, 8) ''/tunnel'' ''POST'' [] (NewTunnelMap 0) = Some (q, w', r', metrics)"
    by (cases x) auto
  obtain q0 r0 where h: "handleTunnelRequestCore ?con (\<lambda>k. 0) ?req (NewTunnelMap 0) (ResponseWriterWrapper []) = Some (q0, w', r0)"
    and z: "q0 = Val () \<Longrightarrow> q = Val () \<and> metrics = [Observe [''/tunnel'', ''POST''] (snd (3 :: int, 8 :: int) - fst (3 :: int, 8 :: int)), Inc [''0'', ''POST'', ''/tunnel'']]"
    by (rule success_counted_as_zero [OF s]) (rule that, assumption, blast)
  from h c have "q0 = Val ()" by auto
  with z s show ?thesis by auto
qed

end
