(* ===== verification/DoConnect.thy ===== *)
theory DoConnect
  imports Handshake TunnelMap Rooms
begin

text \<open>
  \<open>DemoDoConnect\<close> of \<open>cmd/guac/guac.go\<close>, the callback of both servers: it turns the query of a
  request into the configuration for guacd, stores a new session or finds the one to join,
  and connects to guacd. \<open>pkg/k8s.go\<close> and \<open>lib/geoip\<close>, which it asks for the address of
  guacd and the country of the client, are here as well.
\<close>

section \<open>What it is given\<close>

text \<open>\<open>url.Values\<close>: every key has at least one value.\<close>

type_synonym url_values = "string list gomap"

definition query_Get :: "url_values \<Rightarrow> string \<Rightarrow> string" where
  "query_Get q k = (case map_of q k of Some (v # vs) \<Rightarrow> v | _ \<Rightarrow> [])"

text \<open>A request: the body as \<open>ReadAll\<close> returns it, the values of its URL, its cookie \<open>appauthz\<close>.\<close>

record connect_request =
  cr_RawQuery :: string
  cr_body :: "string + string"
  cr_values :: url_values
  cr_cookie :: "string option"

record resource =
  app_EnableRecording :: bool
  app_MonitorPolicyEntryId :: string

text \<open>
  The answers from outside: the policy of an application for a user, the application, the
  type of a tenant, the monitor policy behind an entry, whether the storage is the
  provider's own, the country of an address (a lookup that fails is \<open>None\<close>; \<open>geo_db\<close> is
  whether the database is open), the id and the time of the connection, whether
  \<open>POD_IP\<close> is set, the addresses of the guacd service (one of which is drawn), and
  \<open>net.Dial\<close>.
\<close>

record connect_env =
  parse_query :: "string \<Rightarrow> string + url_values"
  policy_actions :: "string \<Rightarrow> string \<Rightarrow> string list option"
  get_resource :: "string \<Rightarrow> resource option"
  tenant_type :: "string \<Rightarrow> string"
  monitor_policy :: "string \<Rightarrow> string \<times> string"
  storage_fail :: "string \<Rightarrow> bool"
  geo_db :: bool
  geo_country :: "string \<Rightarrow> string option"
  new_uuid :: string
  now_text :: string
  now_time :: int
  in_pod :: bool
  guacd_endpoints :: "string + string list list"
  drawn :: "nat \<Rightarrow> nat"
  net_dial :: "string \<Rightarrow> string + Conn"
  visit_values :: "string list \<Rightarrow> string list"

section \<open>Small parts\<close>

text \<open>\<open>GetIpIsoCode\<close> (\<open>lib/geoip\<close>).\<close>

definition GetIpIsoCode :: "connect_env \<Rightarrow> string \<Rightarrow> string" where
  "GetIpIsoCode env ipStr =
     (if \<not> geo_db env then []
      else case geo_country env (hd (Split (CHR '':'') ipStr)) of
             None \<Rightarrow> []
           | Some code \<Rightarrow> code)"

text \<open>\<open>GetGuacdTarget\<close> (\<open>k8s.go\<close>); \<open>rand.Intn(0)\<close> panics.\<close>

definition GetGuacdTarget :: "connect_env \<Rightarrow> (string, string) outcome" where
  "GetGuacdTarget env =
     (case guacd_endpoints env of
        Inl e \<Rightarrow> Fail e
      | Inr [] \<Rightarrow> Fail ''no endpoints for guacd''
      | Inr (addresses # subsets) \<Rightarrow>
          if addresses = [] then Panic
          else Val (addresses ! (drawn env (length addresses) mod length addresses)))"

text \<open>\<open>NewLoggingInfo\<close> (\<open>lib/logging\<close>).\<close>

definition NewLoggingInfo :: "string \<Rightarrow> string \<Rightarrow> string \<Rightarrow> string \<Rightarrow> string \<Rightarrow> string \<Rightarrow> bool \<Rightarrow> string \<Rightarrow> int \<Rightarrow> LoggingInfo" where
  "NewLoggingInfo tenant email appName clientIp s3key sku recording privateIp start =
     \<lparr>li_TenantId = tenant, li_Email = email, li_AppName = appName, li_ClientIp = clientIp,
      li_ClientPrivateIp = privateIp, S3Key = s3key, EnableRecording = recording, StartTime = start,
      Sku = sku, li_SessionId = []\<rparr>"

text \<open>The values of the query that become parameters for guacd.\<close>

definition query_parameters :: "connect_env \<Rightarrow> url_values \<Rightarrow> string gomap" where
  "query_parameters env q =
     fold map_del [''tenantId'', ''alertRules'', ''clientIp'', ''role_ids'']
       (fold (\<lambda>k. map_put k (query_Get q k)) (visit_values env (map_keys q)) [])"

definition policy_permissions :: "connect_env \<Rightarrow> url_values \<Rightarrow> string" where
  "policy_permissions env q =
     (case policy_actions env (query_Get q ''appId'') (query_Get q ''userId'') of
        None \<Rightarrow> []
      | Some actions \<Rightarrow> Join '','' actions)"

text \<open>The recording parameters, when the application is recorded.\<close>

definition recording_parameters :: "LoggingInfo \<Rightarrow> string gomap \<Rightarrow> string gomap" where
  "recording_parameters info ps =
     map_put ''recording-name'' (GetRecordingFileName info)
       (map_put ''recording-include-keys'' ''true''
         (map_put ''create-recording-path'' ''true'' (map_put ''recording-path'' ''/efs/rdp'' ps)))"

definition recorded :: "resource option \<Rightarrow> bool" where
  "recorded app \<longleftrightarrow> (\<exists>a. app = Some a \<and> app_EnableRecording a)"

definition connect_info :: "connect_env \<Rightarrow> url_values \<Rightarrow> LoggingInfo" where
  "connect_info env q =
     (NewLoggingInfo (query_Get q ''tenantId'') (query_Get q ''userId'') (query_Get q ''appName'')
        (hd (Split (CHR '':'') (query_Get q ''clientIp''))) (now_text env) (tenant_type env (query_Get q ''tenantId''))
        False (query_Get q ''clientPrivateIp'') (now_time env))
     \<lparr>EnableRecording := (case get_resource env (query_Get q ''appId'') of None \<Rightarrow> False | Some a \<Rightarrow> app_EnableRecording a)\<rparr>"

definition connect_parameters :: "connect_env \<Rightarrow> connect_request \<Rightarrow> url_values \<Rightarrow> string gomap" where
  "connect_parameters env req q =
     (let ps = query_parameters env q;
          ps = (case cr_cookie req of Some token \<Rightarrow> map_put ''gateway-password'' token ps | None \<Rightarrow> ps);
          permissions = policy_permissions env q;
          ps = (if \<not> Contains permissions ''copy'' then map_put ''disable-copy'' ''true'' ps else ps);
          ps = (if \<not> Contains permissions ''paste'' then map_put ''disable-paste'' ''true'' ps else ps)
      in case get_resource env (query_Get q ''appId'') of
           Some a \<Rightarrow> if app_EnableRecording a then recording_parameters (connect_info env q) ps else ps
         | None \<Rightarrow> ps)"

text \<open>The session of a new connection; \<open>None\<close> is the panic on an application that was not found.\<close>

definition new_session :: "connect_env \<Rightarrow> connect_request \<Rightarrow> url_values \<Rightarrow> SessionCommonData option" where
  "new_session env req q =
     map_option (\<lambda>a.
       \<lparr>Auth = False, ServerName = [], TenantID = query_Get q ''tenantId'', AppID = query_Get q ''appId'',
        Email = query_Get q ''userId'', UserName = query_Get q ''username'',
        IDToken = (case cr_cookie req of Some t \<Rightarrow> t | None \<Rightarrow> []),
        ClientIsoCountry = GetIpIsoCode env (query_Get q ''clientIp''),
        ses_ClientIP = hd (Split (CHR '':'') (query_Get q ''clientIp'')),
        ses_ClientPrivateIp = query_Get q ''clientPrivateIp'', ses_AppName = query_Get q ''appName'',
        RoleIDs = Split (CHR '','') (query_Get q ''roleIds''),
        Recording = (app_EnableRecording a \<and> \<not> storage_fail env (query_Get q ''tenantId'')),
        MonitorPolicyId = (if app_MonitorPolicyEntryId a \<noteq> [] then fst (monitor_policy env (app_MonitorPolicyEntryId a)) else []),
        MonitorPolicyName = (if app_MonitorPolicyEntryId a \<noteq> [] then snd (monitor_policy env (app_MonitorPolicyEntryId a)) else []),
        RdpSessionId = new_uuid env, GuacdAddr = []\<rparr>)
     (get_resource env (query_Get q ''appId''))"

text \<open>The sizes, as the code stores them: the width into the height, and the height into the width.\<close>

definition parse_size :: "int \<Rightarrow> string \<Rightarrow> int \<Rightarrow> int" where
  "parse_size old text fallback =
     (if text = [] then old
      else case Atoi text of
             Inl e \<Rightarrow> fallback
           | Inr n \<Rightarrow> if n = 0 then fallback else n)"

definition connect_config :: "connect_env \<Rightarrow> connect_request \<Rightarrow> url_values \<Rightarrow> string \<Rightarrow> Config" where
  "connect_config env req q connectionID =
     NewGuacamoleConfiguration
       \<lparr>cfg_ConnectionID := connectionID, cfg_Protocol := query_Get q ''scheme'',
        cfg_Parameters := connect_parameters env req q,
        OptimalScreenHeight := parse_size (OptimalScreenHeight NewGuacamoleConfiguration) (query_Get q ''width'') 600,
        OptimalScreenWidth := parse_size (OptimalScreenWidth NewGuacamoleConfiguration) (query_Get q ''height'') 800,
        AudioMimetypes := [''audio/L16'', ''rate=44100'', ''channels=2'']\<rparr>"

section \<open>Connecting\<close>

type_synonym tunnel_result = "(string + go_error, SimpleTunnel) outcome \<times> world"

text \<open>From the address of guacd on; \<open>None\<close> when the handshake never returns.\<close>

definition dial_guacd :: "connect_env \<Rightarrow> Config \<Rightarrow> LoggingInfo \<Rightarrow> string \<Rightarrow> world \<Rightarrow> tunnel_result option" where
  "dial_guacd env config info addr w =
     (case net_dial env addr of
        Inl e \<Rightarrow> Some (Fail (Inl e), w)
      | Inr c \<Rightarrow>
          (case Handshake config (NewStream c (15 * 1000000000)) of
             None \<Rightarrow> None
           | Some (Val _, s) \<Rightarrow> Some (Val (NewSimpleTunnel s (new_uuid env) info), w)
           | Some (Fail e, s) \<Rightarrow> Some (Fail (Inr e), w)
           | Some (Panic, s) \<Rightarrow> Some (Panic, w)))"

definition guacd_address :: "connect_env \<Rightarrow> (string, string) outcome" where
  "guacd_address env =
     (if in_pod env then
        (case GetGuacdTarget env of Val a \<Rightarrow> Val (a @ '':4822'') | r \<Rightarrow> r)
      else Val ''127.0.0.1:4822'')"

text \<open>A new session: it is stored before anything can fail.\<close>

definition connect_new :: "connect_env \<Rightarrow> connect_request \<Rightarrow> url_values \<Rightarrow> world \<Rightarrow> tunnel_result option" where
  "connect_new env req q w =
     (case new_session env req q of
        None \<Rightarrow> Some (Panic, w)
      | Some s \<Rightarrow>
          let p = length (session_heap w);
              w1 = SessionData_Set (new_uuid env) (SessionPtr p) (w\<lparr>session_heap := session_heap w @ [s]\<rparr>)
          in (case guacd_address env of
                Fail e \<Rightarrow> Some (Fail (Inl e), w1)
              | Panic \<Rightarrow> Some (Panic, w1)
              | Val addr \<Rightarrow>
                  dial_guacd env (connect_config env req q []) (connect_info env q) addr
                    (w1\<lparr>session_heap := (session_heap w1)[p := s\<lparr>GuacdAddr := addr\<rparr>]\<rparr>)))"

text \<open>Joining the session \<open>sid\<close>; a value of another type in the store panics.\<close>

definition connect_join :: "connect_env \<Rightarrow> connect_request \<Rightarrow> url_values \<Rightarrow> string \<Rightarrow> world \<Rightarrow> tunnel_result option" where
  "connect_join env req q sid w =
     (case (SessionData_Get w sid, GetRdpSessionRoom w sid) of
        (Some v, Some room) \<Rightarrow>
          (case v of
             OtherData _ \<Rightarrow> Some (Panic, w)
           | SessionPtr p \<Rightarrow>
               dial_guacd env (connect_config env req q (RdpConnectionId room))
                 ((connect_info env q)\<lparr>li_AppName := ses_AppName (ses_at w p)\<rparr>) (GuacdAddr (ses_at w p)) w)
      | _ \<Rightarrow> Some (Fail (Inl (''session not found by session id '' @ sid)), w))"

text \<open>The session to join: the user's own one for the application goes before the one asked for.\<close>

definition connect_target :: "env \<Rightarrow> url_values \<Rightarrow> world \<Rightarrow> string" where
  "connect_target renv q w =
     (case GetRoomByAppIdAndCreator renv w (query_Get q ''appId'') (query_Get q ''userId'') of
        Some room \<Rightarrow> SessionId room
      | None \<Rightarrow> query_Get q ''shareSessionId'')"

definition connect_query :: "connect_env \<Rightarrow> connect_request \<Rightarrow> string + url_values" where
  "connect_query env req =
     (if cr_RawQuery req = ''connect'' then
        (case cr_body req of Inl e \<Rightarrow> Inl e | Inr text \<Rightarrow> parse_query env text)
      else Inr (cr_values req))"

definition DemoDoConnect :: "env \<Rightarrow> connect_env \<Rightarrow> connect_request \<Rightarrow> world \<Rightarrow> tunnel_result option" where
  "DemoDoConnect renv env req w =
     (case connect_query env req of
        Inl e \<Rightarrow> Some (Fail (Inl e), w)
      | Inr q \<Rightarrow>
          let target = connect_target renv q w
          in if target = [] then connect_new env req q w else connect_join env req q target w)"

end
