(* ===== verification/ConnectProps.thy ===== *)
theory ConnectProps
  imports DoConnect WsProps Gateway
begin

text \<open>
  What the connect callback of \<open>DoConnect\<close> guarantees: the policy and the recording override
  the query, a new session is stored under the id of its tunnel, and no room is touched, so
  that the gateway of \<open>Gateway\<close> can use it.
\<close>

section \<open>The parameters\<close>

lemma lookup_fold_put:
  "map_of (fold (\<lambda>k. map_put k (f k)) ks m) x = (if x \<in> set ks then Some (f x) else map_of m x)"
  by (induction ks arbitrary: m) (auto simp: go_map_simps)

definition removed_keys :: "string list" where
  "removed_keys = [''tenantId'', ''alertRules'', ''clientIp'', ''role_ids'']"

lemma lookup_query_parameters:
  "is_order (visit_values env) \<Longrightarrow>
   map_of (query_parameters env q) x =
     (if x \<in> set removed_keys \<or> map_of q x = None then None else Some (query_Get q x))"
  by (auto simp: query_parameters_def removed_keys_def lookup_fold_put go_map_simps map_of_eq_None_iff)

lemma lookup_recording: "map_of (recording_parameters info ps) x =
    (if x = ''recording-name'' then Some (GetRecordingFileName info)
     else if x = ''recording-include-keys'' \<or> x = ''create-recording-path'' then Some ''true''
     else if x = ''recording-path'' then Some ''/efs/rdp'' else map_of ps x)"
  by (simp add: recording_parameters_def go_map_simps)

definition plain_parameters :: "connect_env \<Rightarrow> connect_request \<Rightarrow> url_values \<Rightarrow> string \<Rightarrow> string option" where
  "plain_parameters env req q x =
     (if x = ''disable-paste'' \<and> \<not> Contains (policy_permissions env q) ''paste'' then Some ''true''
      else if x = ''disable-copy'' \<and> \<not> Contains (policy_permissions env q) ''copy'' then Some ''true''
      else if x = ''gateway-password'' \<and> cr_cookie req \<noteq> None then cr_cookie req
      else map_of (query_parameters env q) x)"

lemma lookup_parameters: "map_of (connect_parameters env req q) x =
    (if recorded (get_resource env (query_Get q ''appId'')) then
       (if x = ''recording-name'' then Some (GetRecordingFileName (connect_info env q))
        else if x = ''recording-include-keys'' \<or> x = ''create-recording-path'' then Some ''true''
        else if x = ''recording-path'' then Some ''/efs/rdp'' else plain_parameters env req q x)
     else plain_parameters env req q x)"
proof -
  define ps where "ps = (case cr_cookie req of Some token \<Rightarrow> map_put ''gateway-password'' token (query_parameters env q)
     | None \<Rightarrow> query_parameters env q)"
  define ps1 where "ps1 = (if \<not> Contains (policy_permissions env q) ''copy'' then map_put ''disable-copy'' ''true'' ps else ps)"
  define ps2 where "ps2 = (if \<not> Contains (policy_permissions env q) ''paste'' then map_put ''disable-paste'' ''true'' ps1 else ps1)"
  have "map_of ps2 x = plain_parameters env req q x"
    unfolding ps2_def ps1_def ps_def plain_parameters_def
    by (cases "cr_cookie req") (simp_all add: go_map_simps)
  moreover have "connect_parameters env req q =
      (if recorded (get_resource env (query_Get q ''appId'')) then recording_parameters (connect_info env q) ps2 else ps2)"
    unfolding connect_parameters_def Let_def recorded_def ps_def [symmetric] ps1_def [symmetric] ps2_def [symmetric]
    by (cases "get_resource env (query_Get q ''appId'')") auto
  ultimately show ?thesis by (simp add: lookup_recording)
qed

text \<open>C22: what a client puts into its query cannot override the policy: without the permission to
  copy or to paste, copying or pasting is disabled; the password for the gateway is the
  client's token; a recorded application is recorded under the recording's own name; the
  internal values are not passed on, and every other parameter is the query's.\<close>

theorem parameters_follow_policy:
  assumes "is_order (visit_values env)" and "ps = connect_parameters env req q"
  shows "(\<not> Contains (policy_permissions env q) ''copy'' \<longrightarrow> map_of ps ''disable-copy'' = Some ''true'') \<and>
    (\<not> Contains (policy_permissions env q) ''paste'' \<longrightarrow> map_of ps ''disable-paste'' = Some ''true'') \<and>
    (\<forall>token. cr_cookie req = Some token \<longrightarrow> map_of ps ''gateway-password'' = Some token) \<and>
    (recorded (get_resource env (query_Get q ''appId'')) \<longrightarrow> map_of ps ''recording-path'' = Some ''/efs/rdp'' \<and>
       map_of ps ''recording-name'' = Some (query_Get q ''userId'' @ ''-'' @ now_text env)) \<and>
    (\<forall>x\<in>set removed_keys. map_of ps x = None) \<and>
    (\<forall>x. x \<notin> set removed_keys \<union> {''disable-copy'', ''disable-paste'', ''gateway-password'', ''recording-path'',
         ''create-recording-path'', ''recording-include-keys'', ''recording-name''} \<longrightarrow>
       map_of ps x = (if map_of q x = None then None else Some (query_Get q x)))"
proof -
  have n: "GetRecordingFileName (connect_info env q) = query_Get q ''userId'' @ ''-'' @ now_text env"
    by (simp add: GetRecordingFileName_def connect_info_def NewLoggingInfo_def)
  note l = lookup_parameters plain_parameters_def n and r = lookup_query_parameters [OF assms(1), of q]
  have "map_of ps x = None" if "x \<in> set removed_keys" for x
  proof -
    have "x \<noteq> ''disable-copy'' \<and> x \<noteq> ''disable-paste'' \<and> x \<noteq> ''gateway-password'' \<and> x \<noteq> ''recording-path'' \<and>
        x \<noteq> ''create-recording-path'' \<and> x \<noteq> ''recording-include-keys'' \<and> x \<noteq> ''recording-name''"
      using that by (auto simp: removed_keys_def)
    then show ?thesis using that by (simp add: assms(2) l r)
  qed
  moreover have "map_of ps x = (if map_of q x = None then None else Some (query_Get q x))"
    if "x \<notin> set removed_keys \<union> {''disable-copy'', ''disable-paste'', ''gateway-password'', ''recording-path'',
         ''create-recording-path'', ''recording-include-keys'', ''recording-name''}" for x
    using that by (simp add: assms(2) l r)
  moreover have "\<not> Contains (policy_permissions env q) ''copy'' \<longrightarrow> map_of ps ''disable-copy'' = Some ''true''"
    "\<not> Contains (policy_permissions env q) ''paste'' \<longrightarrow> map_of ps ''disable-paste'' = Some ''true''"
    "cr_cookie req = Some token \<longrightarrow> map_of ps ''gateway-password'' = Some token"
    "recorded (get_resource env (query_Get q ''appId'')) \<longrightarrow> map_of ps ''recording-path'' = Some ''/efs/rdp'' \<and>
       map_of ps ''recording-name'' = Some (query_Get q ''userId'' @ ''-'' @ now_text env)" for token
    by (simp_all add: assms(2) l)
  ultimately show ?thesis by blast
qed

section \<open>The session\<close>

lemma dial_guacd_result:
  assumes "dial_guacd env config info addr w = Some (r, w')"
  shows "w' = w \<and> (\<forall>t. r = Val t \<longrightarrow> GetUUID t = new_uuid env)"
  using assms by (auto simp: dial_guacd_def NewSimpleTunnel_def GetUUID_def split: sum.splits option.splits outcome.splits prod.splits)

lemma connect_join_result:
  assumes "connect_join env req q sid w = Some (r, w')"
  shows "w' = w \<and> (\<forall>t. r = Val t \<longrightarrow> GetUUID t = new_uuid env)"
  using assms by (auto simp: connect_join_def split: option.splits store_value.splits dest: dial_guacd_result)

lemma SessionData_Set_simps [simp]: "rdpRooms (SessionData_Set k v w) = rdpRooms w"
  "clients (SessionData_Set k v w) = clients w" "session_heap (SessionData_Set k v w) = session_heap w"
  "trace (SessionData_Set k v w) = trace w"
  by (simp_all add: SessionData_Set_def)

lemma SessionData_Get_heap: "SessionData_Get (w\<lparr>session_heap := h\<rparr>) k = SessionData_Get w k"
  by (simp add: SessionData_Get_def)

lemma session_of_heap: "session_of (w\<lparr>session_heap := h\<rparr>) k = session_of w k"
  by (simp add: session_of_def SessionData_Get_heap)

lemma connect_new_result:
  assumes "connect_new env req q w = Some (r, w')" and "new_session env req q = Some s"
  shows "rdpRooms w' = rdpRooms w \<and> clients w' = clients w \<and> trace w' = trace w \<and>
    session_of w' (new_uuid env) = Some (length (session_heap w)) \<and>
    (\<exists>addr. session_heap w' = session_heap w @ [s\<lparr>GuacdAddr := addr\<rparr>]) \<and>
    (\<forall>k. k \<noteq> new_uuid env \<longrightarrow> SessionData_Get w' k = SessionData_Get w k) \<and>
    (\<forall>t. r = Val t \<longrightarrow> GetUUID t = new_uuid env)"
proof -
  let ?p = "length (session_heap w)"
  define w1 where "w1 = SessionData_Set (new_uuid env) (SessionPtr ?p) (w\<lparr>session_heap := session_heap w @ [s]\<rparr>)"
  have g: "GuacdAddr s = []" using assms(2) by (auto simp: new_session_def)
  have w1: "rdpRooms w1 = rdpRooms w" "clients w1 = clients w" "trace w1 = trace w"
    "session_of w1 (new_uuid env) = Some ?p" "session_heap w1 = session_heap w @ [s\<lparr>GuacdAddr := []\<rparr>]"
    "\<And>k. k \<noteq> new_uuid env \<Longrightarrow> SessionData_Get w1 k = SessionData_Get w k"
    by (simp_all add: w1_def session_of_Set sds.get_put SessionData_Get_heap g [symmetric])
  show ?thesis
  proof (cases "guacd_address env")
    case (Val addr)
    define w2 where "w2 = w1\<lparr>session_heap := (session_heap w1)[?p := s\<lparr>GuacdAddr := addr\<rparr>]\<rparr>"
    have "dial_guacd env (connect_config env req q []) (connect_info env q) addr w2 = Some (r, w')"
      using assms Val by (simp add: connect_new_def Let_def w1_def [symmetric] w2_def w1(5))
    from dial_guacd_result [OF this] show ?thesis
      using w1 by (simp add: w2_def session_of_heap SessionData_Get_heap) blast
  next
    case (Fail e)
    then have "w' = w1 \<and> r = Fail (Inl e)" using assms by (simp add: connect_new_def Let_def w1_def)
    with w1 show ?thesis by auto
  next
    case Panic
    then have "w' = w1 \<and> r = Panic" using assms by (simp add: connect_new_def Let_def w1_def)
    with w1 show ?thesis by auto
  qed
qed

text \<open>C23: connecting touches no room, and a tunnel it returns has the connection's id. When the
  request starts a session, the session is stored under that id with the data of the query,
  whether or not guacd can be reached and accepts the handshake; a failed attempt leaves it
  in the store. When the request joins a session, nothing changes.\<close>

theorem DemoDoConnect_stores_session:
  assumes "DemoDoConnect renv env req w = Some (r, w')" and "connect_query env req = Inr q"
    and "get_resource env (query_Get q ''appId'') \<noteq> None"
  shows "rdpRooms w' = rdpRooms w \<and> clients w' = clients w \<and> trace w' = trace w \<and>
    (\<forall>t. r = Val t \<longrightarrow> GetUUID t = new_uuid env) \<and>
    (if connect_target renv q w = []
     then \<exists>p. session_of w' (new_uuid env) = Some p \<and> p < length (session_heap w') \<and>
        RdpSessionId (ses_at w' p) = new_uuid env \<and> Email (ses_at w' p) = query_Get q ''userId'' \<and>
        AppID (ses_at w' p) = query_Get q ''appId'' \<and> TenantID (ses_at w' p) = query_Get q ''tenantId'' \<and>
        (\<forall>k. k \<noteq> new_uuid env \<longrightarrow> SessionData_Get w' k = SessionData_Get w k)
     else w' = w)"
proof (cases "connect_target renv q w = []")
  case True
  from assms(3) obtain s where s: "new_session env req q = Some s" by (auto simp: new_session_def)
  then have f: "RdpSessionId s = new_uuid env" "Email s = query_Get q ''userId''" "AppID s = query_Get q ''appId''"
    "TenantID s = query_Get q ''tenantId''" by (auto simp: new_session_def)
  have "connect_new env req q w = Some (r, w')" using assms(1,2) True by (simp add: DemoDoConnect_def)
  from connect_new_result [OF this s] obtain addr where c: "rdpRooms w' = rdpRooms w" "clients w' = clients w"
    "trace w' = trace w" "session_of w' (new_uuid env) = Some (length (session_heap w))"
    "session_heap w' = session_heap w @ [s\<lparr>GuacdAddr := addr\<rparr>]"
    "\<forall>k. k \<noteq> new_uuid env \<longrightarrow> SessionData_Get w' k = SessionData_Get w k"
    "\<forall>t. r = Val t \<longrightarrow> GetUUID t = new_uuid env" by auto
  have "ses_at w' (length (session_heap w)) = s\<lparr>GuacdAddr := addr\<rparr>" by (simp add: ses_at_def c(5))
  with c f True show ?thesis by simp
next
  case False
  have "connect_join env req q (connect_target renv q w) w = Some (r, w')"
    using assms(1,2) False by (simp add: DemoDoConnect_def)
  from connect_join_result [OF this] False show ?thesis by simp
qed

section \<open>The gateway with this callback\<close>

text \<open>The callback as the websocket server sees it; one that never returns leaves the request
  waiting, which is told apart by its message.\<close>

definition tunnel_info_of :: "SimpleTunnel \<Rightarrow> tunnel_info" where
  "tunnel_info_of t =
     \<lparr>tun_UUID = GetUUID t, tun_ConnectionID = Tunnel_ConnectionID t, tun_LoggingInfo = GetLoggingInfo t\<rparr>"

definition callback :: "env \<Rightarrow> connect_env \<Rightarrow> connect_request \<Rightarrow> world \<Rightarrow> (string, tunnel_info) outcome \<times> world" where
  "callback renv env req w =
     (case DemoDoConnect renv env req w of
        None \<Rightarrow> (Fail ''connecting does not return'', w)
      | Some (Val t, w') \<Rightarrow> (Val (tunnel_info_of t), w')
      | Some (Fail e, w') \<Rightarrow> (Fail ''connect to rdp failed'', w')
      | Some (Panic, w') \<Rightarrow> (Panic, w'))"

lemma connect_new_rooms:
  "connect_new env req q w = Some (r, w') \<Longrightarrow> rdpRooms w' = rdpRooms w \<and> clients w' = clients w"
  using connect_new_result [of env req q w r w']
  by (cases "new_session env req q") (auto simp: connect_new_def)

lemma callback_ok: "connect_ok (callback renv env req)"
proof -
  have "rdpRooms w' = rdpRooms w \<and> clients w' = clients w" if "DemoDoConnect renv env req w = Some (r, w')" for w r w'
    using that by (auto simp: DemoDoConnect_def Let_def split: sum.splits if_splits
        dest: connect_new_rooms connect_join_result)
  then show ?thesis
    by (fastforce simp: connect_ok_def callback_def split: option.split outcome.split prod.split)
qed

text \<open>A user who has a room for the application without being in it (after losing the
  connection) and follows a link to another session is let into the room of that session,
  but the tunnel is connected to the desktop of the user's own room.\<close>

theorem share_link_connects_elsewhere:
  assumes "GetRoomByAppIdAndCreator renv w app user = Some own" and "SessionId own \<noteq> []"
    and "GetRdpSessionRoom w (SessionId own) = Some own" and "SessionData_Get w (SessionId own) = Some (SessionPtr p)"
    and "AuthShare renv w user sid = (True, permissions)" and "sid \<noteq> []"
    and "connect_query env req = Inr q" and "query_Get q ''appId'' = app" and "query_Get q ''userId'' = user"
    and "query_Get q ''shareSessionId'' = sid"
  shows "share_target renv \<lparr>shareSessionId = sid, userId = user, appId = app, clientIp = ip\<rparr> w = Some (sid, permissions) \<and>
    (\<exists>config info. cfg_ConnectionID config = RdpConnectionId own \<and>
       DemoDoConnect renv env req w = dial_guacd env config info (GuacdAddr (ses_at w p)) w)"
proof -
  have t: "connect_target renv q w = SessionId own" using assms(1,8,9) by (simp add: connect_target_def)
  have "DemoDoConnect renv env req w = dial_guacd env (connect_config env req q (RdpConnectionId own))
      ((connect_info env q)\<lparr>li_AppName := ses_AppName (ses_at w p)\<rparr>) (GuacdAddr (ses_at w p)) w"
    using assms(2,3,4,7) t by (simp add: DemoDoConnect_def connect_join_def)
  moreover have "cfg_ConnectionID (connect_config env req q (RdpConnectionId own)) = RdpConnectionId own"
    by (simp add: connect_config_def)
  ultimately show ?thesis using assms(5,6) by (auto simp: share_target_def)
qed

text \<open>The width of the query is the height of the configuration, and the other way round.\<close>

lemma connect_size_swapped:
  assumes "query_Get q ''width'' = dec_int x" and "query_Get q ''height'' = dec_int y"
    and "Atoi (dec_int x) = Inr x" and "Atoi (dec_int y) = Inr y" and "x \<noteq> 0" and "y \<noteq> 0"
  shows "OptimalScreenWidth (connect_config env req q cid) = y \<and> OptimalScreenHeight (connect_config env req q cid) = x"
proof -
  have "dec_int n \<noteq> []" for n by (simp add: dec_int_def)
  with assms show ?thesis by (simp add: connect_config_def parse_size_def NewGuacamoleConfiguration_def)
qed

section \<open>The theorems at work\<close>

text \<open>A deployment in which guacd cannot be reached, and a request for a new session.\<close>

definition demo_connect :: connect_env where
  "demo_connect = \<lparr>parse_query = \<lambda>s. Inl ''bad'', policy_actions = \<lambda>a u. Some [''paste''],
     get_resource = \<lambda>a. Some \<lparr>app_EnableRecording = True, app_MonitorPolicyEntryId = []\<rparr>,
     tenant_type = \<lambda>t. ''High'', monitor_policy = \<lambda>e. ([], []), storage_fail = \<lambda>t. False, geo_db = False,
     geo_country = \<lambda>a. None, new_uuid = ''n'', now_text = ''now'', now_time = 5, in_pod = False,
     guacd_endpoints = Inr [], drawn = \<lambda>n. 0, net_dial = \<lambda>a. Inl ''connection refused'', visit_values = rev\<rparr>"

definition demo_values :: url_values where
  "demo_values = [(''appId'', [''app'']), (''userId'', [''eve'']), (''tenantId'', [''t'']),
     (''disable-copy'', [''false'']), (''shareSessionId'', [''s''])]"

definition demo_request :: "url_values \<Rightarrow> connect_request" where
  "demo_request q = \<lparr>cr_RawQuery = ''appId=app'', cr_body = Inl [], cr_values = q, cr_cookie = Some ''jwt''\<rparr>"

lemma demo_query [simp]: "connect_query env (demo_request q) = Inr q"
  by (simp add: connect_query_def demo_request_def)

lemma parameters_follow_policy_witness:
  "map_of (connect_parameters demo_connect (demo_request demo_values) demo_values) ''disable-copy'' = Some ''true'' \<and>
   map_of (connect_parameters demo_connect (demo_request demo_values) demo_values) ''gateway-password'' = Some ''jwt'' \<and>
   map_of (connect_parameters demo_connect (demo_request demo_values) demo_values) ''tenantId'' = None"
proof -
  have "is_order (visit_values demo_connect)" by (simp add: demo_connect_def)
  note p = parameters_follow_policy [where req = "demo_request demo_values" and q = demo_values, OF this refl]
  have "\<not> Contains (policy_permissions demo_connect demo_values) ''copy''" by code_simp
  moreover have "cr_cookie (demo_request demo_values) = Some ''jwt''" by (simp add: demo_request_def)
  moreover have "''tenantId'' \<in> set removed_keys" by (simp add: removed_keys_def)
  ultimately show ?thesis using p by blast
qed

lemma DemoDoConnect_stores_session_witness:
  "\<exists>w' p. DemoDoConnect demo_env demo_connect (demo_request [(''appId'', [''app'']), (''userId'', [''eve''])]) empty_world =
     Some (Fail (Inl ''connection refused''), w') \<and> session_of w' ''n'' = Some p \<and> Email (ses_at w' p) = ''eve''"
proof -
  let ?q = "[(''appId'', [''app'']), (''userId'', [''eve''])]"
  have t: "connect_target demo_env ?q empty_world = []"
    by (simp add: connect_target_def query_Get_def GetRoomByAppIdAndCreator_def empty_world_def room_ids_def
        demo_env_def map_filter_simps)
  have "\<exists>w'. DemoDoConnect demo_env demo_connect (demo_request ?q) empty_world = Some (Fail (Inl ''connection refused''), w')"
    by (simp add: DemoDoConnect_def t connect_new_def new_session_def demo_connect_def guacd_address_def
        dial_guacd_def Let_def)
  then obtain w' where d: "DemoDoConnect demo_env demo_connect (demo_request ?q) empty_world =
      Some (Fail (Inl ''connection refused''), w')" by blast
  have "get_resource demo_connect (query_Get ?q ''appId'') \<noteq> None" by (simp add: demo_connect_def)
  from DemoDoConnect_stores_session [OF d demo_query this] t d show ?thesis
    by (auto simp: query_Get_def demo_connect_def)
qed

text \<open>\<open>eve\<close> has left an own room \<open>o\<close> behind and follows a link to the session \<open>s\<close>.\<close>

definition own_room :: RdpSessionRoom where
  "own_room = demo_room\<lparr>Creator := ''eve'', SessionId := ''o'', RdpConnectionId := ''own'', Users := [(''bob'', 1)]\<rparr>"

definition two_rooms :: world where
  "two_rooms = demo_world\<lparr>rdpRooms := [(''s'', demo_room), (''o'', own_room)],
     session_data := [(''s'', SessionPtr 0), (''o'', SessionPtr 0)]\<rparr>"

lemma share_link_connects_elsewhere_witness:
  "\<exists>perm config info. share_target demo_env \<lparr>shareSessionId = ''s'', userId = ''eve'', appId = ''app'', clientIp = []\<rparr> two_rooms =
       Some (''s'', perm) \<and> cfg_ConnectionID config = ''own'' \<and>
     DemoDoConnect demo_env demo_connect (demo_request demo_values) two_rooms =
       dial_guacd demo_connect config info (GuacdAddr (ses_at two_rooms 0)) two_rooms"
proof -
  have g: "GetRoomByAppIdAndCreator demo_env two_rooms ''app'' ''eve'' = Some own_room"
    by (simp add: GetRoomByAppIdAndCreator_def two_rooms_def room_ids_def GetRdpSessionRoom_def demo_env_def
        map_filter_simps own_room_def demo_room_def demo_world_def)
  have "SessionId own_room = ''o''" "RdpConnectionId own_room = ''own''" by (simp_all add: own_room_def)
  moreover have "GetRdpSessionRoom two_rooms ''o'' = Some own_room"
    "SessionData_Get two_rooms ''o'' = Some (SessionPtr 0)"
    "AuthShare demo_env two_rooms ''eve'' ''s'' = (True, ''keyboard'')"
    by (simp_all add: two_rooms_def GetRdpSessionRoom_def SessionData_Get_def AuthShare_def demo_env_def)
  moreover have "query_Get demo_values ''appId'' = ''app''" "query_Get demo_values ''userId'' = ''eve''"
    "query_Get demo_values ''shareSessionId'' = ''s''" by (simp_all add: demo_values_def query_Get_def)
  ultimately show ?thesis
    using share_link_connects_elsewhere [OF g, of 0 "''s''" "''keyboard''" demo_connect "demo_request demo_values" demo_values]
    by auto
qed

end
