(* ===== verification/SessionStores.thy ===== *)
theory SessionStores
  imports Prelude GoStrings Machine "HOL-Library.Multiset"
begin

text \<open>
  The stores of the open connections: \<open>pkg/mem_session.go\<close>, which counts the websocket
  connections of each guacd connection and is listed by the handler \<open>/sessions/\<close>
  (\<open>cmd/guac/guac.go\<close>), and \<open>pkg/channel_control.go\<close>, which holds the channels over which
  the connections are told of new policies.
\<close>

section \<open>Connections by id (\<open>mem_session.go\<close>)\<close>

type_synonym session_store = "int gomap"

definition NewMemorySessionStore :: session_store where
  "NewMemorySessionStore = []"

definition MemorySessionStore_Get :: "session_store \<Rightarrow> string \<Rightarrow> int" where
  "MemorySessionStore_Get s i = (case map_of s i of Some n \<Rightarrow> n | None \<Rightarrow> 0)"

definition MemorySessionStore_Add :: "string \<Rightarrow> session_store \<Rightarrow> session_store" where
  "MemorySessionStore_Add i s =
     (case map_of s i of
        None \<Rightarrow> map_put i 1 s
      | Some n \<Rightarrow> map_put i (wrap64 (n + 1)) s)"

definition MemorySessionStore_Delete :: "string \<Rightarrow> session_store \<Rightarrow> session_store" where
  "MemorySessionStore_Delete i s =
     (case map_of s i of
        None \<Rightarrow> s
      | Some n \<Rightarrow> if n = 1 then map_del i s else map_put i (wrap64 (n - 1)) s)"

text \<open>The websocket server adds an id when a connection opens and deletes it when one ends.\<close>

datatype store_event = Opens string | Ends string

fun store_apply :: "store_event \<Rightarrow> session_store \<Rightarrow> session_store" where
  "store_apply (Opens i) s = MemorySessionStore_Add i s"
| "store_apply (Ends i) s = MemorySessionStore_Delete i s"

text \<open>The specification: the multiset of the ids of the open connections.\<close>

fun spec_apply :: "store_event \<Rightarrow> string multiset \<Rightarrow> string multiset" where
  "spec_apply (Opens i) M = add_mset i M"
| "spec_apply (Ends i) M = M - {#i#}"

definition stores :: "session_store \<Rightarrow> string multiset \<Rightarrow> bool" where
  "stores s M \<longleftrightarrow> map_ok s \<and>
     (\<forall>i. map_of s i = (if count M i = 0 then None else Some (int (count M i))))"

lemma stores_Get: "stores s M \<Longrightarrow> MemorySessionStore_Get s i = int (count M i)"
  by (simp add: stores_def MemorySessionStore_Get_def)

lemma stores_step:
  assumes "stores s M" and "size M < 2 ^ 63 - 1"
  shows "stores (store_apply e s) (spec_apply e M)"
proof -
  have w: "wrap64 (int (count M i) + 1) = int (count M i) + 1" for i
  proof -
    have "count M i + 1 < 2 ^ 63" using count_le_size [of M i] assms(2) by simp
    from wrap64_nat [OF this] show ?thesis by (simp add: add.commute)
  qed
  have d: "wrap64 (int (count M i) - 1) = int (count M i) - 1" if "1 < count M i" for i
  proof -
    have "count M i - 1 < 2 ^ 63" using count_le_size [of M i] assms(2) by simp
    moreover have "int (count M i - 1) = int (count M i) - 1" using that by simp
    ultimately show ?thesis using wrap64_nat [of "count M i - 1"] by metis
  qed
  show ?thesis
  proof (cases e)
    case (Opens i)
    with assms(1) w [of i] show ?thesis
      by (auto simp: stores_def MemorySessionStore_Add_def go_map_simps gm.invar_put
          simp del: count_greater_zero_iff)
  next
    case (Ends i)
    with assms(1) d [of i] show ?thesis
      by (auto simp: stores_def MemorySessionStore_Delete_def go_map_simps gm.invar_put gm.invar_del
          simp del: count_greater_zero_iff)
  qed
qed

lemma size_spec: "size (fold spec_apply es M) \<le> size M + length es"
proof (induction es arbitrary: M)
  case (Cons e es)
  have "size (spec_apply e M) \<le> Suc (size M)"
    by (cases e) (auto intro: le_SucI size_mset_mono [OF diff_subset_eq_self])
  with Cons.IH [of "spec_apply e M"] show ?case by simp
qed simp

lemma stores_run:
  "stores s M \<Longrightarrow> size M + length es < 2 ^ 63 \<Longrightarrow> stores (fold store_apply es s) (fold spec_apply es M)"
proof (induction es arbitrary: s M)
  case (Cons e es)
  have "size (spec_apply e M) \<le> Suc (size M)" using size_spec [of "[e]" M] by simp
  with Cons stores_step [OF Cons.prems(1), of e] show ?case by simp
qed simp

text \<open>C24: after any sequence of fewer than 2 to the 63 connections that open and end, in any
  interleaving and with ends that nothing opened, the store is the multiset of the open
  ones: it holds exactly the ids with an open connection, with their number, and each once.\<close>

theorem store_counts_connections:
  assumes "length es < 2 ^ 63" and "s = fold store_apply es NewMemorySessionStore"
    and "M = fold spec_apply es {#}"
  shows "distinct (map_keys s) \<and> set (map_keys s) = set_mset M \<and> MemorySessionStore_Get s i = int (count M i)"
proof -
  have "stores s M"
    using stores_run [of "[]" "{#}" es] assms by (simp add: NewMemorySessionStore_def stores_def)
  moreover then have "set (map_keys s) = set_mset M"
    unfolding gm.keys_dom by (auto simp: stores_def)
  ultimately show ?thesis by (simp add: stores_Get) (simp add: stores_def map_ok_def)
qed

lemma store_counts_connections_witness:
  "MemorySessionStore_Get (fold store_apply [Opens ''a'', Ends ''b'', Opens ''a'', Opens ''b'', Ends ''a''] NewMemorySessionStore) ''a'' = 1"
  using store_counts_connections
    [of "[Opens ''a'', Ends ''b'', Opens ''a'', Opens ''b'', Ends ''a'']", OF _ refl refl, of "''a''"] by simp

section \<open>The handler \<open>/sessions/\<close>\<close>

text \<open>\<open>connIds\<close> is a slice of pointers, all nil at first; every round of the loop writes
  the element \<open>i\<close>, which stays 0.\<close>

definition conn_ids :: "(string list \<Rightarrow> string list) \<Rightarrow> session_store \<Rightarrow> (string \<times> int) option list" where
  "conn_ids visit s =
     fold (\<lambda>k xs. xs[0 := Some (k, MemorySessionStore_Get s k)]) (visit (map_keys s))
       (replicate (length s) None)"

lemma fold_first: "xs \<noteq> [] \<Longrightarrow> ks \<noteq> [] \<Longrightarrow> fold (\<lambda>k xs. xs[0 := f k]) ks xs = f (last ks) # tl xs"
proof (induction ks arbitrary: xs)
  case (Cons k ks)
  then obtain x ys where xs: "xs = x # ys" by (cases xs) auto
  show ?case
  proof (cases "ks = []")
    case False
    with Cons.IH [of "f k # ys"] xs show ?thesis by simp
  qed (simp add: xs)
qed simp

definition sessions_handler :: "(string list \<Rightarrow> string list) \<Rightarrow> session_store \<Rightarrow> string" where
  "sessions_handler visit s =
     json_enc (JArr (map (\<lambda>c. case c of
         None \<Rightarrow> JNull
       | Some (k, n) \<Rightarrow> JObj [(''uuid'', JStr k), (''num'', JInt n)]) (conn_ids visit s))) @ [CHR 0x0A]"

lemma conn_ids_first:
  assumes "is_order visit" and "s \<noteq> []"
  shows "conn_ids visit s =
    Some (last (visit (map_keys s)), MemorySessionStore_Get s (last (visit (map_keys s)))) # replicate (length s - 1) None"
proof -
  have "visit (map_keys s) \<noteq> []" using order_length [OF assms(1), of "map_keys s"] assms(2) by auto
  with assms(2) show ?thesis by (simp add: conn_ids_def fold_first)
qed

text \<open>The listing of the open connections has as many elements as there are ids, but names
  only one of them, the one the loop visited last; all others are null.\<close>

theorem sessions_lists_one:
  assumes "is_order visit" and "s \<noteq> []" and "k = last (visit (map_keys s))"
  shows "sessions_handler visit s =
    ''['' @ Join '','' (json_enc (JObj [(''uuid'', JStr k), (''num'', JInt (MemorySessionStore_Get s k))]) #
      replicate (length s - 1) ''null'') @ '']'' @ [CHR 0x0A]"
  by (simp add: sessions_handler_def conn_ids_first [OF assms(1,2)] assms(3) map_replicate_const [symmetric])

lemma sessions_lists_one_witness:
  "sessions_handler rev [(''a'', 2), (''b'', 1)] =
     ''['' @ Join '','' [json_enc (JObj [(''uuid'', JStr ''a''), (''num'', JInt 2)]), ''null''] @ '']'' @ [CHR 0x0A]"
  using sessions_lists_one [OF is_order_rev, of "[(''a'', 2), (''b'', 1)]" "''a''"]
  by (simp add: MemorySessionStore_Get_def del: json_enc.simps)

section \<open>The channels (\<open>channel_control.go\<close>)\<close>

text \<open>
  A channel made by \<open>make(chan int, 1)\<close> holds at most one value: a send blocks (\<open>None\<close>) while
  it is full and panics once it is closed; closing it a second time panics. Channels are
  indices into \<open>chan_heap\<close>. Every operation holds the lock of the struct to its end.
\<close>

record channel =
  ch_buf :: "int list"
  ch_closed :: bool

record ChannelManagement =
  ChannelList :: "nat gomap gomap"
  chan_heap :: "channel list"

definition NewChannelManagement :: ChannelManagement where
  "NewChannelManagement = \<lparr>ChannelList = [], chan_heap = []\<rparr>"

definition list_of :: "ChannelManagement \<Rightarrow> string \<Rightarrow> nat gomap" where
  "list_of c key = (case map_of (ChannelList c) key of Some l \<Rightarrow> l | None \<Rightarrow> [])"

definition ChannelManagement_Add :: "string \<Rightarrow> string \<Rightarrow> nat \<Rightarrow> ChannelManagement \<Rightarrow> ChannelManagement" where
  "ChannelManagement_Add key i ch c =
     c\<lparr>ChannelList := map_put key (map_put i ch (list_of c key)) (ChannelList c)\<rparr>"

definition close_chan :: "nat \<Rightarrow> ChannelManagement \<Rightarrow> (string, unit) outcome \<times> ChannelManagement" where
  "close_chan ch c =
     (if ch_closed (chan_heap c ! ch) then (Panic, c)
      else (Val (), c\<lparr>chan_heap := (chan_heap c)[ch := (chan_heap c ! ch)\<lparr>ch_closed := True\<rparr>]\<rparr>))"

definition drop_channel :: "string \<Rightarrow> string \<Rightarrow> ChannelManagement \<Rightarrow> ChannelManagement" where
  "drop_channel key i c =
     (case map_of (ChannelList c) key of
        None \<Rightarrow> c
      | Some l \<Rightarrow> c\<lparr>ChannelList := map_put key (map_del i l) (ChannelList c)\<rparr>)"

definition ChannelManagement_Remove ::
  "string \<Rightarrow> string \<Rightarrow> string \<Rightarrow> ChannelManagement \<Rightarrow> (string, unit) outcome \<times> ChannelManagement" where
  "ChannelManagement_Remove appID userID i c =
     (case map_of (list_of c appID) i of
        None \<Rightarrow> (Val (), drop_channel userID i c)
      | Some ch \<Rightarrow>
          (case close_chan ch c of
             (Val _, c1) \<Rightarrow> (Val (), drop_channel userID i (drop_channel appID i c1))
           | r \<Rightarrow> r))"

fun send_chans :: "int \<Rightarrow> nat list \<Rightarrow> ChannelManagement \<Rightarrow> ((string, unit) outcome \<times> ChannelManagement) option" where
  "send_chans op [] c = Some (Val (), c)"
| "send_chans op (ch # chs) c =
     (if ch_closed (chan_heap c ! ch) then Some (Panic, c)
      else if ch_buf (chan_heap c ! ch) \<noteq> [] then None
      else send_chans op chs (c\<lparr>chan_heap := (chan_heap c)[ch := (chan_heap c ! ch)\<lparr>ch_buf := [op]\<rparr>]\<rparr>))"

definition BroadCast :: "(string list \<Rightarrow> string list) \<Rightarrow> string \<Rightarrow> int \<Rightarrow> ChannelManagement \<Rightarrow>
    ((string, unit) outcome \<times> ChannelManagement) option" where
  "BroadCast visit key op c =
     send_chans op (List.map_filter (map_of (list_of c key)) (visit (map_keys (list_of c key)))) c"

text \<open>
  \<open>connectToAstraea\<close> (\<open>cmd/guac/guac.go\<close>), one request of the policy service: every id of every
  event is told the value 1.
\<close>

fun broadcast_ids :: "(string list \<Rightarrow> string list) \<Rightarrow> string list \<Rightarrow> ChannelManagement \<Rightarrow>
    ((string, unit) outcome \<times> ChannelManagement) option" where
  "broadcast_ids visit [] c = Some (Val (), c)"
| "broadcast_ids visit (i # is) c =
     (case BroadCast visit i 1 c of
        Some (Val _, c1) \<Rightarrow> broadcast_ids visit is c1
      | r \<Rightarrow> r)"

definition notify_request :: "(string list \<Rightarrow> string list) \<Rightarrow> (string \<times> string list) list \<Rightarrow> ChannelManagement \<Rightarrow>
    ((string, unit) outcome \<times> ChannelManagement) option" where
  "notify_request visit events c = broadcast_ids visit (concat (map snd events)) c"

text \<open>The websocket server registers a new channel under the user and the application.\<close>

definition register_channel :: "string \<Rightarrow> string \<Rightarrow> string \<Rightarrow> ChannelManagement \<Rightarrow> nat \<times> ChannelManagement" where
  "register_channel appID userID i c =
     (let ch = length (chan_heap c);
          c1 = c\<lparr>chan_heap := chan_heap c @ [\<lparr>ch_buf = [], ch_closed = False\<rparr>]\<rparr>
      in (ch, ChannelManagement_Add appID i ch (ChannelManagement_Add userID i ch c1)))"

text \<open>With the two steps of it, between which the lock is free.\<close>

definition new_channel :: "string \<Rightarrow> string \<Rightarrow> ChannelManagement \<Rightarrow> nat \<times> ChannelManagement" where
  "new_channel userID i c =
     (let ch = length (chan_heap c);
          c1 = c\<lparr>chan_heap := chan_heap c @ [\<lparr>ch_buf = [], ch_closed = False\<rparr>]\<rparr>
      in (ch, ChannelManagement_Add userID i ch c1))"

lemma register_channel_steps:
  "register_channel appID userID i c = (let (ch, c1) = new_channel userID i c in (ch, ChannelManagement_Add appID i ch c1))"
  by (simp add: register_channel_def new_channel_def Let_def)

section \<open>The open connections and their channels\<close>

record open_conn =
  oc_app :: string
  oc_user :: string
  oc_id :: string
  oc_chan :: nat

type_synonym cm_state = "ChannelManagement \<times> open_conn set"

inductive cm_step :: "cm_state \<Rightarrow> cm_state \<Rightarrow> bool" where
  conn_opens: "\<forall>x\<in>os. oc_id x \<noteq> i \<Longrightarrow> register_channel app user i c = (ch, c') \<Longrightarrow>
    cm_step (c, os) (c', insert \<lparr>oc_app = app, oc_user = user, oc_id = i, oc_chan = ch\<rparr> os)"
| conn_ends: "x \<in> os \<Longrightarrow> ChannelManagement_Remove (oc_app x) (oc_user x) (oc_id x) c = (r, c') \<Longrightarrow>
    cm_step (c, os) (c', os - {x})"
| policy_sent: "is_order visit \<Longrightarrow> BroadCast visit key op c = Some (r, c') \<Longrightarrow> cm_step (c, os) (c', os)"
| policy_read: "ch_buf (chan_heap c ! ch) = op # rest \<Longrightarrow>
    cm_step (c, os) (c\<lparr>chan_heap := (chan_heap c)[ch := (chan_heap c ! ch)\<lparr>ch_buf := rest\<rparr>]\<rparr>, os)"

definition cm_start :: "cm_state \<Rightarrow> bool" where
  "cm_start s \<longleftrightarrow> s = (NewChannelManagement, {})"

text \<open>Whether the connection is told of changes of \<open>key\<close>.\<close>

definition concerns :: "string \<Rightarrow> open_conn \<Rightarrow> bool" where
  "concerns key x \<longleftrightarrow> key = oc_app x \<or> key = oc_user x"

definition cm_inv :: "cm_state \<Rightarrow> bool" where
  "cm_inv = (\<lambda>(c, os).
     (\<forall>key. map_ok (list_of c key)) \<and>
     (\<forall>key i ch. map_of (list_of c key) i = Some ch \<longleftrightarrow> (\<exists>x\<in>os. concerns key x \<and> oc_id x = i \<and> oc_chan x = ch)) \<and>
     (\<forall>x\<in>os. oc_chan x < length (chan_heap c) \<and> \<not> ch_closed (chan_heap c ! oc_chan x)) \<and>
     inj_on oc_chan os \<and> inj_on oc_id os)"

lemma list_of_put: "list_of (c\<lparr>ChannelList := map_put key l (ChannelList c)\<rparr>) k = (if k = key then l else list_of c k)"
  by (simp add: list_of_def go_map_simps)

lemma list_of_heap [simp]: "list_of (c\<lparr>chan_heap := h\<rparr>) = list_of c"
  by (simp add: list_of_def fun_eq_iff)

lemma list_of_Add: "list_of (ChannelManagement_Add key i ch c) k = (if k = key then map_put i ch (list_of c key) else list_of c k)"
  by (simp add: ChannelManagement_Add_def list_of_put)

lemma list_of_drop: "list_of (drop_channel key i c) k = (if k = key then map_del i (list_of c key) else list_of c k)"
  by (auto simp: drop_channel_def list_of_put split: option.split) (simp_all add: list_of_def)

lemma chan_heap_simps [simp]: "chan_heap (ChannelManagement_Add key i ch c) = chan_heap c"
  "chan_heap (drop_channel key i c) = chan_heap c"
  by (simp_all add: ChannelManagement_Add_def drop_channel_def split: option.split)

lemma cm_invD:
  assumes "cm_inv (c, os)"
  shows "map_ok (list_of c key)"
    and "map_of (list_of c key) i = Some ch \<longleftrightarrow> (\<exists>x\<in>os. concerns key x \<and> oc_id x = i \<and> oc_chan x = ch)"
    and "x \<in> os \<Longrightarrow> oc_chan x < length (chan_heap c)" and "x \<in> os \<Longrightarrow> \<not> ch_closed (chan_heap c ! oc_chan x)"
    and "inj_on oc_chan os" and "inj_on oc_id os"
  using assms unfolding cm_inv_def by auto

text \<open>The loop of \<open>BroadCast\<close> over distinct open channels.\<close>

definition put_op :: "int \<Rightarrow> nat \<Rightarrow> ChannelManagement \<Rightarrow> ChannelManagement" where
  "put_op op ch c = c\<lparr>chan_heap := (chan_heap c)[ch := (chan_heap c ! ch)\<lparr>ch_buf := [op]\<rparr>]\<rparr>"

lemma put_op_simps [simp]: "length (chan_heap (put_op op ch c)) = length (chan_heap c)"
  "ChannelList (put_op op ch c) = ChannelList c" "list_of (put_op op ch c) = list_of c"
  "k \<noteq> ch \<Longrightarrow> chan_heap (put_op op ch c) ! k = chan_heap c ! k"
  "ch < length (chan_heap c) \<Longrightarrow> chan_heap (put_op op ch c) ! ch = (chan_heap c ! ch)\<lparr>ch_buf := [op]\<rparr>"
  by (simp_all add: put_op_def)

lemma send_chans_blocks:
  assumes "distinct chs" and "\<forall>ch\<in>set chs. \<not> ch_closed (chan_heap c ! ch)"
    and "\<exists>ch\<in>set chs. ch_buf (chan_heap c ! ch) \<noteq> []"
  shows "send_chans op chs c = None"
  using assms
proof (induction chs arbitrary: c)
  case (Cons ch chs)
  show ?case
  proof (cases "ch_buf (chan_heap c ! ch) = []")
    case True
    have "chan_heap (put_op op ch c) ! k = chan_heap c ! k" if "k \<in> set chs" for k
      using Cons.prems(1) that by (intro put_op_simps) auto
    then have "send_chans op chs (put_op op ch c) = None"
      using Cons.prems True by (intro Cons.IH) auto
    with True Cons.prems(2) show ?thesis by (simp add: put_op_def)
  qed (use Cons.prems(2) in simp)
qed simp

lemma send_chans_delivers:
  assumes "distinct chs" and "\<forall>ch\<in>set chs. ch < length (chan_heap c) \<and> \<not> ch_closed (chan_heap c ! ch) \<and> ch_buf (chan_heap c ! ch) = []"
  obtains c' where "send_chans op chs c = Some (Val (), c')" and "ChannelList c' = ChannelList c"
    and "length (chan_heap c') = length (chan_heap c)"
    and "\<forall>ch\<in>set chs. chan_heap c' ! ch = (chan_heap c ! ch)\<lparr>ch_buf := [op]\<rparr>"
    and "\<forall>ch. ch \<notin> set chs \<longrightarrow> chan_heap c' ! ch = chan_heap c ! ch"
  using assms
proof (induction chs arbitrary: c thesis)
  case Nil
  show ?case by (rule Nil.prems(1) [of c]) simp_all
next
  case (Cons ch chs)
  have k: "chan_heap (put_op op ch c) ! k = chan_heap c ! k" if "k \<noteq> ch" for k
    using that by simp
  have "\<forall>k\<in>set chs. k < length (chan_heap (put_op op ch c)) \<and> \<not> ch_closed (chan_heap (put_op op ch c) ! k) \<and>
      ch_buf (chan_heap (put_op op ch c) ! k) = []"
    using Cons.prems(2,3) k by (metis distinct.simps(2) list.set_intros(2) put_op_simps(1))
  then obtain c' where c': "send_chans op chs (put_op op ch c) = Some (Val (), c')" "ChannelList c' = ChannelList c"
    "length (chan_heap c') = length (chan_heap c)"
    "\<forall>k\<in>set chs. chan_heap c' ! k = (chan_heap (put_op op ch c) ! k)\<lparr>ch_buf := [op]\<rparr>"
    "\<forall>k. k \<notin> set chs \<longrightarrow> chan_heap c' ! k = chan_heap (put_op op ch c) ! k"
    using Cons.IH [of "put_op op ch c"] Cons.prems(2) by auto
  have n: "ch \<notin> set chs" using Cons.prems(2) by simp
  show ?case
  proof (rule Cons.prems(1) [of c'])
    show "send_chans op (ch # chs) c = Some (Val (), c')"
      using Cons.prems(3) c'(1) by (simp add: put_op_def)
    show "\<forall>k\<in>set (ch # chs). chan_heap c' ! k = (chan_heap c ! k)\<lparr>ch_buf := [op]\<rparr>"
      using c'(4,5) n Cons.prems(2,3) k by (metis list.set_intros(1) put_op_simps(5) set_ConsD)
    show "\<forall>k. k \<notin> set (ch # chs) \<longrightarrow> chan_heap c' ! k = chan_heap c ! k"
      using c'(5) k by auto
  qed (use c' in simp_all)
qed

text \<open>The channels \<open>BroadCast\<close> sends to are those of the connections concerned, each once.\<close>

lemma told_channels:
  assumes "cm_inv (c, os)" and "is_order visit"
    and "chs = List.map_filter (map_of (list_of c key)) (visit (map_keys (list_of c key)))"
  shows "set chs = oc_chan ` {x \<in> os. concerns key x}" and "distinct chs"
proof -
  let ?l = "list_of c key"
  note inv = cm_invD [OF assms(1)]
  have "set chs = {ch. \<exists>i\<in>set (map_keys ?l). map_of ?l i = Some ch}"
    unfolding assms(3) using order_set [OF assms(2)] by (force simp: List.map_filter_def)
  also have "\<dots> = {ch. \<exists>i. map_of ?l i = Some ch}" using map_key_mem [of ?l] by blast
  also have "\<dots> = oc_chan ` {x \<in> os. concerns key x}" unfolding inv(2) by auto
  finally show "set chs = oc_chan ` {x \<in> os. concerns key x}" .
  have inj: "i = j" if "map_of ?l i = Some ch" "map_of ?l j = Some ch" for i j ch
  proof -
    from that obtain x y where "x \<in> os" "y \<in> os" "oc_id x = i" "oc_id y = j" "oc_chan x = ch" "oc_chan y = ch"
      unfolding inv(2) by blast
    then show ?thesis using inj_onD [OF inv(5)] by blast
  qed
  have "distinct (visit (map_keys ?l))"
    using order_distinct [OF assms(2)] inv(1) [of key] by (simp add: map_ok_def)
  moreover have "inj_on (the \<circ> map_of ?l) {i. map_of ?l i \<noteq> None}"
    using inj by (auto intro!: inj_onI)
  ultimately show "distinct chs"
    unfolding assms(3) List.map_filter_def by (auto simp: distinct_map intro: inj_on_subset)
qed

lemma BroadCast_inv:
  assumes i: "cm_inv (c, os)" and v: "is_order visit" and b: "BroadCast visit key op c = Some (r, c')"
  shows "cm_inv (c', os)"
proof -
  define chs where "chs = List.map_filter (map_of (list_of c key)) (visit (map_keys (list_of c key)))"
  note inv = cm_invD [OF i] and t = told_channels [OF i v chs_def]
  have ok: "\<forall>ch\<in>set chs. ch < length (chan_heap c) \<and> \<not> ch_closed (chan_heap c ! ch)"
    unfolding t(1) using inv(3,4) by auto
  then have "\<forall>ch\<in>set chs. ch_buf (chan_heap c ! ch) = []"
    using send_chans_blocks [OF t(2), of c op] b by (auto simp: BroadCast_def chs_def [symmetric])
  with ok obtain c1 where c1: "send_chans op chs c = Some (Val (), c1)" "ChannelList c1 = ChannelList c"
    "length (chan_heap c1) = length (chan_heap c)"
    "\<forall>ch\<in>set chs. chan_heap c1 ! ch = (chan_heap c ! ch)\<lparr>ch_buf := [op]\<rparr>"
    "\<forall>ch. ch \<notin> set chs \<longrightarrow> chan_heap c1 ! ch = chan_heap c ! ch"
    using send_chans_delivers [OF t(2), of c op] by metis
  with b have "c' = c1" by (simp add: BroadCast_def chs_def [symmetric])
  moreover have "list_of c1 = list_of c" using c1(2) by (simp add: list_of_def fun_eq_iff)
  moreover have "ch_closed (chan_heap c1 ! ch) = ch_closed (chan_heap c ! ch)" for ch
    using c1(4,5) by (cases "ch \<in> set chs") auto
  ultimately show ?thesis using i c1(3) by (simp add: cm_inv_def)
qed

lemma register_channel_inv:
  assumes i: "cm_inv (c, os)" and "\<forall>x\<in>os. oc_id x \<noteq> k" and "register_channel app user k c = (ch, c')"
  shows "cm_inv (c', insert \<lparr>oc_app = app, oc_user = user, oc_id = k, oc_chan = ch\<rparr> os)"
proof -
  note inv = cm_invD [OF i]
  let ?x = "\<lparr>oc_app = app, oc_user = user, oc_id = k, oc_chan = ch\<rparr>"
  have ch: "ch = length (chan_heap c)" and c': "chan_heap c' = chan_heap c @ [\<lparr>ch_buf = [], ch_closed = False\<rparr>]"
    and l: "list_of c' key = (if concerns key ?x then map_put k ch (list_of c key) else list_of c key)" for key
    using assms(3) by (auto simp: register_channel_def Let_def list_of_Add concerns_def update_triv)
  have "map_of (list_of c' key) j = Some n \<longleftrightarrow> (\<exists>x\<in>insert ?x os. concerns key x \<and> oc_id x = j \<and> oc_chan x = n)" for key j n
    using assms(2) inv(2) [of key j n] by (auto simp: l go_map_simps)
  moreover have "\<forall>x\<in>os. oc_chan x < ch" using inv(3) ch by blast
  moreover have "map_ok (list_of c' key)" for key using inv(1) by (simp add: l gm.invar_put)
  moreover have "\<forall>y\<in>insert ?x os. oc_chan y < length (chan_heap c') \<and> \<not> ch_closed (chan_heap c' ! oc_chan y)"
    using inv(3,4) by (auto simp: c' ch nth_append less_SucI)
  moreover have "inj_on oc_chan (insert ?x os)" "inj_on oc_id (insert ?x os)"
    using inv(3,5,6) assms(2) ch by (fastforce simp: inj_on_def)+
  ultimately show ?thesis by (simp add: cm_inv_def)
qed

lemma Remove_inv:
  assumes i: "cm_inv (c, os)" and x: "x \<in> os"
    and "ChannelManagement_Remove (oc_app x) (oc_user x) (oc_id x) c = (r, c')"
  shows "cm_inv (c', os - {x})"
proof -
  note inv = cm_invD [OF i]
  have "map_of (list_of c (oc_app x)) (oc_id x) = Some (oc_chan x)"
    unfolding inv(2) using x by (auto simp: concerns_def)
  with inv(4) [OF x] assms(3) have c': "c' = drop_channel (oc_user x) (oc_id x) (drop_channel (oc_app x) (oc_id x)
      (c\<lparr>chan_heap := (chan_heap c)[oc_chan x := (chan_heap c ! oc_chan x)\<lparr>ch_closed := True\<rparr>]\<rparr>))"
    by (simp add: ChannelManagement_Remove_def close_chan_def)
  have l: "list_of c' key = (if concerns key x then map_del (oc_id x) (list_of c key) else list_of c key)" for key
    by (auto simp: c' list_of_drop concerns_def delete_idem)
  have "map_of (list_of c' key) j = Some n \<longleftrightarrow> (\<exists>y\<in>os - {x}. concerns key y \<and> oc_id y = j \<and> oc_chan y = n)" for key j n
    using inv(2) [of key j n] inj_onD [OF inv(6)] x by (auto simp: l go_map_simps)
  moreover have "map_ok (list_of c' key)" for key using inv(1) by (simp add: l gm.invar_del)
  moreover have "\<forall>y\<in>os - {x}. oc_chan y < length (chan_heap c') \<and> \<not> ch_closed (chan_heap c' ! oc_chan y)"
  proof
    fix y assume y: "y \<in> os - {x}"
    then have "oc_chan x \<noteq> oc_chan y" using inj_onD [OF inv(5), of x y] x by auto
    with y inv(3,4) [of y] show "oc_chan y < length (chan_heap c') \<and> \<not> ch_closed (chan_heap c' ! oc_chan y)"
      by (simp add: c')
  qed
  moreover have "inj_on oc_chan (os - {x})" "inj_on oc_id (os - {x})"
    using inv(5,6) by (auto intro: inj_on_subset)
  ultimately show ?thesis by (simp add: cm_inv_def)
qed

text \<open>A channel that is so far listed for the user only counts as one of a connection without another
  application.\<close>

lemma new_channel_inv:
  assumes i: "cm_inv (c, os)" and "\<forall>x\<in>os. oc_id x \<noteq> k" and n: "new_channel user k c = (ch, c')"
  shows "cm_inv (c', insert \<lparr>oc_app = user, oc_user = user, oc_id = k, oc_chan = ch\<rparr> os)"
proof -
  obtain c2 where r: "register_channel user user k c = (ch, c2)"
    using n by (auto simp: register_channel_steps)
  then have c2: "c2 = ChannelManagement_Add user k ch c'" using n by (simp add: register_channel_steps)
  have same: "list_of c2 = list_of c'" "chan_heap c2 = chan_heap c'"
    using n by (auto simp: c2 new_channel_def Let_def list_of_Add fun_eq_iff update_triv)
  from register_channel_inv [OF i assms(2) r] show ?thesis by (simp add: cm_inv_def same)
qed

lemma Add_inv:
  assumes i: "cm_inv (c, os)" and x: "x \<in> os" and app: "oc_app x = oc_user x"
  shows "cm_inv (ChannelManagement_Add app (oc_id x) (oc_chan x) c, insert (x\<lparr>oc_app := app\<rparr>) (os - {x}))"
proof -
  note inv = cm_invD [OF i]
  let ?y = "x\<lparr>oc_app := app\<rparr>" and ?c = "ChannelManagement_Add app (oc_id x) (oc_chan x) c"
  have id: "y = x" if "y \<in> os" "oc_id y = oc_id x" for y using inj_onD [OF inv(6) that(2) that(1) x] .
  have "map_of (list_of ?c key) j = Some n \<longleftrightarrow>
      (\<exists>z\<in>insert ?y (os - {x}). concerns key z \<and> oc_id z = j \<and> oc_chan z = n)" for key j n
  proof (cases "j = oc_id x")
    case True
    then have "(\<exists>z\<in>insert ?y (os - {x}). concerns key z \<and> oc_id z = j \<and> oc_chan z = n) \<longleftrightarrow> concerns key ?y \<and> oc_chan x = n"
      using id by auto
    moreover have "map_of (list_of c key) j = Some n \<longleftrightarrow> concerns key x \<and> oc_chan x = n"
      using True inv(2) [of key j n] id x by auto
    ultimately show ?thesis using app True by (auto simp: list_of_Add go_map_simps concerns_def)
  next
    case False
    then show ?thesis using inv(2) [of key j n] by (auto simp: list_of_Add go_map_simps)
  qed
  moreover have "map_ok (list_of ?c key)" for key using inv(1) by (simp add: list_of_Add gm.invar_put)
  moreover have "inj_on oc_chan (insert ?y (os - {x}))" "inj_on oc_id (insert ?y (os - {x}))"
    using inj_onD [OF inv(5)] inj_onD [OF inv(6)] x by (fastforce simp: inj_on_def)+
  ultimately show ?thesis using inv(3,4) x by (auto simp: cm_inv_def)
qed

interpretation channels: invariant_machine cm_start cm_step cm_inv
proof
  show "cm_start s \<Longrightarrow> cm_inv s" for s
    by (auto simp: cm_start_def cm_inv_def NewChannelManagement_def list_of_def)
  show "cm_inv s'" if "cm_inv s" and "cm_step s s'" for s s'
    using that(2,1)
  proof cases
    case (policy_read c ch op rest os)
    have "ch_closed ((chan_heap c)[ch := (chan_heap c ! ch)\<lparr>ch_buf := rest\<rparr>] ! k) = ch_closed (chan_heap c ! k)" for k
      by (cases "k = ch"; cases "k < length (chan_heap c)") (simp_all add: list_update_beyond)
    with policy_read that(1) show ?thesis by (simp add: cm_inv_def)
  qed (use that(1) register_channel_inv Remove_inv BroadCast_inv in auto)
qed

text \<open>C20: whatever connections opened and ended before, a broadcast never hits a closed channel,
  and it reaches exactly the open connections of that application or user, each once; but it
  waits, and keeps the lock that opening and ending a connection need, as long as one of
  them has not taken the value before.\<close>

theorem BroadCast_reaches_open:
  assumes "reach cm_start cm_step (c, os)" and "is_order visit"
  shows "(BroadCast visit key op c = None \<longleftrightarrow> (\<exists>x\<in>os. concerns key x \<and> ch_buf (chan_heap c ! oc_chan x) \<noteq> [])) \<and>
    (\<forall>r c'. BroadCast visit key op c = Some (r, c') \<longrightarrow> r = Val () \<and>
       (\<forall>x\<in>os. ch_buf (chan_heap c' ! oc_chan x) =
          (if concerns key x then [op] else ch_buf (chan_heap c ! oc_chan x))))"
proof -
  have i: "cm_inv (c, os)" by (rule channels.reach_inv [OF assms(1)])
  define chs where "chs = List.map_filter (map_of (list_of c key)) (visit (map_keys (list_of c key)))"
  note inv = cm_invD [OF i] and t = told_channels [OF i assms(2) chs_def]
  have b: "BroadCast visit key op c = send_chans op chs c" by (simp add: BroadCast_def chs_def)
  have ok: "\<forall>ch\<in>set chs. ch < length (chan_heap c) \<and> \<not> ch_closed (chan_heap c ! ch)"
    unfolding t(1) using inv(3,4) by auto
  show ?thesis
  proof (cases "\<exists>x\<in>os. concerns key x \<and> ch_buf (chan_heap c ! oc_chan x) \<noteq> []")
    case True
    then have "\<exists>ch\<in>set chs. ch_buf (chan_heap c ! ch) \<noteq> []" unfolding t(1) by auto
    with True send_chans_blocks [OF t(2)] ok b show ?thesis by auto
  next
    case False
    then have "\<forall>ch\<in>set chs. ch_buf (chan_heap c ! ch) = []" unfolding t(1) by auto
    with ok obtain c1 where c1: "send_chans op chs c = Some (Val (), c1)"
      "\<forall>ch\<in>set chs. chan_heap c1 ! ch = (chan_heap c ! ch)\<lparr>ch_buf := [op]\<rparr>"
      "\<forall>ch. ch \<notin> set chs \<longrightarrow> chan_heap c1 ! ch = chan_heap c ! ch"
      using send_chans_delivers [OF t(2), of c op] by metis
    have "ch_buf (chan_heap c1 ! oc_chan x) = (if concerns key x then [op] else ch_buf (chan_heap c ! oc_chan x))"
      if "x \<in> os" for x
    proof -
      have "oc_chan x \<in> set chs \<longleftrightarrow> concerns key x"
        unfolding t(1) using inj_onD [OF inv(5)] that by blast
      with c1(2,3) show ?thesis by auto
    qed
    with False c1(1) b show ?thesis by auto
  qed
qed

text \<open>Two connections of the user \<open>u\<close>, to different applications.\<close>

lemma BroadCast_reaches_open_witness:
  "\<exists>c os c' x y. reach cm_start cm_step (c, os) \<and> BroadCast rev ''u'' 1 c = Some (Val (), c') \<and>
     x \<in> os \<and> y \<in> os \<and> oc_id x = ''1'' \<and> oc_id y = ''2'' \<and>
     ch_buf (chan_heap c' ! oc_chan x) = [1] \<and> ch_buf (chan_heap c' ! oc_chan y) = [1]"
proof -
  let ?s0 = "(NewChannelManagement, {} :: open_conn set)"
  let ?x = "\<lparr>oc_app = ''a'', oc_user = ''u'', oc_id = ''1'', oc_chan = 0\<rparr>"
  let ?y = "\<lparr>oc_app = ''b'', oc_user = ''u'', oc_id = ''2'', oc_chan = 1\<rparr>"
  define c1 where "c1 = snd (register_channel ''a'' ''u'' ''1'' NewChannelManagement)"
  define c2 where "c2 = snd (register_channel ''b'' ''u'' ''2'' c1)"
  have r1: "register_channel ''a'' ''u'' ''1'' NewChannelManagement = (0, c1)"
    by (simp add: c1_def register_channel_def NewChannelManagement_def Let_def)
  have r2: "register_channel ''b'' ''u'' ''2'' c1 = (1, c2)"
    by (simp add: c2_def c1_def register_channel_def NewChannelManagement_def Let_def)
  have "reach cm_start cm_step ?s0" by (rule reach_start) (simp add: cm_start_def)
  moreover have "cm_step ?s0 (c1, {?x})" using conn_opens [OF _ r1, of "{}"] by simp
  ultimately have "reach cm_start cm_step (c1, {?x})" by (rule reach_step)
  moreover have "cm_step (c1, {?x}) (c2, {?y, ?x})" using conn_opens [OF _ r2, of "{?x}"] by simp
  ultimately have r: "reach cm_start cm_step (c2, {?y, ?x})" by (rule reach_step)
  have h: "chan_heap c2 = [\<lparr>ch_buf = [], ch_closed = False\<rparr>, \<lparr>ch_buf = [], ch_closed = False\<rparr>]"
    by (simp add: c2_def c1_def register_channel_def NewChannelManagement_def Let_def)
  note b = BroadCast_reaches_open [OF r is_order_rev, of "''u''" 1]
  from b h obtain v c' where "BroadCast rev ''u'' 1 c2 = Some (v, c')" by fastforce
  moreover with b h have "v = Val ()" "ch_buf (chan_heap c' ! 0) = [1]" "ch_buf (chan_heap c' ! 1) = [1]"
    by (auto simp: concerns_def)
  ultimately show ?thesis using r by (intro exI [of _ c2] exI [of _ "{?y, ?x}"] exI [of _ c'] exI [of _ ?x] exI [of _ ?y]) simp
qed

end
