(* ===== verification/WsConnection.thy ===== *)
theory WsConnection
  imports RoomProps WsServer SessionStores
begin

text \<open>
  The whole of \<open>WebsocketServer.ServeHTTP\<close> around its two loops: besides the rooms of
  \<open>WsServer\<close>, the callbacks \<open>OnConnect\<close> and \<open>OnDisconnect\<close>, which the program sets to the
  session store, and the channel over which the connection is told of new policies. What is
  deferred runs on every way out.
\<close>

record server =
  server_world :: world
  sessions :: session_store
  channelManagement :: ChannelManagement

definition has_channel :: "ws_request \<Rightarrow> bool" where
  "has_channel req \<longleftrightarrow> userId req \<noteq> [] \<and> appId req \<noteq> []"

text \<open>
  From the tunnel on, up to the room; \<open>i\<close> is the new id of the channel. When the application is not
  found, the handler panics before it has registered the channel.
\<close>

definition ws_register :: "ws_request \<Rightarrow> string \<Rightarrow> tunnel_info \<Rightarrow> server \<Rightarrow> server" where
  "ws_register req i tunnel s =
     s\<lparr>sessions := MemorySessionStore_Add (tun_ConnectionID tunnel) (sessions s),
       channelManagement :=
         (if has_channel req then snd (register_channel (appId req) (userId req) i (channelManagement s))
          else channelManagement s)\<rparr>"

definition ws_counted :: "tunnel_info \<Rightarrow> server \<Rightarrow> server" where
  "ws_counted tunnel s =
     s\<lparr>sessions := MemorySessionStore_Delete (tun_ConnectionID tunnel)
         (MemorySessionStore_Add (tun_ConnectionID tunnel) (sessions s))\<rparr>"

definition ws_unregister :: "ws_request \<Rightarrow> string \<Rightarrow> tunnel_info \<Rightarrow> server \<Rightarrow> server" where
  "ws_unregister req i tunnel s =
     s\<lparr>channelManagement :=
         (if has_channel req then snd (ChannelManagement_Remove (appId req) (userId req) i (channelManagement s))
          else channelManagement s),
       sessions := MemorySessionStore_Delete (tun_ConnectionID tunnel) (sessions s)\<rparr>"

definition ws_accept ::
  "env \<Rightarrow> ws_request \<Rightarrow> nat \<Rightarrow> string \<Rightarrow> (world \<Rightarrow> (string, tunnel_info) outcome \<times> world) \<Rightarrow> server \<Rightarrow>
     (string, ws_connection) outcome \<times> server" where
  "ws_accept env req ws i connect s =
     (case share_target env req (server_world s) of
        None \<Rightarrow> (Fail ''auth share failed'', s)
      | Some target \<Rightarrow>
          (case connect (server_world s) of
             (Fail e, w1) \<Rightarrow> (Fail e, s\<lparr>server_world := w1\<rparr>)
           | (Panic, w1) \<Rightarrow> (Panic, s\<lparr>server_world := w1\<rparr>)
           | (Val tunnel, w1) \<Rightarrow>
               (case query_sharing env (appId req) of
                  None \<Rightarrow> (Panic, ws_counted tunnel (s\<lparr>server_world := w1\<rparr>))
                | Some sharing \<Rightarrow>
                    let s1 = ws_register req i tunnel (s\<lparr>server_world := w1\<rparr>)
                    in (case enter_room env req ws target tunnel sharing w1 of
                          (Val con, w2) \<Rightarrow>
                            (Val con, s1\<lparr>server_world := SendPermission (con_client con)
                               (emit [RdpCount (li_TenantId (tun_LoggingInfo tunnel)) 1] w2)\<rparr>)
                        | (Fail e, w2) \<Rightarrow> (Fail e, ws_unregister req i tunnel (s1\<lparr>server_world := w2\<rparr>))
                        | (Panic, w2) \<Rightarrow> (Panic, ws_unregister req i tunnel (s1\<lparr>server_world := w2\<rparr>))))))"

definition ws_finish :: "env \<Rightarrow> ws_request \<Rightarrow> string \<Rightarrow> ws_connection \<Rightarrow> server \<Rightarrow> (string, unit) outcome \<times> server" where
  "ws_finish env req i con s =
     (let (r, w1) = ws_close env con (server_world s)
      in (r, ws_unregister req i (con_tunnel con) (s\<lparr>server_world := w1\<rparr>)))"

section \<open>On the rooms, it is the connection of \<open>WsServer\<close>\<close>

lemma register_world [simp]: "server_world (ws_register req i tunnel s) = server_world s"
  "server_world (ws_unregister req i tunnel s) = server_world s" "server_world (ws_counted tunnel s) = server_world s"
  by (simp_all add: ws_register_def ws_unregister_def ws_counted_def)

lemma ws_accept_open:
  "ws_open env req ws connect (server_world s) =
     (fst (ws_accept env req ws i connect s), server_world (snd (ws_accept env req ws i connect s)))"
  by (auto simp: ws_accept_def ws_open_def Let_def split: option.split outcome.split prod.split)

section \<open>What a connection leaves behind\<close>

text \<open>The same connections counted, and the same channels told of every key.\<close>

definition same_stores :: "server \<Rightarrow> server \<Rightarrow> bool" where
  "same_stores s s' \<longleftrightarrow>
     (\<forall>k. MemorySessionStore_Get (sessions s') k = MemorySessionStore_Get (sessions s) k) \<and>
     (\<forall>key. map_of (list_of (channelManagement s') key) = map_of (list_of (channelManagement s) key))"

lemma register_lists:
  "list_of (snd (register_channel app user i c)) key =
     (if key = app \<or> key = user then map_put i (length (chan_heap c)) (list_of c key) else list_of c key)"
  by (auto simp: register_channel_def Let_def list_of_Add update_triv)

lemma Remove_registered:
  assumes "map_of (list_of c app) i = Some ch" and "\<not> ch_closed (chan_heap c ! ch)"
  shows "list_of (snd (ChannelManagement_Remove app user i c)) key =
    (if key = app \<or> key = user then map_del i (list_of c key) else list_of c key)"
  using assms by (auto simp: ChannelManagement_Remove_def close_chan_def list_of_drop delete_idem)

lemma register_unregister:
  assumes "\<forall>key. map_of (list_of (channelManagement s) key) i = None" and "stores (sessions s) M" and "size M < 2 ^ 63 - 2"
  shows "same_stores s (ws_unregister req i tunnel ((ws_register req i tunnel s)\<lparr>server_world := w\<rparr>))"
proof -
  let ?s = "ws_unregister req i tunnel ((ws_register req i tunnel s)\<lparr>server_world := w\<rparr>)"
  let ?id = "tun_ConnectionID tunnel" and ?c = "channelManagement s"
  have st: "stores (sessions ?s) (add_mset ?id M - {#?id#})"
    using stores_step [OF stores_step [OF assms(2), of "Opens ?id"], of "Ends ?id"] assms(3)
    by (simp add: ws_unregister_def ws_register_def)
  have "map_of (list_of (channelManagement ?s) key) = map_of (list_of ?c key)" for key
  proof (cases "has_channel req")
    case True
    let ?c1 = "snd (register_channel (appId req) (userId req) i ?c)"
    have "map_of (list_of ?c1 (appId req)) i = Some (length (chan_heap ?c))" by (simp add: register_lists go_map_simps)
    moreover have "\<not> ch_closed (chan_heap ?c1 ! length (chan_heap ?c))" by (simp add: register_channel_def Let_def)
    ultimately have "list_of (channelManagement ?s) key =
        (if key = appId req \<or> key = userId req then map_del i (list_of ?c1 key) else list_of ?c1 key)"
      using True Remove_registered by (simp add: ws_unregister_def ws_register_def)
    then show ?thesis using assms(1) by (auto simp: register_lists go_map_simps fun_eq_iff)
  qed (simp add: ws_unregister_def ws_register_def)
  with stores_Get [OF st] stores_Get [OF assms(2)] show ?thesis by (simp add: same_stores_def)
qed

lemma counted_stores:
  assumes "stores (sessions s) M" and "size M < 2 ^ 63 - 2"
  shows "same_stores s (ws_counted tunnel (s\<lparr>server_world := w\<rparr>))"
proof -
  let ?id = "tun_ConnectionID tunnel"
  have st: "stores (sessions (ws_counted tunnel (s\<lparr>server_world := w\<rparr>))) (add_mset ?id M - {#?id#})"
    using stores_step [OF stores_step [OF assms(1), of "Opens ?id"], of "Ends ?id"] assms(2) by (simp add: ws_counted_def)
  have "channelManagement (ws_counted tunnel (s\<lparr>server_world := w\<rparr>)) = channelManagement s" by (simp add: ws_counted_def)
  with stores_Get [OF st] stores_Get [OF assms(1)] show ?thesis by (simp add: same_stores_def)
qed

lemma enter_room_tunnel: "enter_room env req ws target tunnel sharing w = (Val con, w') \<Longrightarrow> con_tunnel con = tunnel"
  by (auto simp: enter_room_def Let_def split: if_splits prod.splits outcome.splits option.splits)

lemma register_world_update:
  "ws_register req i tunnel (s\<lparr>server_world := w\<rparr>) = (ws_register req i tunnel s)\<lparr>server_world := w\<rparr>"
  by (simp add: ws_register_def)

lemma same_stores_world [simp]: "same_stores s (s\<lparr>server_world := w\<rparr>)" "same_stores s s"
  by (simp_all add: same_stores_def)

text \<open>A connection on its own leaves nothing in the stores: when it is refused, when
  connecting, asking for the application or entering the room fails or panics, and when it has ended (whatever happened in
  the rooms meanwhile), the same connections are counted as before and the same channels are
  told of new policies.\<close>

theorem connection_leaves_stores:
  assumes "stores (sessions s) M" and "size M < 2 ^ 63 - 2"
    and "\<forall>key. map_of (list_of (channelManagement s) key) i = None"
    and "ws_accept env req ws i connect s = (r, s1)"
  shows "case r of
      Val con \<Rightarrow> \<forall>w. same_stores s (snd (ws_finish env req i con (s1\<lparr>server_world := w\<rparr>)))
    | _ \<Rightarrow> same_stores s s1"
proof -
  note ru = register_unregister [OF assms(3,1,2), of req]
  show ?thesis
  proof (cases "share_target env req (server_world s)")
    case None
    with assms(4) show ?thesis by (auto simp: ws_accept_def)
  next
    case (Some target)
    obtain q w1 where c: "connect (server_world s) = (q, w1)" by fastforce
    show ?thesis
    proof (cases q)
      case (Val tunnel)
      show ?thesis
      proof (cases "query_sharing env (appId req)")
        case None
        with assms(4) Some c Val counted_stores [OF assms(1,2)] show ?thesis by (auto simp: ws_accept_def)
      next
        case sharing: (Some sharing)
        obtain q2 w2 where e: "enter_room env req ws target tunnel sharing w1 = (q2, w2)" by fastforce
        show ?thesis
        proof (cases q2)
          case v: (Val con)
          have "snd (ws_finish env req i con (s1\<lparr>server_world := w\<rparr>)) = ws_unregister req i tunnel
              ((ws_register req i tunnel s)\<lparr>server_world := snd (ws_close env con w)\<rparr>)" for w
            using assms(4) Some c Val sharing e v enter_room_tunnel [of env req ws target tunnel sharing w1 con w2]
            by (auto simp: ws_accept_def ws_finish_def Let_def register_world_update split: prod.splits)
          with ru assms(4) Some c Val sharing e v show ?thesis by (auto simp: ws_accept_def Let_def)
        qed (use assms(4) Some c Val sharing e ru in \<open>auto simp: ws_accept_def Let_def register_world_update\<close>)
      qed
    qed (use assms(4) Some c in \<open>auto simp: ws_accept_def\<close>)
  qed
qed

text \<open>A browser opens a new session and leaves.\<close>

lemma connection_leaves_stores_witness:
  "\<exists>con s1. ws_accept demo_env \<lparr>shareSessionId = [], userId = ''host'', appId = ''app'', clientIp = []\<rparr> 10 ''i''
       (\<lambda>w. (Val \<lparr>tun_UUID = ''n'', tun_ConnectionID = ''c'', tun_LoggingInfo = demo_info\<rparr>, w))
       \<lparr>server_world = empty_world, sessions = NewMemorySessionStore, channelManagement = NewChannelManagement\<rparr> = (Val con, s1) \<and>
     MemorySessionStore_Get (sessions s1) ''c'' = 1 \<and>
     MemorySessionStore_Get (sessions (snd (ws_finish demo_env
       \<lparr>shareSessionId = [], userId = ''host'', appId = ''app'', clientIp = []\<rparr> ''i'' con s1))) ''c'' = 0"
proof -
  let ?s = "\<lparr>server_world = empty_world, sessions = NewMemorySessionStore, channelManagement = NewChannelManagement\<rparr>"
  let ?req = "\<lparr>shareSessionId = [], userId = ''host'', appId = ''app'', clientIp = []\<rparr>"
  let ?tun = "\<lparr>tun_UUID = ''n'', tun_ConnectionID = ''c'', tun_LoggingInfo = demo_info\<rparr>"
  let ?con = "\<lambda>w :: world. (Val ?tun :: (string, tunnel_info) outcome, w)"
  have g: "share_target demo_env ?req empty_world = Some ([], [])"
    by (simp add: share_target_def GetRoomByAppIdAndCreator_def empty_world_def room_ids_def demo_env_def map_filter_simps)
  have "\<exists>con w. enter_room demo_env ?req 10 ([], []) ?tun True empty_world = (Val con, w)"
    by (simp add: enter_room_def Let_def split: prod.split)
  moreover have "query_sharing demo_env (appId ?req) = Some True" by (simp add: query_sharing_def demo_env_def)
  ultimately obtain con s1 where a: "ws_accept demo_env ?req 10 ''i'' ?con ?s = (Val con, s1)"
    and g1: "MemorySessionStore_Get (sessions s1) ''c'' = 1"
    by (auto simp: ws_accept_def g Let_def ws_register_def NewMemorySessionStore_def MemorySessionStore_Add_def
        MemorySessionStore_Get_def)
  have st: "stores (sessions ?s) {#}" by (simp add: NewMemorySessionStore_def stores_def)
  have "\<forall>key. map_of (list_of (channelManagement ?s) key) ''i'' = None"
    by (simp add: NewChannelManagement_def list_of_def)
  from connection_leaves_stores [OF st _ this a] have "\<forall>w. same_stores ?s (snd (ws_finish demo_env ?req ''i'' con (s1\<lparr>server_world := w\<rparr>)))"
    by simp
  from this [rule_format, of "server_world s1"] have "same_stores ?s (snd (ws_finish demo_env ?req ''i'' con s1))" by simp
  then have "MemorySessionStore_Get (sessions (snd (ws_finish demo_env ?req ''i'' con s1))) ''c'' = 0"
    by (simp add: same_stores_def NewMemorySessionStore_def MemorySessionStore_Get_def)
  with a g1 show ?thesis by blast
qed

end
