(* ===== verification/StressTest.thy ===== *)
theory StressTest
  imports GoStrings GuacStream
begin

text \<open>
  The load test, \<open>stresstest/client.go\<close> and \<open>cmd/stresstest\<close>: the query a client connects with,
  the mouse movements it sends and how it reads what it receives. The websocket and the
  clock are parameters.
\<close>

section \<open>The connection\<close>

record Client =
  cl_Index :: int
  ServerIp :: string
  RunFor :: int
  Jwt :: string

record targets =
  APP_ID :: string
  NETWORK_ID :: string
  SEM :: string
  TENANT_ID :: string
  CE :: string

definition getTunnelId :: "string \<Rightarrow> string \<Rightarrow> string \<Rightarrow> string \<Rightarrow> string" where
  "getTunnelId ip port networkId tenantId =
     ip @ ''-'' @ port @ ''.template-rdp.'' @ networkId @ ''.'' @ tenantId @ ''.seapp.appaegis.tunnel''"

definition connect_values :: "targets \<Rightarrow> Client \<Rightarrow> (string \<times> string) list" where
  "connect_values t c =
     [(''hostname'', getTunnelId (ServerIp c) ''3389'' (NETWORK_ID t) (TENANT_ID t)), (''scheme'', ''rdp''),
      (''ignore-cert'', ''true''), (''username'', ''user'' @ dec_int (cl_Index c)), (''password'', ''Aa123456''),
      (''width'', ''700''), (''height'', ''577''), (''color-depth'', ''24''), (''enable-wallpaper'', ''true''),
      (''enable-drive'', ''true''), (''userId'', ''heybruce+qatest@gmail.com''), (''appId'', APP_ID t),
      (''tenantId'', TENANT_ID t), (''gateway-hostname'', SEM t), (''gateway-port'', ''7081'')]"

section \<open>The mouse\<close>

record mouse =
  mouse_x :: int
  mouse_y :: int
  reverse :: bool

definition mouse_start :: mouse where
  "mouse_start = \<lparr>mouse_x = 1, mouse_y = 1, reverse = False\<rparr>"

definition mouse_ins :: "mouse \<Rightarrow> byte list" where
  "mouse_ins m = fst (Instruction_Byte (NewInstruction ''mouse'' [dec_int (mouse_x m), dec_int (mouse_y m)]))"

definition mouse_next :: "mouse \<Rightarrow> mouse" where
  "mouse_next m =
     (let diff = (if reverse m then -1 else 1);
          x = mouse_x m + diff; y = mouse_y m + diff
      in \<lparr>mouse_x = x, mouse_y = y,
          reverse = (if x \<ge> 500 then True else if x \<le> 50 then False else reverse m)\<rparr>)"

text \<open>
  The loop: \<open>ok k\<close> tells whether the \<open>k\<close>-th write succeeds, \<open>elapsed k\<close> is the time since the
  start after it; \<open>None\<close> when \<open>n\<close> rounds are not enough.
\<close>

fun mouse_loop :: "(nat \<Rightarrow> bool) \<Rightarrow> (nat \<Rightarrow> int) \<Rightarrow> int \<Rightarrow> nat \<Rightarrow> nat \<Rightarrow> mouse \<Rightarrow> byte list list option" where
  "mouse_loop ok elapsed runFor 0 k m = None"
| "mouse_loop ok elapsed runFor (Suc n) k m =
     (if \<not> ok k then Some []
      else if elapsed k > runFor then Some [mouse_ins m]
      else map_option ((#) (mouse_ins m)) (mouse_loop ok elapsed runFor n (Suc k) (mouse_next m)))"

text \<open>
  \<open>Connect\<close>: the answer to dialling is the response, if there is one, and whether it failed.
  Without a response \<open>DumpResponse\<close> panics before the error is looked at.
\<close>

definition Connect :: "bool \<Rightarrow> bool \<Rightarrow> (nat \<Rightarrow> bool) \<Rightarrow> (nat \<Rightarrow> int) \<Rightarrow> nat \<Rightarrow> Client \<Rightarrow> (string, byte list list) outcome option" where
  "Connect has_response failed ok elapsed n c =
     (if \<not> has_response then Some Panic
      else if failed then Some (Val [])
      else map_option Val (mouse_loop ok elapsed (RunFor c) n 0 mouse_start))"

section \<open>What it receives\<close>

record Message =
  Op :: string
  msg_Args :: "string list"

definition parseMessage :: "byte list \<Rightarrow> Message" where
  "parseMessage data =
     (let opPart = hd (Split (CHR '','') data);
          i = IndexByte opPart (CHR ''.'')
      in \<lparr>Op = drop (nat (i + 1)) opPart, msg_Args = []\<rparr>)"

section \<open>Facts\<close>

text \<open>The two coordinates stay together, between 1 and 500.\<close>

lemma mouse_range:
  "mouse_x ((mouse_next ^^ n) mouse_start) = mouse_y ((mouse_next ^^ n) mouse_start) \<and>
   1 \<le> mouse_x ((mouse_next ^^ n) mouse_start) \<and> mouse_x ((mouse_next ^^ n) mouse_start) \<le> 500"
proof -
  have "(let m = (mouse_next ^^ n) mouse_start in mouse_x m = mouse_y m \<and> 1 \<le> mouse_x m \<and> mouse_x m \<le> 500 \<and>
      (mouse_x m = 500 \<longrightarrow> reverse m) \<and> (mouse_x m \<le> 50 \<longrightarrow> \<not> reverse m))"
    by (induction n) (auto simp: mouse_start_def mouse_next_def Let_def)
  then show ?thesis by (simp add: Let_def)
qed

text \<open>The loop ends once the time is over or a write fails.\<close>

lemma mouse_loop_ends:
  assumes "\<not> ok j \<or> elapsed j > runFor" and "k \<le> j" and "j < k + n"
  shows "mouse_loop ok elapsed runFor n k m \<noteq> None"
  using assms(2,3)
proof (induction n arbitrary: k m)
  case (Suc n)
  show ?case
  proof (cases "k = j")
    case True
    with assms(1) show ?thesis by auto
  next
    case False
    with Suc.prems have "Suc k \<le> j" "j < Suc k + n" by simp_all
    from Suc.IH [OF this] show ?thesis by auto
  qed
qed simp

text \<open>The operation of an instruction with arguments is read as it was written.\<close>

lemma IndexByte_at: "c \<notin> set a \<Longrightarrow> IndexByte_from i (a @ c # b) c = int (i + length a)"
  by (induction a arbitrary: i) auto

lemma parseMessage_op:
  assumes "CHR '','' \<notin> set opcode"
  shows "Op (parseMessage (ins_bytes opcode (a # as))) = opcode"
proof -
  have nd: "\<not> is_digit (CHR '','')" "\<not> is_digit (CHR ''.'')" by (simp_all add: is_digit_def ord_def)
  have d: "c \<notin> set (dec n)" if "\<not> is_digit c" for c n using dec_digits [of c n] that by blast
  have e: "elem_text opcode = dec (length opcode) @ CHR ''.'' # opcode" by (simp add: elem_text_def)
  obtain rest where b: "ins_bytes opcode (a # as) = elem_text opcode @ CHR '','' # rest"
    by (simp add: ins_bytes_text args_text_Cons)
  have "CHR '','' \<notin> set (elem_text opcode)" using assms d [OF nd(1)] by (simp add: e)
  then have "hd (Split (CHR '','') (ins_bytes opcode (a # as))) = elem_text opcode" by (simp add: b Split_at)
  moreover have "IndexByte (elem_text opcode) (CHR ''.'') = int (length (dec (length opcode)))"
    unfolding e IndexByte_def using d [OF nd(2)] by (simp add: IndexByte_at)
  ultimately show ?thesis by (simp add: parseMessage_def Let_def e nat_add_distrib)
qed

section \<open>The clients of a pod (\<open>cmd/stresstest\<close>)\<close>

definition SERVERS :: "string list" where
  "SERVERS = [''192.168.50.21'']"

text \<open>
  The index is the second part of the host name, 0 when there is none or when it is no
  number; a name without a second part panics (\<open>None\<close>).
\<close>

definition host_index :: "string \<Rightarrow> int option" where
  "host_index host =
     (if host = [] then Some 0
      else case Split (CHR ''-'') host of
             a # b # rest \<Rightarrow>
               Some (case Atoi b of Inr n \<Rightarrow> n | Inl ErrSyntax \<Rightarrow> 0 | Inl ErrRange \<Rightarrow> 2 ^ 63 - 1)
           | _ \<Rightarrow> None)"

text \<open>The clients the program starts; reading \<open>SERVERS\<close> out of range panics.\<close>

definition start_clients :: "nat \<Rightarrow> int \<Rightarrow> int \<Rightarrow> string \<Rightarrow> Client list option" where
  "start_clients userCount index runFor jwt =
     (if userCount = 0 then Some []
      else if index < 0 \<or> int (length SERVERS) \<le> index then None
      else Some (map (\<lambda>i. \<lparr>cl_Index = int i + 1, ServerIp = SERVERS ! nat index, RunFor = runFor, Jwt = jwt\<rparr>) [0..<userCount]))"

text \<open>Only the pod with the number 0 starts its clients.\<close>

lemma start_clients_panics: "0 < userCount \<Longrightarrow> start_clients userCount index runFor jwt = None \<longleftrightarrow> index \<noteq> 0"
  by (auto simp: start_clients_def SERVERS_def)

end
