(* ===== verification/Mail.thy ===== *)
theory Mail
  imports CommandProps
begin

text \<open>
  The invitation mail of \<open>pkg/email.go\<close>: the template, what \<open>text/template\<close> makes of it, and
  \<open>SendInvitation\<close>. Creating the AWS session and sending are the answers of the SES client;
  the field \<open>mail_err\<close> of \<open>env\<close> is what \<open>SendInvitation\<close> answers to the commands.
\<close>

section \<open>\<open>text/template\<close>\<close>

text \<open>
  A template is text with actions between two opening and two closing braces. The only
  action the program uses is a field of the data, \<open>.Name\<close>, which is printed as it is:
  unlike \<open>html/template\<close>, the package escapes nothing. Other actions are not modelled
  (\<open>None\<close>), nor are the trim markers.
\<close>

datatype piece = Literal string | Field string

fun template_Parse :: "string option \<Rightarrow> string \<Rightarrow> string \<Rightarrow> piece list option" where
  "template_Parse None acc [] = Some [Literal (rev acc)]"
| "template_Parse (Some a) acc [] = None"
| "template_Parse None acc (c # cs) =
     (if HasPrefix (c # cs) ''{{'' then map_option ((#) (Literal (rev acc))) (template_Parse (Some []) [] (drop 1 cs))
      else template_Parse None (c # acc) cs)"
| "template_Parse (Some a) acc (c # cs) =
     (if HasPrefix (c # cs) ''}}'' then
        (if HasPrefix (rev a) ''.'' then map_option ((#) (Field (drop 1 (rev a)))) (template_Parse None [] (drop 1 cs))
         else None)
      else template_Parse (Some (c # a)) acc cs)"

fun template_Execute :: "piece list \<Rightarrow> (string \<Rightarrow> string option) \<Rightarrow> string option" where
  "template_Execute [] data = Some []"
| "template_Execute (Literal s # ps) data = map_option ((@) s) (template_Execute ps data)"
| "template_Execute (Field n # ps) data =
     (case data n of None \<Rightarrow> None | Some v \<Rightarrow> map_option ((@) v) (template_Execute ps data))"

lemma template_text: "CHR ''{'' \<notin> set s \<Longrightarrow>
    template_Parse None acc (s @ r) = template_Parse None (rev s @ acc) r"
  by (induction s arbitrary: acc) auto

lemma template_name: "CHR ''}'' \<notin> set s \<Longrightarrow>
    template_Parse (Some a) acc (s @ r) = template_Parse (Some (rev s @ a)) acc r"
  by (induction s arbitrary: a) auto

text \<open>Text before an action, the action, and the rest.\<close>

lemma template_action:
  assumes "CHR ''{'' \<notin> set s" and "CHR ''}'' \<notin> set name"
  shows "template_Parse None [] (s @ ''{{.'' @ name @ ''}}'' @ r) =
    map_option (\<lambda>ps. Literal s # Field name # ps) (template_Parse None [] r)"
  using assms(2) by (simp add: template_text [OF assms(1)] template_name option.map_comp comp_def)

section \<open>The mail\<close>

definition Subject :: string where "Subject = ''Mammoth Cyber RDP application screen share''"
definition CharSet :: string where "CharSet = ''UTF-8''"

text \<open>\<open>HtmlBody\<close>, its lines with their tabs, up to the first action, and between the actions.\<close>

definition tabs :: "nat \<Rightarrow> string \<Rightarrow> string" where
  "tabs n s = replicate n (CHR 0x09) @ s"

definition line :: "nat \<Rightarrow> string \<Rightarrow> string" where
  "line n s = tabs n s @ [CHR 0x0A]"

definition body_head :: string where
  "body_head = concat
    [[CHR 0x0A],
     line 0 ''<html>'',
     line 1 ''<head></head>'',
     line 1 ''<body>'',
     line 0 ''      <div style=\"text-align: center;\">'',
     line 2 ''<img'',
     line 2 ''  style=\"display: block; margin-left: auto; margin-right: auto;\"'',
     line 2 ''  src=\"https://appaegis-public.s3.amazonaws.com/logo.png\"'',
     line 2 ''  width=\"250\"'',
     line 2 ''  height=\"auto\"'',
     line 2 ''/>'',
     line 2 ''<span style=\"font-size: 12pt;\">'',
     line 2 ''  <strong>'',
     line 3 ''<span style = \"color: #373757; font-family: arial, helvetica, sans-serif;\">'',
     line 3 ''</span>'',
     line 2 ''  </strong>'',
     line 2 ''</span>'',
     line 2 ''<br />'',
     line 2 ''<br />'',
     line 2 ''<table'',
     line 2 ''  style=\"'',
     line 3 ''min-height: 200px;'',
     line 3 ''width: 100%;'',
     line 3 ''border-collapse: collapse;'',
     line 3 ''background-color: #f2f5f9;'',
     line 3 ''border-color: #ffffff;'',
     line 3 ''border-style: none;\"'',
     line 2 ''    border=\"1\"'',
     line 2 ''>'',
     line 2 ''  <tbody >'',
     line 3 ''<tr>'',
     line 3 ''  <td style=\"width: 100%; text-align: center;\">'',
     line 4 ''<span'',
     line 4 ''  style=\"'',
     line 5 ''color: #373757;'',
     line 5 ''font-family: arial, helvetica, sans-serif;'',
     line 5 ''font-size: 12pt;'',
     line 4 ''\">'',
     tabs 5 '''']"

definition body_invite :: string where
  "body_invite = concat
    ['' has invited you to join a screen share. <br/>'' @ [CHR 0x0A],
     line 5 ''Please click the link below to join:'',
     line 4 ''</span>'',
     line 4 ''<br />'',
     line 4 ''<br />'',
     line 4 ''<a'',
     tabs 4 ''  href=\"'']"

definition body_button :: string where
  "body_button = concat
    [''\"'' @ [CHR 0x0A],
     line 4 ''  target=\"_blank\"'',
     line 4 ''  style=\"'',
     line 5 ''background-color: #00c2c6;'',
     line 5 ''color: #ffffff;'',
     line 5 ''border: 0px solid #000000;'',
     line 5 ''border-radius: 3px;'',
     line 5 ''box-sizing: border-box;'',
     line 5 ''font-family: arial, helvetica, sans-serif;'',
     line 5 ''font-size: 13px;'',
     line 5 ''font-weight: bold;'',
     line 5 ''line-height: 40px;'',
     line 5 ''padding: 12px 24px;'',
     line 5 ''text-align: center;'',
     line 5 ''text-decoration: none;'',
     line 5 ''vertical-align: middle;\"'',
     line 4 ''  rel=\"noopener\"'',
     tabs 4 ''>Application Name: '']"

definition body_tail :: string where
  "body_tail = concat
    [''</a>'' @ [CHR 0x0A],
     line 3 ''  </td>'',
     line 3 ''</tr>'',
     line 2 ''  </tbody>'',
     line 2 ''</table>'',
     line 2 ''<br />'',
     line 1 ''  </div>'',
     line 1 ''</body>'',
     line 0 ''</html>'']"

definition HtmlBody :: string where
  "HtmlBody = body_head @ ''{{.Inviter}}'' @ body_invite @ ''{{.Link}}'' @ body_button @ ''{{.AppName}}'' @ body_tail"

record ContentAttributes =
  Inviter :: string
  Link :: string
  att_AppName :: string

definition attribute :: "ContentAttributes \<Rightarrow> string \<Rightarrow> string option" where
  "attribute c = map_of [(''Inviter'', Inviter c), (''Link'', Link c), (''AppName'', att_AppName c)]"

text \<open>\<open>ses.SendEmailInput\<close>; texts come with their character set.\<close>

record SendEmailInput =
  ToAddresses :: "string list"
  Source :: string
  subject_data :: "string \<times> string"
  html_data :: "string \<times> string"

text \<open>\<open>session\<close> is the error of \<open>NewSession\<close>, \<open>ses\<close> that of sending a mail; the result holds
  the mails that were handed to SES.\<close>

definition SendInvitation :: "string option \<Rightarrow> (SendEmailInput \<Rightarrow> string option) \<Rightarrow> string \<Rightarrow> string \<Rightarrow> string \<Rightarrow> string \<Rightarrow>
    string option \<times> SendEmailInput list" where
  "SendInvitation session ses to inviter link appName =
     (case session of
        Some e \<Rightarrow> (Some e, [])
      | None \<Rightarrow>
          (case template_Parse None [] HtmlBody of
             None \<Rightarrow> (Some ''template: content'', [])
           | Some tmpl \<Rightarrow>
               (case template_Execute tmpl (attribute \<lparr>Inviter = inviter, Link = link, att_AppName = appName\<rparr>) of
                  None \<Rightarrow> (Some ''template: content'', [])
                | Some content \<Rightarrow>
                    let input = \<lparr>ToAddresses = [to], Source = ''account@mammothcyber.com'',
                                 subject_data = (CharSet, Subject), html_data = (CharSet, content)\<rparr>
                    in (ses input, [input]))))"

section \<open>What is sent\<close>

lemma body_text: "CHR ''{'' \<notin> set body_head" "CHR ''{'' \<notin> set body_invite"
  "CHR ''{'' \<notin> set body_button" "CHR ''{'' \<notin> set body_tail"
  by (simp_all add: body_head_def body_invite_def body_button_def body_tail_def line_def tabs_def)

lemma HtmlBody_template: "template_Parse None [] HtmlBody =
    Some [Literal body_head, Field ''Inviter'', Literal body_invite, Field ''Link'', Literal body_button,
      Field ''AppName'', Literal body_tail]"
proof -
  have tail: "template_Parse None [] body_tail = Some [Literal body_tail]"
    using template_text [OF body_text(4), of "[]" "[]"] by simp
  have a: "CHR ''}'' \<notin> set ''Inviter''" "CHR ''}'' \<notin> set ''Link''" "CHR ''}'' \<notin> set ''AppName''" by simp_all
  show ?thesis
    using template_action [OF body_text(1) a(1), of "body_invite @ ''{{.Link}}'' @ body_button @ ''{{.AppName}}'' @ body_tail"]
      template_action [OF body_text(2) a(2), of "body_button @ ''{{.AppName}}'' @ body_tail"]
      template_action [OF body_text(3) a(3), of body_tail]
    by (simp add: HtmlBody_def tail)
qed

lemma SendInvitation_sends: "SendInvitation None ses to inviter link appName =
    (let input = \<lparr>ToAddresses = [to], Source = ''account@mammothcyber.com'', subject_data = (CharSet, Subject),
       html_data = (CharSet, body_head @ inviter @ body_invite @ link @ body_button @ appName @ body_tail)\<rparr>
     in (ses input, [input]))"
  by (simp add: SendInvitation_def HtmlBody_template attribute_def)

text \<open>The mails an effect trace asks for.\<close>

definition mails :: "world \<Rightarrow> (string \<times> string \<times> string \<times> string) set" where
  "mails w = {(to, inviter, link, app). MailInvitation to inviter link app \<in> set (trace w)}"

lemma mails_simps [simp]: "mails (put_room sid r w) = mails w"
  "(\<And>a b c d. MailInvitation a b c d \<notin> set es) \<Longrightarrow> mails (emit es w) = mails w"
  by (auto simp: mails_def)

lemma broadcast_mails [simp]: "mails (broadcast_members env sid w) = mails w"
proof (cases "GetRdpSessionRoom w sid")
  case (Some r)
  have "MailInvitation a b c d \<notin> set (send_effects w ks us ins)" for a b c d ks us ins
    by (auto simp: send_effects_def set_map_filter_keys)
  then show ?thesis by (simp add: broadcast_members_def Some broadcast_def send_all_emit)
qed (simp add: broadcast_members_def)

lemma snd_respond_json: "snd (respond_json ins j w) = w"
  by (simp add: respond_json_def with_arg_def)

text \<open>Who has been mailed was invited, and is an invitee still.\<close>

definition invited :: "SessionCommonData \<Rightarrow> string \<Rightarrow> string list \<Rightarrow> world \<Rightarrow> world \<Rightarrow> bool" where
  "invited s url args w w' \<longleftrightarrow> (\<forall>to inviter link app. (to, inviter, link, app) \<in> mails w' \<longrightarrow> (to, inviter, link, app) \<notin> mails w \<longrightarrow>
     inviter = Email s \<and> link = url \<and> app = ses_AppName s \<and> to \<noteq> [] \<and>
     (\<exists>arg permissions. arg \<in> set args \<and> Split (CHR '':'') arg = [to, permissions]) \<and>
     (\<exists>room. GetRdpSessionRoom w' (RdpSessionId s) = Some room \<and> map_of (Invitees room) to \<noteq> None))"

lemma share_one_invited:
  assumes "invited s url args w (snd x)" and "arg \<in> set args"
  shows "invited s url args w (snd (share_one env s url arg x))"
proof -
  obtain err v where x: "x = (err, v)" by fastforce
  show ?thesis
  proof (cases "\<exists>u p room. Split (CHR '':'') arg = [u, p] \<and> u \<noteq> [] \<and> GetRdpSessionRoom v (RdpSessionId s) = Some room \<and>
      length (Invitees room) < INVITEE_LIMIT")
    case True
    then obtain u p room where o: "Split (CHR '':'') arg = [u, p]" "u \<noteq> []" "GetRdpSessionRoom v (RdpSessionId s) = Some room"
      "length (Invitees room) < INVITEE_LIMIT" by blast
    let ?r = "room_AddInvitee u p room"
    have m: "mails (snd (share_one env s url arg x)) = insert (u, Email s, url, ses_AppName s) (mails v)"
      using o by (auto simp: x share_one_def AddInvitee_def mails_def)
    have r: "GetRdpSessionRoom (snd (share_one env s url arg x)) (RdpSessionId s) = Some ?r"
      using o by (simp add: x share_one_def AddInvitee_def rooms.get_put)
    have i: "map_of (Invitees ?r) k \<noteq> None" if "k = u \<or> map_of (Invitees room) k \<noteq> None" for k
      using that by (auto simp: room_AddInvitee_def go_map_simps)
    show ?thesis
      unfolding invited_def m r
    proof (intro allI impI)
      fix a b c d assume "(a, b, c, d) \<in> insert (u, Email s, url, ses_AppName s) (mails v)" "(a, b, c, d) \<notin> mails w"
      then consider "a = u" "b = Email s" "c = url" "d = ses_AppName s" | "(a, b, c, d) \<in> mails v" "(a, b, c, d) \<notin> mails w" by blast
      then show "b = Email s \<and> c = url \<and> d = ses_AppName s \<and> a \<noteq> [] \<and>
          (\<exists>arg permissions. arg \<in> set args \<and> Split (CHR '':'') arg = [a, permissions]) \<and>
          (\<exists>room. Some ?r = Some room \<and> map_of (Invitees room) a \<noteq> None)"
      proof cases
        case 1
        then show ?thesis using o(1,2) assms(2) i [of u] by auto
      next
        case 2
        with o(3) have "b = Email s \<and> c = url \<and> d = ses_AppName s \<and> a \<noteq> [] \<and>
          (\<exists>arg permissions. arg \<in> set args \<and> Split (CHR '':'') arg = [a, permissions])" "map_of (Invitees room) a \<noteq> None"
          using assms(1) [unfolded invited_def x, rule_format, OF _ 2(2)] 2(1) by auto
        then show ?thesis using i [of a] by simp
      qed
    qed
  next
    case False
    then have m: "mails (snd (share_one env s url arg (err, v))) = mails v"
      and r: "GetRdpSessionRoom (snd (share_one env s url arg (err, v))) = GetRdpSessionRoom v"
      by (auto simp: share_one_def AddInvitee_def fun_eq_iff split: list.splits option.split)
    show ?thesis using assms(1) unfolding invited_def x m r by simp
  qed
qed

lemma fold_share_invited:
  "set as \<subseteq> set args \<Longrightarrow> invited s url args w (snd x) \<Longrightarrow> invited s url args w (snd (fold (share_one env s url) as x))"
  by (induction as arbitrary: x) (simp_all add: share_one_invited)

text \<open>C32: \<open>share-session\<close> mails nobody but those its arguments name and \<open>AddInvitee\<close> let into the
  room, and the mail they get is the template with the inviter's address, the sharing link
  and the name of the application as they are: nothing in them is escaped for HTML.\<close>

theorem invitation_mails:
  assumes "snd (RequestSharing_Exec env ins p a w) = w'"
    and "MailInvitation to inviter link app \<in> set (trace w')" and "MailInvitation to inviter link app \<notin> set (trace w)"
  shows "(\<exists>arg permissions. arg \<in> set (drop 2 (Args ins)) \<and> Split (CHR '':'') arg = [to, permissions]) \<and> to \<noteq> [] \<and>
    (\<exists>room. GetRdpSessionRoom w' (RdpSessionId (ses_at w p)) = Some room \<and> map_of (Invitees room) to \<noteq> None) \<and>
    (\<exists>mail. SendInvitation None ses to inviter link app = (ses mail, [mail]) \<and> ToAddresses mail = [to] \<and>
       snd (html_data mail) = body_head @ Email (ses_at w p) @ body_invite @
         GetSharingUrl env (RdpSessionId (ses_at w p)) (TenantID (ses_at w p)) @ body_button @
         ses_AppName (ses_at w p) @ body_tail)"
proof -
  let ?s = "ses_at w p" and ?url = "GetSharingUrl env (RdpSessionId (ses_at w p)) (TenantID (ses_at w p))"
  obtain err w1 where f: "fold (share_one env ?s ?url) (drop 2 (Args ins)) (False, w) = (err, w1)" by fastforce
  have "invited ?s ?url (drop 2 (Args ins)) w w1"
    using fold_share_invited [of "drop 2 (Args ins)" "drop 2 (Args ins)" ?s ?url w "(False, w)" env] f by (simp add: invited_def)
  moreover have "mails w' = mails w1" "GetRdpSessionRoom w' = GetRdpSessionRoom w1"
    using assms(1) by (auto simp: RequestSharing_Exec_def Let_def f snd_respond_json split: if_splits)
  ultimately have "invited ?s ?url (drop 2 (Args ins)) w w'" by (simp add: invited_def)
  moreover have "(to, inviter, link, app) \<in> mails w'" "(to, inviter, link, app) \<notin> mails w" using assms(2,3) by (simp_all add: mails_def)
  ultimately have "inviter = Email ?s \<and> link = ?url \<and> app = ses_AppName ?s \<and> to \<noteq> [] \<and>
     (\<exists>arg permissions. arg \<in> set (drop 2 (Args ins)) \<and> Split (CHR '':'') arg = [to, permissions]) \<and>
     (\<exists>room. GetRdpSessionRoom w' (RdpSessionId ?s) = Some room \<and> map_of (Invitees room) to \<noteq> None)"
    unfolding invited_def by blast
  then show ?thesis by (simp add: SendInvitation_sends Let_def)
qed

lemma invitation_mails_witness:
  "\<exists>w' link mail. snd (RequestSharing_Exec demo_env (NewInstruction ''AACMD'' [''1'', ''share-session'', ''eve:mouse'']) 0 1 demo_world) = w' \<and>
     MailInvitation ''eve'' ''host'' link ''App'' \<in> set (trace w') \<and>
     SendInvitation None (\<lambda>m. None) ''eve'' ''host'' link ''App'' = (None, [mail]) \<and> ToAddresses mail = [''eve'']"
proof -
  let ?ins = "NewInstruction ''AACMD'' [''1'', ''share-session'', ''eve:mouse'']"
  let ?w = "snd (RequestSharing_Exec demo_env ?ins 0 1 demo_world)"
  let ?url = "GetSharingUrl demo_env ''s'' ''t''"
  have s: "Split (CHR '':'') ''eve:mouse'' = [''eve'', ''mouse'']" by code_simp
  have d: "ses_at demo_world 0 = demo_session" by (simp add: ses_at_def demo_world_def)
  have "(''eve'', ''host'', ?url, ''App'') \<in> mails ?w"
    by (simp add: RequestSharing_Exec_def NewInstruction_def Let_def d demo_session_def share_one_def s AddInvitee_def
        demo_room_def INVITEE_LIMIT_def respond_json_def with_arg_def split: prod.split)
      (simp add: mails_def)
  then have m: "MailInvitation ''eve'' ''host'' ?url ''App'' \<in> set (trace ?w)" by (simp add: mails_def)
  have "MailInvitation ''eve'' ''host'' ?url ''App'' \<notin> set (trace demo_world)" by (simp add: demo_world_def)
  from invitation_mails [OF refl m this, of "\<lambda>m. None"] m show ?thesis by blast
qed

end
