(* ===== verification/Recording.thy ===== *)
theory Recording
  imports World GoStrings "HOL-Library.Sublist"
begin

text \<open>
  The transcoder: \<open>pkg/recording.go\<close>, which takes the recordings off their queue, the reading
  side of the queue in \<open>pkg/redis.go\<close>, and \<open>cmd/transcoding\<close>, which chooses the queue. The
  commands it runs, the files and the storage are parameters; what it does to them is
  recorded as a list of effects.
\<close>

section \<open>What it runs and asks\<close>

text \<open>
  \<open>guacenc_run f k\<close> is the output of the \<open>k\<close>-th run for the recording \<open>f\<close> and its error,
  \<open>ffmpeg_run\<close> the output of \<open>ffmpeg\<close>; \<open>file_missing\<close> whether \<open>os.Stat\<close> of a recording fails
  before any file is removed, \<open>mp4_err\<close> whether the result cannot be opened;
  \<open>storage_appaegis\<close> whether the tenant's storage is the provider's; \<open>read_info\<close> is the
  unmarshalling of a queued text and \<open>QueryEscape\<close> that of \<open>net/url\<close>.
\<close>

record encoder_env =
  guacenc_run :: "string \<Rightarrow> nat \<Rightarrow> string \<times> string option"
  ffmpeg_run :: "string \<Rightarrow> string"
  file_missing :: "string \<Rightarrow> bool"
  mp4_err :: "string \<Rightarrow> bool"
  storage_appaegis :: "string \<Rightarrow> bool"
  read_info :: "string \<Rightarrow> LoggingInfo option"
  QueryEscape :: "string \<Rightarrow> string"

datatype encoder_effect =
    Remove string
  | Guacenc string
  | Ffmpeg "string list"
  | UploadRdp string string string
  | LogRecording LoggingInfo string

definition efs :: "LoggingInfo \<Rightarrow> string \<Rightarrow> string" where
  "efs info ext = ''/efs/rdp/'' @ GetRecordingFileName info @ ext"

section \<open>Encoding one recording\<close>

definition encoded_text :: string where
  "encoded_text = ''All files encoded successfully''"

text \<open>
  The loop over \<open>guacenc\<close>, \<open>n\<close> more times, with \<open>k\<close> runs done: \<open>False\<close> when \<open>Encode\<close> returns
  in it.
\<close>

fun encode_loop :: "encoder_env \<Rightarrow> LoggingInfo \<Rightarrow> nat \<Rightarrow> nat \<Rightarrow> bool \<times> encoder_effect list" where
  "encode_loop env info 0 k = (False, [])"
| "encode_loop env info (Suc n) k =
     (let es = [Remove (efs info ''.mp4''), Remove (efs info ''.m4v''), Guacenc (efs info [])];
          (output, err) = guacenc_run env (GetRecordingFileName info) k
      in if err \<noteq> None then (False, es)
         else if \<not> Contains output encoded_text
         then (let (ok, es') = encode_loop env info n (Suc k) in (ok, es @ es'))
         else (True, es))"

definition ffmpeg_command :: "LoggingInfo \<Rightarrow> string" where
  "ffmpeg_command info =
     ''ffmpeg -i '' @ efs info ''.m4v'' @ '' -vcodec libx264 -acodec aac '' @ efs info ''.mp4''"

definition clean_up :: "LoggingInfo \<Rightarrow> encoder_effect list" where
  "clean_up info = [Remove (efs info ''.mp4''), Remove (efs info ''.m4v''), Remove (efs info [])]"

definition upload :: "encoder_env \<Rightarrow> LoggingInfo \<Rightarrow> encoder_effect list" where
  "upload env info =
     (let own = storage_appaegis env (li_TenantId info);
          key = li_TenantId info @ ''/'' @ li_Email info @ ''/'' @ S3Key info @ ''.mp4'';
          key = (if own then key else ''rdp/'' @ key);
          tag = (if own then QueryEscape env (''sku='' @ Sku info) else [])
      in [UploadRdp key (efs info ''.mp4'') tag, LogRecording info key])"

definition Encode :: "encoder_env \<Rightarrow> LoggingInfo \<Rightarrow> encoder_effect list" where
  "Encode env info =
     (if \<not> EnableRecording info then []
      else let (ok, es) = encode_loop env info 3 0
           in if \<not> ok then es
              else let output = ffmpeg_run env (GetRecordingFileName info);
                       es1 = es @ [Ffmpeg (Split (CHR '' '') (ffmpeg_command info))]
                   in if Contains output ''video:0kB'' then es1 @ clean_up info
                      else if mp4_err env (GetRecordingFileName info) then es1
                      else es1 @ upload env info @ clean_up info)"

section \<open>The queue\<close>

text \<open>
  What fails in one round of \<open>EncodeRecording\<close>: the calls of the queue service that peek and
  pop, whose errors are only logged, and the process, which may be stopped before the entry is
  popped: \<open>killed_after r = Some n\<close> when \<open>Encode\<close> has got through \<open>n\<close> of its steps by then. The
  next round is then that of the restarted process, with the same queue and the files as they are.
\<close>

record round =
  peek_err :: bool
  pop_err :: bool
  killed_after :: "nat option"

definition PeekFromQueue :: "encoder_env \<Rightarrow> round \<Rightarrow> string list \<Rightarrow> LoggingInfo option" where
  "PeekFromQueue env r queue =
     (if peek_err r then None
      else case queue of
        [] \<Rightarrow> None
      | msg # rest \<Rightarrow> if msg \<noteq> [] then read_info env msg else None)"

definition PopFromQueue :: "round \<Rightarrow> string list \<Rightarrow> string list" where
  "PopFromQueue r queue = (if pop_err r then queue else tl queue)"

text \<open>
  One round of \<open>EncodeRecording\<close>, from the queue and all that was done before: a recording
  whose file was removed is no longer found. It sleeps when there is nothing to do.
\<close>

definition missing :: "encoder_env \<Rightarrow> encoder_effect list \<Rightarrow> LoggingInfo \<Rightarrow> bool" where
  "missing env es info \<longleftrightarrow> file_missing env (GetRecordingFileName info) \<or> Remove (efs info []) \<in> set es"

definition encode_round :: "encoder_env \<Rightarrow> round \<Rightarrow> string list \<times> encoder_effect list \<Rightarrow> string list \<times> encoder_effect list" where
  "encode_round env r s =
     (let (queue, es) = s in
      case PeekFromQueue env r queue of
        None \<Rightarrow> (queue, es)
      | Some info \<Rightarrow>
          let es' = (if missing env es info then [] else Encode env info)
          in case killed_after r of
               Some n \<Rightarrow> (queue, es @ take n es')
             | None \<Rightarrow> (PopFromQueue r queue, es @ es'))"

fun EncodeRecording :: "encoder_env \<Rightarrow> round list \<Rightarrow> string list \<times> encoder_effect list \<Rightarrow> string list \<times> encoder_effect list" where
  "EncodeRecording env [] s = s"
| "EncodeRecording env (r # rs) s = EncodeRecording env rs (encode_round env r s)"

text \<open>The queue of a pod is the number at the end of its name; \<open>None\<close> is the panic.\<close>

definition transcoding_index :: "string \<Rightarrow> int option" where
  "transcoding_index podName =
     (if podName = [] then Some 0
      else case Atoi (last (Split (CHR ''-'') podName)) of
             Inl e \<Rightarrow> None
           | Inr n \<Rightarrow> Some n)"

section \<open>What the loop does to the queue\<close>

definition readable :: "encoder_env \<Rightarrow> string \<Rightarrow> bool" where
  "readable env msg \<longleftrightarrow> msg \<noteq> [] \<and> read_info env msg \<noteq> None"

definition undisturbed :: "round \<Rightarrow> bool" where
  "undisturbed r \<longleftrightarrow> \<not> peek_err r \<and> \<not> pop_err r \<and> killed_after r = None"

text \<open>What is done for a recording in a round that runs to its end.\<close>

definition handled :: "encoder_env \<Rightarrow> encoder_effect list \<Rightarrow> LoggingInfo \<Rightarrow> encoder_effect list" where
  "handled env es info = (if missing env es info then [] else Encode env info)"

text \<open>
  The attempts \<open>xs\<close> at one recording, after \<open>es\<close>: at least one, the last of which is complete and
  the others complete or broken off, each as the files are by then.
\<close>

fun attempts :: "encoder_env \<Rightarrow> encoder_effect list \<Rightarrow> LoggingInfo \<Rightarrow> encoder_effect list list \<Rightarrow> bool" where
  "attempts env es info [] = False"
| "attempts env es info [x] = (x = handled env es info)"
| "attempts env es info (x # y # xs) = (prefix x (handled env es info) \<and> attempts env (es @ x) info (y # xs))"

text \<open>The attempts at each of several recordings, those at one before those at the next.\<close>

fun worked_off :: "encoder_env \<Rightarrow> encoder_effect list \<Rightarrow> LoggingInfo list \<Rightarrow> encoder_effect list list list \<Rightarrow> bool" where
  "worked_off env es [] xss = (xss = [])"
| "worked_off env es (info # infos) [] = False"
| "worked_off env es (info # infos) (xs # xss) = (attempts env es info xs \<and> worked_off env (es @ concat xs) infos xss)"

lemma attempts_again: "attempts env (es @ x) info xs \<Longrightarrow> prefix x (handled env es info) \<Longrightarrow> attempts env es info (x # xs)"
  by (cases xs) simp_all

lemma encode_round_stuck: "queue = [] \<or> \<not> readable env (hd queue) \<Longrightarrow> encode_round env r (queue, es) = (queue, es)"
  by (cases queue) (auto simp: encode_round_def PeekFromQueue_def readable_def split: option.split)

lemma EncodeRecording_stuck:
  "queue = [] \<or> \<not> readable env (hd queue) \<Longrightarrow> EncodeRecording env rs (queue, es) = (queue, es)"
  by (induction rs) (simp_all add: encode_round_stuck)

text \<open>One round at a readable entry.\<close>

lemma encode_round_cases:
  assumes "readable env msg"
  obtains (peek) "\<not> undisturbed r" "encode_round env r (msg # queue, es) = (msg # queue, es)"
  | (again) x where "\<not> undisturbed r" "pop_err r \<or> killed_after r \<noteq> None" "prefix x (handled env es (the (read_info env msg)))"
      "encode_round env r (msg # queue, es) = (msg # queue, es @ x)"
  | (popped) "undisturbed r" "encode_round env r (msg # queue, es) = (queue, es @ handled env es (the (read_info env msg)))"
proof (cases "peek_err r")
  case True
  then show ?thesis by (intro peek) (simp_all add: undisturbed_def encode_round_def PeekFromQueue_def)
next
  case False
  with assms have p: "PeekFromQueue env r (msg # queue) = Some (the (read_info env msg))"
    by (auto simp: PeekFromQueue_def readable_def)
  show ?thesis
  proof (cases "killed_after r")
    case (Some n)
    then show ?thesis
      by (intro again [of "take n (handled env es (the (read_info env msg)))"])
        (simp_all add: undisturbed_def encode_round_def p handled_def take_is_prefix)
  next
    case None
    show ?thesis
    proof (cases "pop_err r")
      case True
      with None show ?thesis
        by (intro again [of "handled env es (the (read_info env msg))"])
          (simp_all add: undisturbed_def encode_round_def p handled_def PopFromQueue_def)
    next
      case False': False
      with None False show ?thesis
        by (intro popped) (simp_all add: undisturbed_def encode_round_def p handled_def PopFromQueue_def)
    qed
  qed
qed

text \<open>A recording is tried once, when no round is broken off and no entry stays after it was handled.\<close>

definition no_retry :: "round list \<Rightarrow> bool" where
  "no_retry rs \<longleftrightarrow> (\<forall>r\<in>set rs. \<not> pop_err r \<and> killed_after r = None)"

definition infos :: "encoder_env \<Rightarrow> string list \<Rightarrow> LoggingInfo list" where
  "infos env queue = map (\<lambda>msg. the (read_info env msg)) (takeWhile (readable env) queue)"

lemma EncodeRecording_run:
  assumes "length queue \<le> length (filter undisturbed rs)"
  shows "\<exists>xss. EncodeRecording env rs (queue, es) = (dropWhile (readable env) queue, es @ concat (concat xss)) \<and>
    worked_off env es (infos env queue) xss \<and> (no_retry rs \<longrightarrow> (\<forall>xs\<in>set xss. length xs = 1))"
  using assms
proof (induction rs arbitrary: queue es)
  case Nil
  then show ?case by (intro exI [of _ "[]"]) (simp add: infos_def)
next
  case (Cons r rs)
  show ?case
  proof (cases "queue = [] \<or> \<not> readable env (hd queue)")
    case True
    then have "dropWhile (readable env) queue = queue" "takeWhile (readable env) queue = []" by (cases queue; simp)+
    with EncodeRecording_stuck [OF True, of "r # rs" es] show ?thesis by (intro exI [of _ "[]"]) (simp add: infos_def)
  next
    case False
    then obtain msg queue' where q: "queue = msg # queue'" and m: "readable env msg" by (cases queue) auto
    let ?info = "the (read_info env msg)"
    have i: "infos env queue = ?info # infos env queue'" by (simp add: infos_def q m)
    have no: "no_retry (r # rs) \<Longrightarrow> no_retry rs" by (simp add: no_retry_def)
    from m show ?thesis
    proof (cases rule: encode_round_cases [where r = r and queue = queue' and es = es])
      case peek
      with Cons.IH [of queue es] Cons.prems no show ?thesis by (auto simp: q)
    next
      case (again x)
      from again(1) Cons.prems have "length queue \<le> length (filter undisturbed rs)" by simp
      from Cons.IH [OF this, of "es @ x"] obtain xss where xss:
        "EncodeRecording env rs (queue, es @ x) = (dropWhile (readable env) queue, (es @ x) @ concat (concat xss))"
        "worked_off env (es @ x) (infos env queue) xss" by blast
      then obtain xs yss where "xss = xs # yss" by (cases xss) (simp_all add: i)
      moreover have "\<not> no_retry (r # rs)" using again(2) by (auto simp: no_retry_def)
      ultimately show ?thesis using xss again(3,4) attempts_again [OF _ again(3), of xs]
        by (intro exI [of _ "(x # xs) # yss"]) (simp add: q i [unfolded q])
    next
      case popped
      with Cons.prems have "length queue' \<le> length (filter undisturbed rs)" by (simp add: q)
      from Cons.IH [OF this, of "es @ handled env es ?info"] obtain xss where xss:
        "EncodeRecording env rs (queue', es @ handled env es ?info) =
           (dropWhile (readable env) queue', (es @ handled env es ?info) @ concat (concat xss))"
        "worked_off env (es @ handled env es ?info) (infos env queue') xss"
        "no_retry rs \<longrightarrow> (\<forall>xs\<in>set xss. length xs = 1)" by blast
      with popped(2) i m no show ?thesis
        by (intro exI [of _ "[handled env es ?info] # xss"]) (simp add: q)
    qed
  qed
qed

text \<open>Once an attempt has removed the file nothing more is done for the recording.\<close>

lemma missing_stays: "missing env es info \<Longrightarrow> missing env (es @ x) info"
  by (auto simp: missing_def)

lemma attempts_missing: "attempts env es info xs \<Longrightarrow> missing env es info \<Longrightarrow> x \<in> set xs \<Longrightarrow> x = []"
proof (induction env es info xs rule: attempts.induct)
  case (3 env es info x' y xs)
  then show ?case using missing_stays [of env es info x'] by (auto simp: handled_def)
qed (simp_all add: handled_def)

lemma attempts_after_removal:
  assumes "attempts env es info (xs @ x # ys)" and "Remove (efs info []) \<in> set x" and "y \<in> set ys"
  shows "y = []"
  using assms
proof (induction xs arbitrary: es)
  case Nil
  then obtain z zs where ys: "ys = z # zs" by (cases ys) auto
  with Nil have "attempts env (es @ x) info ys" by simp
  with attempts_missing [OF this _ Nil(3)] Nil(2) show ?case by (simp add: missing_def)
next
  case (Cons z xs)
  then have "attempts env (es @ z) info (xs @ x # ys)" by (cases xs) simp_all
  with Cons.IH Cons.prems show ?case by blast
qed

lemma worked_off_nth: "worked_off env es infs xss \<Longrightarrow> length xss = length infs \<and>
    (\<forall>i<length xss. \<exists>es'. attempts env es' (infs ! i) (xss ! i))"
proof (induction env es infs xss rule: worked_off.induct)
  case (3 env es info infs xs xss)
  then show ?case by (auto simp: nth_Cons split: nat.split)
qed simp_all

definition none_after_removal :: "LoggingInfo list \<Rightarrow> encoder_effect list list list \<Rightarrow> bool" where
  "none_after_removal infs xss \<longleftrightarrow> (\<forall>i<length xss. \<forall>as x bs.
     xss ! i = as @ x # bs \<and> Remove (efs (infs ! i) []) \<in> set x \<longrightarrow> concat bs = [])"

lemma worked_off_removal: "worked_off env es infs xss \<Longrightarrow> none_after_removal infs xss"
  unfolding none_after_removal_def by (metis worked_off_nth attempts_after_removal concat_eq_Nil_conv)

text \<open>
  A bad entry between two good ones; the first round is broken off after five steps and in the second
  the queue cannot be reached, in the third the entry is handled but not popped.
\<close>

definition demo_encoder :: encoder_env where
  "demo_encoder = \<lparr>guacenc_run = \<lambda>f k. (encoded_text, None), ffmpeg_run = \<lambda>f. [], file_missing = \<lambda>f. False,
     mp4_err = \<lambda>f. False, storage_appaegis = \<lambda>t. True,
     read_info = \<lambda>m. if m = ''bad'' then None else Some demo_info, QueryEscape = \<lambda>s. s\<rparr>"

definition demo_rounds :: "round list" where
  "demo_rounds = [\<lparr>peek_err = False, pop_err = False, killed_after = Some 5\<rparr>, \<lparr>peek_err = True, pop_err = False, killed_after = None\<rparr>,
     \<lparr>peek_err = False, pop_err = True, killed_after = None\<rparr>] @ replicate 3 \<lparr>peek_err = False, pop_err = False, killed_after = None\<rparr>"

text \<open>C25: no recording in the queue of a transcoder is lost and they are handled in order, whatever
  fails: with as many undisturbed rounds as there are entries, among any number of rounds in
  which the queue cannot be read, the pop fails or the process is stopped, it has worked off the
  queue up to the first entry that cannot be read. Each recording before that one had one or more
  attempts, the last of them complete, before the next had its first, and no attempt after one
  that removed its file did anything. When no pop failed and the process was not stopped it had
  exactly one. The entry that cannot be read is never removed and nothing behind it is handled.\<close>

theorem EncodeRecording_drains:
  assumes "length queue \<le> length (filter undisturbed rs)"
  shows "\<exists>xss. EncodeRecording env rs (queue, es) = (dropWhile (readable env) queue, es @ concat (concat xss)) \<and>
    worked_off env es (infos env queue) xss \<and> none_after_removal (infos env queue) xss \<and>
    (no_retry rs \<longrightarrow> (\<forall>xs\<in>set xss. length xs = 1))"
  using EncodeRecording_run [OF assms] worked_off_removal by metis

lemma EncodeRecording_drains_witness:
  "\<exists>xss. EncodeRecording demo_encoder demo_rounds ([''good'', ''bad'', ''good''], []) = ([''bad'', ''good''], concat (concat xss)) \<and>
     worked_off demo_encoder [] [demo_info] xss"
proof -
  have n: "length [''good'', ''bad'', ''good''] \<le> length (filter undisturbed demo_rounds)"
    by (simp add: demo_rounds_def undisturbed_def numeral_eq_Suc)
  have r: "dropWhile (readable demo_encoder) [''good'', ''bad'', ''good''] = [''bad'', ''good'']"
    "infos demo_encoder [''good'', ''bad'', ''good''] = [demo_info]"
    by (simp_all add: readable_def infos_def demo_encoder_def)
  from EncodeRecording_drains [OF n, of demo_encoder "[]"] show ?thesis unfolding r by auto
qed

text \<open>At most three runs of \<open>guacenc\<close> for a recording, and the result is uploaded only after a
  successful one.\<close>

lemma encode_loop_runs: "length (filter (\<lambda>e. \<exists>f. e = Guacenc f) (snd (encode_loop env info n k))) \<le> n"
proof (induction n arbitrary: k)
  case (Suc n)
  from Suc.IH [of "Suc k"] show ?case by (cases "encode_loop env info n (Suc k)") (auto simp: Let_def split: prod.splits)
qed simp

lemma encode_loop_ok:
  "fst (encode_loop env info n k) \<Longrightarrow>
     \<exists>j\<ge>k. j < k + n \<and> snd (guacenc_run env (GetRecordingFileName info) j) = None \<and>
       Contains (fst (guacenc_run env (GetRecordingFileName info) j)) encoded_text"
proof (induction n arbitrary: k)
  case (Suc n)
  obtain out err where r: "guacenc_run env (GetRecordingFileName info) k = (out, err)" by fastforce
  show ?case
  proof (cases "err = None \<and> Contains out encoded_text")
    case True
    with r show ?thesis by (intro exI [of _ k]) simp
  next
    case False
    with Suc.prems r have "fst (encode_loop env info n (Suc k))"
      by (auto simp: Let_def split: if_splits prod.splits)
    from Suc.IH [OF this] show ?thesis by (metis Suc_leD add_Suc add_Suc_right)
  qed
qed simp

end
