(* ===== verification/Queues.thy ===== *)
theory Queues
  imports Recording RoomProps
begin

text \<open>
  How the recordings get from the gateway to the pods of the transcoder: the number of queues
  \<open>init\<close> reads (\<open>pkg/redis.go\<close>), the queue each recording is pushed to, and the queue a pod
  works off (\<open>cmd/transcoding\<close>).
\<close>

text \<open>\<open>init\<close>, with the value of \<open>NUMBER_OF_TRANSCODING_QUEUE\<close>; \<open>None\<close> is the panic.\<close>

definition theNumberOfQueues :: "string \<Rightarrow> int option" where
  "theNumberOfQueues text =
     (if text \<noteq> [] then (case Atoi text of Inl e \<Rightarrow> None | Inr n \<Rightarrow> Some n)
      else Some 1)"

section \<open>Round robin\<close>

text \<open>The recordings with the numbers the counter gives them, from \<open>k + 1\<close> on, of the pushes that
  succeed; and these pushes.\<close>

definition numbered :: "env \<Rightarrow> nat \<Rightarrow> LoggingInfo list \<Rightarrow> (nat \<times> LoggingInfo) list" where
  "numbered env k ls = filter (\<lambda>(i, l). push_err env (int i) = None) (zip [Suc k..<Suc (k + length ls)] ls)"

definition pushes :: "env \<Rightarrow> nat \<Rightarrow> LoggingInfo list \<Rightarrow> effect list" where
  "pushes env k ls = map (\<lambda>(i, l). QueuePush (GetQueueName env (int i mod number_of_queues env)) l) (numbered env k ls)"

lemma numbered_Cons: "numbered env k (l # ls) =
    (if push_err env (int (Suc k)) = None then [(Suc k, l)] else []) @ numbered env (Suc k) ls"
proof -
  have "[Suc k..<Suc (k + length (l # ls))] = Suc k # [Suc (Suc k)..<Suc (Suc k + length ls)]"
    by (subst upt_conv_Cons) simp_all
  then show ?thesis by (simp add: numbered_def)
qed

lemma numbered_all: "\<forall>n. push_err env n = None \<Longrightarrow> numbered env k ls = zip [Suc k..<Suc (k + length ls)] ls"
  by (simp add: numbered_def)

lemma numbered_mem: "x \<in> set (numbered env k ls) \<Longrightarrow> snd x \<in> set ls"
  by (cases x) (auto simp: numbered_def dest: set_zip_rightD)

lemma pushes_Cons: "pushes env k (l # ls) =
    (if push_err env (int (Suc k)) = None then [QueuePush (GetQueueName env (int (Suc k) mod number_of_queues env)) l] else []) @
    pushes env (Suc k) ls"
  by (simp add: pushes_def numbered_Cons)

lemma push_all_pushes:
  assumes "0 < number_of_queues env" and "queue_count w = int k" and "k + length ls < 2 ^ 63"
  shows "trace (push_all env ls w) = trace w @ pushes env k (filter EnableRecording ls)"
  using assms(2,3)
proof (induction ls arbitrary: w k)
  case (Cons l ls)
  show ?case
  proof (cases "EnableRecording l")
    case True
    from Cons.prems(2) have "Suc k < 2 ^ 63" by simp
    then have "wrap64 (queue_count w + 1) = int (Suc k)" using wrap64_nat [of "Suc k"] Cons.prems(1) by (simp add: add.commute)
    with True assms(1) have "snd (PushToQueue env l w) =
        emit (if push_err env (int (Suc k)) = None
          then [QueuePush (GetQueueName env (int (Suc k) mod number_of_queues env)) l] else []) (w\<lparr>queue_count := int (Suc k)\<rparr>)"
      by (auto simp: PushToQueue_def Let_def go_rem_def emit_def)
    with Cons.IH [of "snd (PushToQueue env l w)" "Suc k"] Cons.prems(2) True show ?thesis by (simp add: pushes_Cons)
  next
    case False
    with Cons.IH [of w k] Cons.prems show ?thesis by (simp add: PushToQueue_def)
  qed
qed (simp add: pushes_def numbered_def)

text \<open>How many of the numbers from 1 to \<open>m\<close> leave the rest \<open>j\<close>.\<close>

lemma count_rest:
  assumes "j < q"
  shows "length (filter (\<lambda>i. i mod q = j) [Suc 0..<Suc m]) = m div q + (if 0 < j \<and> j \<le> m mod q then 1 else 0)"
proof (induction m)
  case (Suc m)
  have "length (filter (\<lambda>i. i mod q = j) [Suc 0..<Suc (Suc m)]) =
      length (filter (\<lambda>i. i mod q = j) [Suc 0..<Suc m]) + (if Suc m mod q = j then 1 else 0)" by simp
  with Suc assms show ?case
    by (auto simp: mod_Suc div_Suc split: if_splits)
qed (use assms in auto)

section \<open>The pods\<close>

lemma last_Split:
  assumes "c \<notin> set b"
  shows "last (Split c (a @ c # b)) = b"
proof -
  have "\<exists>xs. xs \<noteq> [] \<and> Split c (a @ c # b) = xs @ [b]"
    by (induction a) (auto simp: Split_free [OF assms] neq_Nil_conv Cons_eq_append_conv split: list.split)
  then show ?thesis by auto
qed

lemma pod_index:
  assumes "j < 2 ^ 63" and "name \<noteq> []"
  shows "transcoding_index (name @ ''-'' @ dec j) = Some (int j)"
proof -
  have "CHR ''-'' \<notin> set (dec j)" using dec_digits is_digit_neq by blast
  then have "last (Split (CHR ''-'') (name @ ''-'' @ dec j)) = dec j" by (simp add: last_Split)
  with assms show ?thesis by (simp add: transcoding_index_def Atoi_dec)
qed

lemma GetQueueName_eq: "i < 2 ^ 63 \<Longrightarrow> j < 2 ^ 63 \<Longrightarrow> GetQueueName env (int i) = GetQueueName env (int j) \<longleftrightarrow> i = j"
  using dec_inj [of i j] by (auto simp: GetQueueName_def dec_int_def)

text \<open>The recordings in a queue.\<close>

fun queued :: "string \<Rightarrow> effect list \<Rightarrow> LoggingInfo list" where
  "queued name [] = []"
| "queued name (QueuePush n l # es) = (if n = name then l # queued name es else queued name es)"
| "queued name (e # es) = queued name es"

lemma queued_map: "length (queued name (map (\<lambda>(i, l). QueuePush (f i) l) (zip is ls))) =
    length (filter (\<lambda>i. f i = name) (take (length ls) is))"
proof (induction "is" arbitrary: ls)
  case (Cons i "is")
  then show ?case by (cases ls) simp_all
qed simp

lemma queued_pushes:
  assumes q: "number_of_queues env = int q" "0 < q" "q < 2 ^ 63" and j: "j < q" and e: "\<forall>n. push_err env n = None"
  shows "length (queued (GetQueueName env (int j)) (pushes env 0 ls)) =
    length ls div q + (if 0 < j \<and> j \<le> length ls mod q then 1 else 0)"
proof -
  have "GetQueueName env (int i mod int q) = GetQueueName env (int j) \<longleftrightarrow> i mod q = j" for i
  proof -
    have "i mod q < 2 ^ 63" "j < 2 ^ 63" using mod_less_divisor [OF q(2), of i] j q(3) by linarith+
    from GetQueueName_eq [OF this] show ?thesis by (simp add: zmod_int)
  qed
  then have "length (queued (GetQueueName env (int j)) (pushes env 0 ls)) = length (filter (\<lambda>i. i mod q = j) [Suc 0..<Suc (length ls)])"
    by (simp add: pushes_def numbered_all [OF e] q(1) queued_map del: upt_Suc)
  with count_rest [OF j] show ?thesis by simp
qed

text \<open>With \<open>q\<close> queues, and when no push fails, every recording pushed goes to one of the queues \<open>0\<close> to \<open>q - 1\<close>, each of
  which is worked off by the pod whose name ends in its number, and the queues fill evenly:
  after \<open>m\<close> recordings each holds \<open>m div q\<close> of them or one more.\<close>

theorem recordings_reach_pods:
  assumes "number_of_queues env = int q" and "0 < q" and "q < 2 ^ 63"
    and "queue_count w = 0" and "length ls < 2 ^ 63" and "name \<noteq> []" and "\<forall>n. push_err env n = None"
  shows "\<exists>es. trace (push_all env ls w) = trace w @ es \<and> length es = length (filter EnableRecording ls) \<and>
    (\<forall>e\<in>set es. \<exists>j l. j < q \<and> transcoding_index (name @ ''-'' @ dec j) = Some (int j) \<and>
       e = QueuePush (GetQueueName env (int j)) l \<and> l \<in> set ls \<and> EnableRecording l) \<and>
    (\<forall>j<q. length (queued (GetQueueName env (int j)) es) \<in> {length es div q, length es div q + 1})"
proof -
  let ?ls = "filter EnableRecording ls"
  let ?es = "pushes env 0 ?ls"
  have "trace (push_all env ls w) = trace w @ ?es"
    using push_all_pushes [of env w 0 ls] assms by simp
  moreover have n: "length ?es = length ?ls" by (simp add: pushes_def numbered_all [OF assms(7)] del: upt_Suc)
  moreover have "\<exists>j l. j < q \<and> transcoding_index (name @ ''-'' @ dec j) = Some (int j) \<and>
      e = QueuePush (GetQueueName env (int j)) l \<and> l \<in> set ls \<and> EnableRecording l" if "e \<in> set ?es" for e
  proof -
    from that obtain i l where e: "e = QueuePush (GetQueueName env (int i mod int q)) l" and l: "l \<in> set ?ls"
      using assms(1) numbered_mem by (fastforce simp: pushes_def)
    have "i mod q < q" "i mod q < 2 ^ 63" using mod_less_divisor [OF assms(2), of i] assms(3) by linarith+
    with e l pod_index [OF _ assms(6), of "i mod q"] show ?thesis by (intro exI [of _ "i mod q"] exI [of _ l]) (simp add: zmod_int)
  qed
  moreover have "length (queued (GetQueueName env (int j)) ?es) \<in> {length ?es div q, length ?es div q + 1}" if "j < q" for j
    using queued_pushes [OF assms(1-3) that assms(7), of ?ls] n by simp
  ultimately show ?thesis by blast
qed

lemma recordings_reach_pods_witness:
  "\<exists>l es. EnableRecording l \<and> trace (push_all demo_env [l, l, l] empty_world) = es \<and>
     length (queued (GetQueueName demo_env 1) es) \<in> {1, 2}"
proof -
  let ?l = "demo_info\<lparr>EnableRecording := True\<rparr>"
  have q: "number_of_queues demo_env = int 2" "(0::nat) < 2" "(2::nat) < 2 ^ 63" by (simp_all add: demo_env_def)
  have w: "queue_count empty_world = 0" "length [?l, ?l, ?l] < 2 ^ 63" "''pod'' \<noteq> []"
    "\<forall>n. push_err demo_env n = None" by (simp_all add: empty_world_def demo_env_def)
  from recordings_reach_pods [OF q w] obtain es where es: "trace (push_all demo_env [?l, ?l, ?l] empty_world) = trace empty_world @ es"
    "length es = length (filter EnableRecording [?l, ?l, ?l])"
    "\<forall>j<2. length (queued (GetQueueName demo_env (int j)) es) \<in> {length es div 2, length es div 2 + 1}" by blast
  from spec [OF es(3), of 1] have "length (queued (GetQueueName demo_env (int 1)) es) \<in> {length es div 2, length es div 2 + 1}"
    by simp
  with es(1,2) show ?thesis by (intro exI [of _ ?l] exI [of _ es]) (auto simp: empty_world_def)
qed

end
