(* ===== verification/Json.thy ===== *)
theory Json
  imports GoStrings
begin

text \<open>
  Reading JSON: \<open>json.Unmarshal\<close> of \<open>encoding/json\<close> up to the values, and that it reads back what
  \<open>json.Marshal\<close> (\<open>json_enc\<close> of \<open>GoStrings\<close>) prints. Numbers are those without fraction and
  exponent; a text with another number is not read.
\<close>

section \<open>Strings\<close>

text \<open>White space of JSON, the value of a hexadecimal digit, and four of them.\<close>

fun skip_ws :: "string \<Rightarrow> string" where
  "skip_ws [] = []"
| "skip_ws (c # cs) = (if ord c = 32 \<or> ord c = 9 \<or> ord c = 10 \<or> ord c = 13 then skip_ws cs else c # cs)"

definition hex_val :: "byte \<Rightarrow> nat option" where
  "hex_val c =
     (let b = ord c in
      if 48 \<le> b \<and> b \<le> 57 then Some (b - 48)
      else if 97 \<le> b \<and> b \<le> 102 then Some (b - 87)
      else if 65 \<le> b \<and> b \<le> 70 then Some (b - 55)
      else None)"

fun hex4 :: "string \<Rightarrow> (nat \<times> string) option" where
  "hex4 (a # b # c # d # s) =
     (case (hex_val a, hex_val b, hex_val c, hex_val d) of
        (Some x, Some y, Some z, Some u) \<Rightarrow> Some (((x * 16 + y) * 16 + z) * 16 + u, s)
      | _ \<Rightarrow> None)"
| "hex4 s = None"

text \<open>The character an escape of one letter stands for.\<close>

definition escaped :: "byte \<Rightarrow> byte option" where
  "escaped e = map_of [(CHR 0x22, CHR 0x22), (CHR 0x5C, CHR 0x5C), (CHR 0x2F, CHR 0x2F), (CHR ''b'', chr 8),
     (CHR ''f'', chr 12), (CHR ''n'', chr 10), (CHR ''r'', chr 13), (CHR ''t'', chr 9)] e"

text \<open>A code unit that is half of a pair takes the other half, or is replaced.\<close>

definition surrogate :: "nat \<Rightarrow> string \<Rightarrow> nat \<times> string" where
  "surrogate r s =
     (if r < 0xD800 \<or> 0xE000 \<le> r then (r, s)
      else case s of
        b # u # t \<Rightarrow>
          (case hex4 t of
             Some (r2, t2) \<Rightarrow>
               if b = CHR 0x5C \<and> u = CHR ''u'' \<and> r < 0xDC00 \<and> 0xDC00 \<le> r2 \<and> r2 < 0xE000
               then ((r - 0xD800) * 0x400 + (r2 - 0xDC00) + 0x10000, t2)
               else (RuneError, s)
           | None \<Rightarrow> (RuneError, s))
      | _ \<Rightarrow> (RuneError, s))"

lemma hex4_length: "hex4 s = Some (r, t) \<Longrightarrow> length t < length s"
  by (cases s rule: hex4.cases) (auto split: option.splits)

lemma surrogate_length: "surrogate r s = (r', t) \<Longrightarrow> length t \<le> length s"
  by (auto simp: surrogate_def split: if_splits list.splits option.splits dest!: hex4_length)

text \<open>What follows the opening quote, up to the closing one; invalid bytes are replaced.\<close>

function parse_string :: "string \<Rightarrow> (string \<times> string) option" where
  "parse_string [] = None"
| "parse_string (c # cs) =
     (if c = CHR 0x22 then Some ([], cs)
      else if c = CHR 0x5C then
        (case cs of
           [] \<Rightarrow> None
         | e # ds \<Rightarrow>
             (case escaped e of
                Some b \<Rightarrow> map_option (apfst ((#) b)) (parse_string ds)
              | None \<Rightarrow>
                  if e \<noteq> CHR ''u'' then None
                  else case hex4 ds of
                         None \<Rightarrow> None
                       | Some (r, ds1) \<Rightarrow>
                           (let (r', ds2) = surrogate r ds1
                            in map_option (apfst ((@) (EncodeRune r'))) (parse_string ds2))))
      else if ord c < 0x20 then None
      else if ord c < 0x80 then map_option (apfst ((#) c)) (parse_string cs)
      else let (r, n) = DecodeRune (c # cs)
           in map_option (apfst ((@) (EncodeRune r))) (parse_string (drop n (c # cs))))"
  by pat_completeness auto
termination
proof (relation "measure length")
  fix c :: byte and cs x r n assume "x = DecodeRune (c # cs)" "(r, n) = x"
  then have "0 < n" using DecodeRune_pos [of "c # cs"] by (metis list.distinct(1) snd_conv)
  then show "(drop n (c # cs), c # cs) \<in> measure length" by simp
next
  fix c :: byte and cs e ds x x1 y x2 y2 ds2
  assume a: "cs = e # ds" "hex4 ds = Some x" "(x1, x2) = x" "y = surrogate x1 x2" "(y2, ds2) = y"
  have "length x2 < length ds" using a(2,3) hex4_length [of ds x1 x2] by simp
  moreover have "length ds2 \<le> length x2" using a(4,5) surrogate_length [of x1 x2 y2 ds2] by simp
  ultimately show "(ds2, c # cs) \<in> measure length" using a(1) by simp
qed auto

lemma parse_string_length: "parse_string s = Some (v, t) \<Longrightarrow> length t < length s"
proof (induction s arbitrary: v t rule: parse_string.induct)
  case (2 c cs)
  show ?case
  proof (cases "c = CHR 0x22 \<or> c = CHR 0x5C \<or> ord c < 0x80")
    case True
    then show ?thesis
      using "2.prems" "2.IH"(1,2,3) hex4_length surrogate_length
      by (fastforce split: if_splits list.splits option.splits prod.splits)
  next
    case False
    obtain r n where d: "DecodeRune (c # cs) = (r, n)" by fastforce
    with "2.prems" False obtain v' where p: "parse_string (drop n (c # cs)) = Some (v', t)"
      by (auto split: if_splits)
    from "2.IH"(4) [OF _ _ _ _ d [symmetric] refl p] False have "length t < length (drop n (c # cs))" by auto
    then show ?thesis by simp
  qed
qed simp

section \<open>Strings are read back\<close>

definition well_formed :: "string \<Rightarrow> bool" where
  "well_formed s \<longleftrightarrow> (\<exists>rs. s = utf8 rs \<and> (\<forall>r\<in>set rs. valid_rune r))"

lemma hex_val_digit: "d < 16 \<Longrightarrow> hex_val (hex_digit d) = Some d"
  by (auto simp: hex_val_def hex_digit_def ord_chr)

lemma hex_val_letters: "hex_val (CHR ''0'') = Some 0" "hex_val (CHR ''2'') = Some 2"
  by (simp_all add: hex_val_def ord_def)

lemma EncodeRune_ascii: "r < 0x80 \<Longrightarrow> EncodeRune r = [chr r]"
  by (simp add: EncodeRune_def valid_rune_def)

lemma EncodeRune_high: "valid_rune r \<Longrightarrow> 0x80 \<le> r \<Longrightarrow> 0x80 \<le> ord (hd (EncodeRune r))"
  by (auto simp: EncodeRune_def valid_rune_def Let_def)

lemma append_single: "(@) [x] = (#) x"
  by (simp add: fun_eq_iff)

text \<open>The escape of an ASCII character, and those of the two line separators.\<close>

lemma parse_escape:
  assumes "b < 0x80" and "\<not> json_safe b"
  shows "parse_string (json_escape b @ s) = map_option (apfst ((#) (chr b))) (parse_string s)"
proof -
  have e: "escaped (CHR ''u'') = None" by (simp add: escaped_def)
  have n: "parse_string (CHR 0x5C # k # s) = map_option (apfst ((#) x)) (parse_string s)" if "escaped k = Some x" for k x
    using that by simp
  have u: "parse_string (CHR 0x5C # CHR ''u'' # CHR ''0'' # CHR ''0'' # hex_digit (b div 16) # hex_digit (b mod 16) # s) =
      map_option (apfst ((#) (chr b))) (parse_string s)"
    using assms(1) by (simp add: e hex_val_digit hex_val_letters surrogate_def EncodeRune_ascii append_single)
  have c: "chr 0x22 = CHR 0x22" "chr 0x5C = CHR 0x5C" by code_simp+
  have k: "escaped (CHR 0x22) = Some (CHR 0x22)" "escaped (CHR 0x5C) = Some (CHR 0x5C)" "escaped (CHR ''b'') = Some (chr 8)"
    "escaped (CHR ''f'') = Some (chr 12)" "escaped (CHR ''n'') = Some (chr 10)" "escaped (CHR ''r'') = Some (chr 13)"
    "escaped (CHR ''t'') = Some (chr 9)" by (simp_all add: escaped_def)
  show ?thesis
    using n u k c by (simp add: json_escape_def del: parse_string.simps)
qed

lemma parse_line_separator:
  assumes "r = 0x2028 \<or> r = 0x2029"
  shows "parse_string ([CHR 0x5C, CHR ''u'', CHR ''2'', CHR ''0'', CHR ''2'', hex_digit (r mod 16)] @ s) =
    map_option (apfst ((@) (EncodeRune r))) (parse_string s)"
  using assms hex_val_digit [of "r mod 16"] by (auto simp: escaped_def hex_val_letters surrogate_def)

lemma parse_rune:
  assumes "valid_rune r" and "0x80 \<le> r"
  shows "parse_string (EncodeRune r @ s) = map_option (apfst ((@) (EncodeRune r))) (parse_string s)"
proof -
  obtain c cs where c: "EncodeRune r = c # cs" by (cases "EncodeRune r") simp_all
  with EncodeRune_high [OF assms] have h: "0x80 \<le> ord c" by simp
  then have n: "c \<noteq> CHR 0x22" "c \<noteq> CHR 0x5C" by (auto simp: ord_def)
  have "DecodeRune (c # cs @ s) = (r, length (EncodeRune r))"
    using DecodeRune_EncodeRune [OF assms(1), of s] c by simp
  with h n show ?thesis by (simp add: c)
qed

lemma json_body_rune:
  assumes "valid_rune r"
  shows "json_body (EncodeRune r @ s) =
    (if r < 0x80 then (if json_safe r then [chr r] else json_escape r)
     else if r = 0x2028 \<or> r = 0x2029 then [CHR 0x5C, CHR ''u'', CHR ''2'', CHR ''0'', CHR ''2'', hex_digit (r mod 16)]
     else EncodeRune r) @ json_body s"
proof (cases "r < 0x80")
  case True
  then show ?thesis by (simp add: EncodeRune_ascii Let_def ord_chr)
next
  case False
  obtain c cs where c: "EncodeRune r = c # cs" by (cases "EncodeRune r") simp_all
  have h: "\<not> ord c < 0x80" using EncodeRune_high [OF assms] False c by simp
  have d: "DecodeRune (c # cs @ s) = (r, Suc (length cs))"
    using DecodeRune_EncodeRune [OF assms, of s] c by simp
  have "r = RuneError \<longrightarrow> Suc (length cs) \<noteq> 1"
    using c by (auto simp: EncodeRune_def RuneError_def valid_rune_def)
  with False h d show ?thesis by (auto simp: c Let_def)
qed

lemma parse_json_body:
  "\<forall>r\<in>set rs. valid_rune r \<Longrightarrow> parse_string (json_body (utf8 rs) @ CHR 0x22 # t) = Some (utf8 rs, t)"
proof (induction rs)
  case (Cons r rs)
  then have v: "valid_rune r" and IH: "parse_string (json_body (utf8 rs) @ CHR 0x22 # t) = Some (utf8 rs, t)" by simp_all
  consider "r < 0x80" "json_safe r" | "r < 0x80" "\<not> json_safe r" | "r = 0x2028 \<or> r = 0x2029"
    | "0x80 \<le> r" "r \<noteq> 0x2028" "r \<noteq> 0x2029" by linarith
  then show ?case
  proof cases
    case 1
    then have "chr r \<noteq> CHR 0x22" "chr r \<noteq> CHR 0x5C" "\<not> ord (chr r) < 0x20"
      using ord_chr [of r] by (auto simp: json_safe_def ord_def)
    with 1 show ?thesis by (simp add: json_body_rune [OF v] EncodeRune_ascii ord_chr IH)
  next
    case 2
    then show ?thesis
      by (simp add: json_body_rune [OF v] EncodeRune_ascii parse_escape IH del: parse_string.simps)
  next
    case 3
    then have "0x80 \<le> r" by auto
    with 3 show ?thesis
      using parse_line_separator [OF 3, of "json_body (utf8 rs) @ CHR 0x22 # t"]
      by (simp add: json_body_rune [OF v] IH del: parse_string.simps)
  next
    case 4
    then show ?thesis by (simp add: json_body_rune [OF v] parse_rune [OF v] IH del: parse_string.simps)
  qed
qed simp

lemma parse_json_string: "well_formed s \<Longrightarrow> parse_string (json_body s @ CHR 0x22 # t) = Some (s, t)"
  by (auto simp: well_formed_def parse_json_body simp del: parse_string.simps)

section \<open>Values\<close>

text \<open>Digits without a leading zero; a number that goes on with a fraction or an exponent is not read.\<close>

definition parse_number :: "string \<Rightarrow> (int \<times> string) option" where
  "parse_number s =
     (let neg = (s \<noteq> [] \<and> hd s = CHR ''-''); t = (if neg then tl s else s);
          ds = takeWhile is_digit t; r = dropWhile is_digit t;
          n = int (foldl (\<lambda>n d. n * 10 + digit_val d) 0 ds)
      in if ds = [] \<or> (hd ds = CHR ''0'' \<and> ds \<noteq> ''0'') then None
         else if r \<noteq> [] \<and> (hd r = CHR ''.'' \<or> hd r = CHR ''e'' \<or> hd r = CHR ''E'') then None
         else Some (if neg then - n else n, r))"

text \<open>
  A value, the elements of an array and the members of an object, each after its opening
  bracket, with fuel: a level of brackets takes two calls and each further element or member
  one, so that the length of the text is enough.
\<close>

fun parse_value :: "nat \<Rightarrow> string \<Rightarrow> (json \<times> string) option"
and parse_elements :: "nat \<Rightarrow> string \<Rightarrow> (json list \<times> string) option"
and parse_members :: "nat \<Rightarrow> string \<Rightarrow> ((string \<times> json) list \<times> string) option" where
  "parse_value 0 s = None"
| "parse_value (Suc n) s =
     (case skip_ws s of
        [] \<Rightarrow> None
      | c # cs \<Rightarrow>
          if c = CHR 0x22 then map_option (apfst JStr) (parse_string cs)
          else if c = CHR ''['' then
            (if skip_ws cs \<noteq> [] \<and> hd (skip_ws cs) = CHR '']'' then Some (JArr [], tl (skip_ws cs))
             else map_option (apfst JArr) (parse_elements n cs))
          else if c = CHR ''{'' then
            (if skip_ws cs \<noteq> [] \<and> hd (skip_ws cs) = CHR ''}'' then Some (JObj [], tl (skip_ws cs))
             else map_option (apfst JObj) (parse_members n cs))
          else if HasPrefix (c # cs) ''null'' then Some (JNull, drop 4 (c # cs))
          else if HasPrefix (c # cs) ''true'' then Some (JBool True, drop 4 (c # cs))
          else if HasPrefix (c # cs) ''false'' then Some (JBool False, drop 5 (c # cs))
          else map_option (apfst JInt) (parse_number (c # cs)))"
| "parse_elements 0 s = None"
| "parse_elements (Suc n) s =
     (case parse_value n s of
        None \<Rightarrow> None
      | Some (v, r) \<Rightarrow>
          (case skip_ws r of
             [] \<Rightarrow> None
           | c # cs \<Rightarrow>
               if c = CHR '','' then map_option (apfst ((#) v)) (parse_elements n cs)
               else if c = CHR '']'' then Some ([v], cs)
               else None))"
| "parse_members 0 s = None"
| "parse_members (Suc n) s =
     (case skip_ws s of
        [] \<Rightarrow> None
      | q # ks \<Rightarrow>
          if q \<noteq> CHR 0x22 then None
          else case parse_string ks of
            None \<Rightarrow> None
          | Some (k, r) \<Rightarrow>
              (case skip_ws r of
                 [] \<Rightarrow> None
               | d # vs \<Rightarrow>
                   if d \<noteq> CHR '':'' then None
                   else case parse_value n vs of
                     None \<Rightarrow> None
                   | Some (v, t) \<Rightarrow>
                       (case skip_ws t of
                          [] \<Rightarrow> None
                        | c # cs \<Rightarrow>
                            if c = CHR '','' then map_option (apfst ((#) (k, v))) (parse_members n cs)
                            else if c = CHR ''}'' then Some ([(k, v)], cs)
                            else None)))"

definition json_decode :: "string \<Rightarrow> json option" where
  "json_decode s =
     (case parse_value (Suc (length s)) s of
        None \<Rightarrow> None
      | Some (j, r) \<Rightarrow> if skip_ws r = [] then Some j else None)"

section \<open>Values are read back\<close>

fun json_ok :: "json \<Rightarrow> bool" where
  "json_ok (JStr s) = well_formed s"
| "json_ok (JArr js) = (\<forall>j\<in>set js. json_ok j)"
| "json_ok (JObj kvs) = (\<forall>(k, v)\<in>set kvs. well_formed k \<and> json_ok v)"
| "json_ok j = True"

text \<open>A text behind a value that does not go on with it.\<close>

definition ends :: "string \<Rightarrow> bool" where
  "ends s \<longleftrightarrow> s = [] \<or> hd s \<in> {CHR '','', CHR '']'', CHR ''}''}"

lemma ends_simps [simp]: "ends []" "ends (CHR '','' # s)" "ends (CHR '']'' # s)" "ends (CHR ''}'' # s)"
  by (simp_all add: ends_def)

lemma skip_ws_head: "s = [] \<or> 32 < ord (hd s) \<Longrightarrow> skip_ws s = s"
  by (cases s) auto

lemma dec_head: "\<exists>c cs. dec n = c # cs \<and> is_digit c"
  using dec_digits [of _ n] by (cases "dec n") auto

lemma dec_zero:
  assumes "dec m = ''0''"
  shows "m = 0"
proof (cases "m < 10")
  case True
  then have "digit_char m = CHR ''0''" using assms by (simp add: dec.simps [of m])
  moreover have "digit_val (CHR ''0'') = 0" by (simp add: digit_val_def ord_def)
  ultimately show "m = 0" using digit_char(2) [OF True] by metis
next
  case False
  then have "dec (m div 10) = []" using assms by (simp add: dec.simps [of m])
  then show "m = 0" by simp
qed

lemma dec_leading: "hd (dec n) = CHR ''0'' \<Longrightarrow> dec n = ''0''"
proof (induction n rule: dec.induct)
  case (1 n)
  show ?case
  proof (cases "n < 10")
    case False
    then have "hd (dec n) = hd (dec (n div 10))" by (simp add: dec.simps [of n])
    with "1.IH" "1.prems" False have "dec (n div 10) = ''0''" by simp
    from dec_zero [OF this] False show ?thesis by (simp add: div_eq_0_iff)
  qed (use "1.prems" in \<open>simp add: dec.simps [of n]\<close>)
qed

lemma foldl_dec: "foldl (\<lambda>n d. n * 10 + digit_val d) 0 (dec n) = n"
proof (induction n rule: dec.induct)
  case (1 n)
  then show ?case by (cases "n < 10") (simp_all add: dec.simps [of n])
qed

lemma parse_number_digits:
  assumes "takeWhile is_digit s = ds" and "dropWhile is_digit s = r" and "hd s \<noteq> CHR ''-''"
    and "ds \<noteq> []" and "\<not> (hd ds = CHR ''0'' \<and> ds \<noteq> ''0'')"
    and "\<not> (r \<noteq> [] \<and> (hd r = CHR ''.'' \<or> hd r = CHR ''e'' \<or> hd r = CHR ''E''))"
  shows "parse_number s = Some (int (foldl (\<lambda>n d. n * 10 + digit_val d) 0 ds), r)"
    and "parse_number (CHR ''-'' # s) = Some (- int (foldl (\<lambda>n d. n * 10 + digit_val d) 0 ds), r)"
  using assms by (simp_all add: parse_number_def Let_def)

lemma parse_dec_int:
  assumes "ends r"
  shows "parse_number (dec_int i @ r) = Some (i, r)"
proof -
  have "r = [] \<or> \<not> is_digit (hd r) \<and> hd r \<notin> {CHR ''.'', CHR ''e'', CHR ''E''}"
    using assms by (auto simp: ends_def is_digit_def ord_def)
  then have tw: "takeWhile is_digit (dec n @ r) = dec n" "dropWhile is_digit (dec n @ r) = r"
    and h: "\<not> (r \<noteq> [] \<and> (hd r = CHR ''.'' \<or> hd r = CHR ''e'' \<or> hd r = CHR ''E''))" for n
    using dec_digits [of _ n] by (cases r; auto simp: takeWhile_append dropWhile_append)+
  have d: "hd (dec n @ r) \<noteq> CHR ''-''" "\<not> (hd (dec n) = CHR ''0'' \<and> dec n \<noteq> ''0'')" for n
    using dec_head [of n] dec_leading [of n] by (auto dest: is_digit_neq)
  have p: "parse_number (dec n @ r) = Some (int n, r)" "parse_number (CHR ''-'' # dec n @ r) = Some (- int n, r)" for n
    using parse_number_digits [OF tw, of n] d h by (simp_all add: foldl_dec)
  show ?thesis using p [of "nat i"] p [of "nat (- i)"] by (simp add: dec_int_def)
qed

lemma json_enc_head: "\<exists>c cs. json_enc j = c # cs \<and> 32 < ord c \<and> c \<noteq> CHR '']'' \<and> c \<noteq> CHR ''}''"
proof (cases j)
  case (JInt i)
  show ?thesis
  proof (cases "i < 0")
    case False
    obtain c cs where "dec (nat i) = c # cs" "is_digit c" using dec_head by blast
    then show ?thesis using False JInt by (auto simp: dec_int_def is_digit_def ord_def)
  qed (simp add: JInt dec_int_def ord_def)
qed (auto simp: json_string_def ord_def)

lemma json_enc_first: "32 < ord (hd (json_enc j @ r))" "hd (json_enc j @ r) \<noteq> CHR '']''" "json_enc j @ r \<noteq> []"
  using json_enc_head [of j] by auto

text \<open>What \<open>parse_value\<close> does with each kind of text.\<close>

lemma parse_value_simps:
  "well_formed s \<Longrightarrow> parse_value (Suc n) (json_string s @ r) = Some (JStr s, r)"
  "ends r \<Longrightarrow> parse_value (Suc n) (dec_int i @ r) = Some (JInt i, r)"
proof -
  show "well_formed s \<Longrightarrow> parse_value (Suc n) (json_string s @ r) = Some (JStr s, r)"
    by (simp add: json_string_def parse_json_string ord_def del: parse_string.simps)
  assume e: "ends r"
  obtain c cs where c: "dec_int i @ r = c # cs" "c = CHR ''-'' \<or> is_digit c"
    using dec_head [of "nat i"] by (cases "i < 0") (auto simp: dec_int_def)
  then have "32 < ord c" "c \<noteq> CHR 0x22" "c \<noteq> CHR ''[''" "c \<noteq> CHR ''{''" "c \<noteq> CHR ''n''" "c \<noteq> CHR ''t''" "c \<noteq> CHR ''f''"
    by (auto simp: is_digit_def ord_def)
  then show "parse_value (Suc n) (dec_int i @ r) = Some (JInt i, r)"
    using parse_dec_int [OF e, of i] unfolding c(1) by simp
qed

lemma parse_elements_enc:
  assumes "\<And>j n r. j \<in> set js \<Longrightarrow> ends r \<Longrightarrow> length (json_enc j) \<le> n \<Longrightarrow> parse_value n (json_enc j @ r) = Some (j, r)"
    and "js \<noteq> []" and "length (Join '','' (map json_enc js)) < n"
  shows "parse_elements n (Join '','' (map json_enc js) @ CHR '']'' # r) = Some (js, r)"
  using assms(2,1,3)
proof (induction js arbitrary: n rule: list_nonempty_induct)
  case (single j)
  then obtain m where n: "n = Suc m" "length (json_enc j) \<le> m" by (cases n) auto
  with single.prems(1) [of j "CHR '']'' # r" m] show ?case by (simp add: ord_def)
next
  case (cons j js)
  then obtain m where n: "n = Suc m" by (cases n) auto
  obtain k ks where js: "js = k # ks" using cons.hyps(1) by (cases js) auto
  have J: "Join '','' (map json_enc (j # js)) = json_enc j @ CHR '','' # Join '','' (map json_enc js)" by (simp add: js)
  have "0 < length (json_enc j)" using json_enc_head [of j] by auto
  then have l: "length (json_enc j) \<le> m" "length (Join '','' (map json_enc js)) < m"
    using cons.prems(2) unfolding J n by simp_all
  have v: "parse_value m (json_enc j @ CHR '','' # Join '','' (map json_enc js) @ CHR '']'' # r) =
      Some (j, CHR '','' # Join '','' (map json_enc js) @ CHR '']'' # r)"
    using l(1) by (intro cons.prems(1)) simp_all
  show ?case
    unfolding J n using v cons.IH [OF cons.prems(1) l(2)] by (simp add: ord_def)
qed

definition member_text :: "string \<times> json \<Rightarrow> string" where
  "member_text = (\<lambda>(k, v). json_string k @ '':'' @ json_enc v)"

lemma json_enc_Obj: "json_enc (JObj kvs) = CHR ''{'' # Join '','' (map member_text kvs) @ ''}''"
  by (simp add: member_text_def)

lemma parse_members_enc:
  assumes "\<And>k v n r. (k, v) \<in> set kvs \<Longrightarrow> ends r \<Longrightarrow> length (json_enc v) \<le> n \<Longrightarrow> parse_value n (json_enc v @ r) = Some (v, r)"
    and "\<forall>x\<in>set kvs. well_formed (fst x)"
    and "kvs \<noteq> []" and "length (Join '','' (map member_text kvs)) < n"
  shows "parse_members n (Join '','' (map member_text kvs) @ CHR ''}'' # r) = Some (kvs, r)"
  using assms(3,1,2,4)
proof (induction kvs arbitrary: n rule: list_nonempty_induct)
  case (single kv)
  obtain k v where kv: "kv = (k, v)" by fastforce
  then obtain m where n: "n = Suc m" "length (json_enc v) \<le> m" using single.prems(3) by (cases n) (auto simp: member_text_def)
  have "well_formed k" using single.prems(2) kv by simp
  from parse_json_string [OF this, of "CHR '':'' # json_enc v @ CHR ''}'' # r"] single.prems(1) [of k v "CHR ''}'' # r" m] n
  show ?case by (simp add: kv member_text_def json_string_def ord_def del: parse_string.simps)
next
  case (cons kv kvs)
  obtain k v where kv: "kv = (k, v)" by fastforce
  from cons obtain m where n: "n = Suc m" by (cases n) auto
  obtain x xs where kvs: "kvs = x # xs" using cons.hyps(1) by (cases kvs) auto
  let ?rest = "Join '','' (map member_text kvs) @ CHR ''}'' # r"
  have J: "Join '','' (map member_text (kv # kvs)) = member_text kv @ CHR '','' # Join '','' (map member_text kvs)"
    by (simp add: kvs)
  have l: "length (json_enc v) \<le> m" "length (Join '','' (map member_text kvs)) < m"
    using cons.prems(3) unfolding J n by (simp_all add: kv member_text_def json_string_def)
  have v: "parse_value m (json_enc v @ CHR '','' # ?rest) = Some (v, CHR '','' # ?rest)"
    using l(1) by (intro cons.prems(1) [of k]) (simp_all add: kv)
  have k: "parse_string (json_body k @ CHR 0x22 # CHR '':'' # json_enc v @ CHR '','' # ?rest) =
      Some (k, CHR '':'' # json_enc v @ CHR '','' # ?rest)"
    using cons.prems(2) by (intro parse_json_string) (simp add: kv)
  have "parse_members m ?rest = Some (kvs, r)"
    by (rule cons.IH) (use cons.prems(1,2) l(2) in auto)
  then show ?case
    unfolding J n using v k by (simp add: kv member_text_def json_string_def ord_def del: parse_string.simps)
qed

lemma parse_value_Arr:
  assumes "js \<noteq> []" and "parse_elements n (Join '','' (map json_enc js) @ CHR '']'' # r) = Some (js, r)"
  shows "parse_value (Suc n) (json_enc (JArr js) @ r) = Some (JArr js, r)"
proof -
  obtain j js' where js: "js = j # js'" using assms(1) by (cases js) auto
  obtain c cs where c: "json_enc j = c # cs" "32 < ord c" "c \<noteq> CHR '']''" using json_enc_head by blast
  let ?t = "Join '','' (map json_enc js) @ CHR '']'' # r"
  obtain t where t: "?t = c # t" by (cases js') (simp_all add: js c(1))
  have "skip_ws ?t = ?t" "hd ?t = c" using c(2) unfolding t by simp_all
  with assms c(3) show ?thesis by (simp add: ord_def)
qed

lemma parse_value_Obj:
  assumes "kvs \<noteq> []" and "parse_members n (Join '','' (map member_text kvs) @ CHR ''}'' # r) = Some (kvs, r)"
  shows "parse_value (Suc n) (json_enc (JObj kvs) @ r) = Some (JObj kvs, r)"
proof -
  obtain kv kvs' where kvs: "kvs = kv # kvs'" using assms(1) by (cases kvs) auto
  let ?t = "Join '','' (map member_text kvs) @ CHR ''}'' # r"
  obtain t where t: "?t = CHR 0x22 # t"
    by (cases kvs'; cases kv) (simp_all add: kvs member_text_def json_string_def)
  have "skip_ws ?t = ?t" "hd ?t = CHR 0x22" unfolding t by (simp_all add: ord_def)
  with assms show ?thesis unfolding json_enc_Obj by (simp add: ord_def)
qed

text \<open>A value of which every string is well-formed is read back, whatever follows that does not
  go on with it.\<close>

lemma parse_enc: "json_ok j \<Longrightarrow> ends r \<Longrightarrow> length (json_enc j) \<le> n \<Longrightarrow> parse_value n (json_enc j @ r) = Some (j, r)"
proof (induction j arbitrary: n r rule: json_enc.induct)
  case 1
  then obtain m where "n = Suc m" by (cases n) auto
  then show ?case by (simp add: ord_def)
next
  case (2 b)
  then obtain m where "n = Suc m" by (cases n) (auto split: if_splits)
  then show ?case by (simp add: ord_def)
next
  case (3 i)
  obtain c cs where "dec_int i = c # cs" using json_enc_head [of "JInt i"] by auto
  with 3 obtain m where "n = Suc m" by (cases n) auto
  with parse_value_simps(2) [OF 3(2)] show ?case by simp
next
  case (4 s)
  then obtain m where "n = Suc m" by (cases n) (auto simp: json_string_def)
  with parse_value_simps(1) 4(1) show ?case by simp
next
  case (5 js)
  then obtain m where n: "n = Suc m" by (cases n) auto
  show ?case
  proof (cases "js = []")
    case False
    have "length (Join '','' (map json_enc js)) < m" using "5.prems"(3) n by simp
    moreover have "parse_value k (json_enc j @ r) = Some (j, r)" if "j \<in> set js" "ends r" "length (json_enc j) \<le> k" for j k r
      using "5.IH" [OF that(1)] that "5.prems"(1) by simp
    ultimately show ?thesis
      unfolding n by (intro parse_value_Arr False parse_elements_enc) simp_all
  qed (simp add: n ord_def)
next
  case (6 kvs)
  then obtain m where n: "n = Suc m" by (cases n) auto
  show ?case
  proof (cases "kvs = []")
    case False
    have "length (Join '','' (map member_text kvs)) < m" using "6.prems"(3) n by (simp add: member_text_def)
    moreover have "parse_value k (json_enc v @ r) = Some (v, r)" if "(x, v) \<in> set kvs" "ends r" "length (json_enc v) \<le> k" for x v k r
      using "6.IH" [OF that(1) refl] that "6.prems"(1) by auto
    moreover have "\<forall>x\<in>set kvs. well_formed (fst x)" using "6.prems"(1) by auto
    ultimately show ?thesis
      unfolding n by (intro parse_value_Obj False parse_members_enc) simp_all
  qed (simp add: n ord_def)
qed

lemma json_decode_enc: "json_ok j \<Longrightarrow> json_decode (json_enc j) = Some j"
  using parse_enc [of j "[]" "Suc (length (json_enc j))"] by (simp add: json_decode_def del: parse_value.simps)

end
