(* ===== verification/Handover.thy ===== *)
theory Handover
  imports Queues Json "HOL-Library.Multiset"
begin

text \<open>
  From the gateway to the transcoder: a recording is pushed as JSON (\<open>PushToQueue\<close> of
  \<open>pkg/redis.go\<close>), the pod of its queue reads it back (\<open>PeekFromQueue\<close>) and encodes it
  (\<open>EncodeRecording\<close> of \<open>pkg/recording.go\<close>).
\<close>

section \<open>A recording as text\<close>

text \<open>
  The text of a time and its reading (\<open>time.Time\<close> is printed in a format of its own), and the
  zero time a new \<open>LoggingInfo\<close> has.
\<close>

record time_format =
  time_text :: "int \<Rightarrow> string"
  time_read :: "string \<Rightarrow> int option"
  zero_time :: int

definition info_members :: "time_format \<Rightarrow> LoggingInfo \<Rightarrow> (string \<times> json) list" where
  "info_members tf l =
     [(''tenantId'', JStr (li_TenantId l)), (''email'', JStr (li_Email l)), (''appName'', JStr (li_AppName l)),
      (''clientIp'', JStr (li_ClientIp l)), (''clientPrivateIp'', JStr (li_ClientPrivateIp l)),
      (''s3key'', JStr (S3Key l)), (''enableRecording'', JBool (EnableRecording l)),
      (''startTime'', JStr (time_text tf (StartTime l))), (''sku'', JStr (Sku l)), (''sessionid'', JStr (li_SessionId l))]"

definition Marshal_info :: "time_format \<Rightarrow> LoggingInfo \<Rightarrow> string" where
  "Marshal_info tf l = json_enc (JObj (info_members tf l))"

text \<open>
  A member finds the field with its name, or else with its name up to the case of letters;
  the names of the fields have no letters \<open>json\<close> folds with others than ASCII ones except
  \<open>s\<close> and \<open>k\<close>, whose two other forms are not modelled.
\<close>

definition ascii_lower :: "string \<Rightarrow> string" where
  "ascii_lower s = map (\<lambda>c. if 65 \<le> ord c \<and> ord c \<le> 90 then chr (ord c + 32) else c) s"

definition field_names :: "string list" where
  "field_names = [''tenantId'', ''email'', ''appName'', ''clientIp'', ''clientPrivateIp'', ''s3key'', ''enableRecording'',
     ''startTime'', ''sku'', ''sessionid'']"

definition find_field :: "string \<Rightarrow> string option" where
  "find_field k = (if k \<in> set field_names then Some k else find (\<lambda>n. ascii_lower n = ascii_lower k) field_names)"

definition set_string :: "string \<Rightarrow> string \<Rightarrow> LoggingInfo \<Rightarrow> LoggingInfo" where
  "set_string n s l =
     (if n = ''tenantId'' then l\<lparr>li_TenantId := s\<rparr> else if n = ''email'' then l\<lparr>li_Email := s\<rparr>
      else if n = ''appName'' then l\<lparr>li_AppName := s\<rparr> else if n = ''clientIp'' then l\<lparr>li_ClientIp := s\<rparr>
      else if n = ''clientPrivateIp'' then l\<lparr>li_ClientPrivateIp := s\<rparr> else if n = ''s3key'' then l\<lparr>S3Key := s\<rparr>
      else if n = ''sku'' then l\<lparr>Sku := s\<rparr> else l\<lparr>li_SessionId := s\<rparr>)"

text \<open>One member; \<open>None\<close> is a value of another type, and then the error of \<open>Unmarshal\<close>.\<close>

definition set_member :: "time_format \<Rightarrow> string \<times> json \<Rightarrow> LoggingInfo option \<Rightarrow> LoggingInfo option" where
  "set_member tf m r =
     (case r of
        None \<Rightarrow> None
      | Some l \<Rightarrow>
          (case find_field (fst m) of
             None \<Rightarrow> Some l
           | Some n \<Rightarrow>
               (case snd m of
                  JNull \<Rightarrow> Some l
                | JBool b \<Rightarrow> if n = ''enableRecording'' then Some (l\<lparr>EnableRecording := b\<rparr>) else None
                | JStr s \<Rightarrow>
                    if n = ''enableRecording'' then None
                    else if n = ''startTime'' then map_option (\<lambda>t. l\<lparr>StartTime := t\<rparr>) (time_read tf s)
                    else Some (set_string n s l)
                | _ \<Rightarrow> None)))"

definition zero_info :: "time_format \<Rightarrow> LoggingInfo" where
  "zero_info tf = \<lparr>li_TenantId = [], li_Email = [], li_AppName = [], li_ClientIp = [], li_ClientPrivateIp = [], S3Key = [],
     EnableRecording = False, StartTime = zero_time tf, Sku = [], li_SessionId = []\<rparr>"

definition Unmarshal_info :: "time_format \<Rightarrow> string \<Rightarrow> LoggingInfo option" where
  "Unmarshal_info tf text =
     (case json_decode text of
        Some (JObj ms) \<Rightarrow> fold (set_member tf) ms (Some (zero_info tf))
      | Some JNull \<Rightarrow> Some (zero_info tf)
      | _ \<Rightarrow> None)"

section \<open>It is read back\<close>

definition info_ok :: "LoggingInfo \<Rightarrow> bool" where
  "info_ok l \<longleftrightarrow> (\<forall>s\<in>{li_TenantId l, li_Email l, li_AppName l, li_ClientIp l, li_ClientPrivateIp l, S3Key l, Sku l, li_SessionId l}.
     well_formed s)"

definition format_ok :: "time_format \<Rightarrow> bool" where
  "format_ok tf \<longleftrightarrow> (\<forall>t. well_formed (time_text tf t) \<and> time_read tf (time_text tf t) = Some t)"

lemma well_formed_ascii:
  assumes "\<forall>c\<in>set s. ord c < 128"
  shows "well_formed s"
proof -
  have "s = utf8 (map ord s)" "\<forall>r\<in>set (map ord s). valid_rune r"
    using assms by (induction s) (auto simp: EncodeRune_ascii chr_ord valid_rune_def)
  then show ?thesis unfolding well_formed_def by blast
qed

lemma Unmarshal_Marshal:
  assumes "info_ok l" and "format_ok tf"
  shows "Unmarshal_info tf (Marshal_info tf l) = Some l"
proof -
  have "well_formed k" if "k \<in> set field_names" for k
    using that by (intro well_formed_ascii) (auto simp: field_names_def ord_def)
  then have "json_ok (JObj (info_members tf l))"
    using assms by (simp add: info_members_def field_names_def info_ok_def format_ok_def)
  then have "json_decode (Marshal_info tf l) = Some (JObj (info_members tf l))"
    unfolding Marshal_info_def by (rule json_decode_enc)
  then show ?thesis
    using assms(2)
    by (simp add: Unmarshal_info_def info_members_def set_member_def find_field_def field_names_def set_string_def format_ok_def
        zero_info_def)
qed

section \<open>Every recording is encoded\<close>

text \<open>What the pods have to do: the recordings of the queues together are those that were pushed.\<close>

lemma sum_queued:
  assumes "inj_on f {..<q :: nat}" and "\<forall>x\<in>set xs. g (fst x) < q"
  shows "(\<Sum>j<q. mset (queued (f j) (map (\<lambda>(i, l). QueuePush (f (g i)) l) xs))) = mset (map snd xs)"
  using assms(2)
proof (induction xs)
  case (Cons x xs)
  obtain i l where x: "x = (i, l)" by fastforce
  let ?es = "map (\<lambda>(i, l). QueuePush (f (g i)) l) xs"
  have "f (g i) = f j \<longleftrightarrow> j = g i" if "j < q" for j
    using inj_onD [OF assms(1), of "g i" j] that Cons.prems(1) by (auto simp: x)
  then have "(\<Sum>j<q. mset (queued (f j) (QueuePush (f (g i)) l # ?es))) =
      (\<Sum>j<q. (if j = g i then {#l#} else 0) + mset (queued (f j) ?es))"
    by (intro sum.cong) auto
  also have "\<dots> = {#l#} + (\<Sum>j<q. mset (queued (f j) ?es))"
    using Cons.prems(1) by (simp add: sum.distrib x)
  finally show ?case using Cons.IH Cons.prems(1) by (simp add: x)
qed simp

lemma sum_queued_pushes:
  assumes "number_of_queues env = int q" and "0 < q" and "q < 2 ^ 63"
  shows "(\<Sum>j<q. mset (queued (GetQueueName env (int j)) (pushes env 0 ls))) = mset (map snd (numbered env 0 ls))"
proof -
  have "inj_on (\<lambda>j. GetQueueName env (int j)) {..<q}"
    using assms(3) GetQueueName_eq [of _ _ env] by (auto simp: inj_on_def)
  from sum_queued [OF this, of "numbered env 0 ls" "\<lambda>i. i mod q"] assms(2) show ?thesis
    by (simp add: pushes_def assms(1) zmod_int)
qed

lemma queued_mem: "l \<in> set (queued name es) \<Longrightarrow> \<exists>n. QueuePush n l \<in> set es"
  by (induction name es rule: queued.induct) (auto split: if_splits)

lemma Marshal_info_not_Nil: "Marshal_info tf l \<noteq> []"
  by (simp add: Marshal_info_def)

text \<open>A queue of texts of recordings is read back to its end.\<close>

lemma infos_Marshal:
  assumes "format_ok tf" and "\<forall>l\<in>set ls. info_ok l" and "read_info enc = Unmarshal_info tf"
  shows "infos enc (map (Marshal_info tf) ls) = ls" and "dropWhile (readable enc) (map (Marshal_info tf) ls) = []"
proof -
  have r: "Unmarshal_info tf (Marshal_info tf l) = Some l" if "l \<in> set ls" for l
    using that assms(1,2) Unmarshal_Marshal by blast
  then have a: "\<forall>m\<in>set (map (Marshal_info tf) ls). readable enc m"
    by (auto simp: readable_def assms(3) Marshal_info_not_Nil)
  then show "dropWhile (readable enc) (map (Marshal_info tf) ls) = []" by (simp only: dropWhile_eq_Nil_conv)
  have "map (\<lambda>msg. the (read_info enc msg)) (map (Marshal_info tf) ls) = ls"
    using r by (simp add: assms(3) map_idI)
  moreover from a have "takeWhile (readable enc) (map (Marshal_info tf) ls) = map (Marshal_info tf) ls"
    by (simp only: takeWhile_eq_all_conv)
  ultimately show "infos enc (map (Marshal_info tf) ls) = ls" by (simp only: infos_def)
qed

text \<open>C26: no recording is lost between the gateway and the pods, but for pushes that fail: the queues
  together hold the recordings whose push succeeded, each once, and each pod, among whatever
  rounds in which its queue cannot be reached or it is stopped, has after as many undisturbed
  rounds as its queue has entries read all of them back, handled them in the order they were
  pushed, each completely at least once, and emptied its queue; each exactly once when no pop
  failed and the pod was not stopped.\<close>

theorem recordings_handed_over:
  assumes "number_of_queues env = int q" and "0 < q" and "q < 2 ^ 63" and "queue_count w = 0" and "length ls < 2 ^ 63"
    and "format_ok tf" and "\<forall>l\<in>set ls. info_ok l" and "read_info enc = Unmarshal_info tf"
  shows "\<exists>es. trace (push_all env ls w) = trace w @ es \<and>
    (\<Sum>j<q. mset (queued (GetQueueName env (int j)) es)) = mset (map snd (numbered env 0 (filter EnableRecording ls))) \<and>
    (\<forall>j<q. \<forall>rs done. length (queued (GetQueueName env (int j)) es) \<le> length (filter undisturbed rs) \<longrightarrow>
       (\<exists>xss. EncodeRecording enc rs (map (Marshal_info tf) (queued (GetQueueName env (int j)) es), done) =
            ([], done @ concat (concat xss)) \<and>
          worked_off enc done (queued (GetQueueName env (int j)) es) xss \<and>
          (no_retry rs \<longrightarrow> (\<forall>xs\<in>set xss. length xs = 1))))"
proof (intro exI [of _ "pushes env 0 (filter EnableRecording ls)"] conjI allI impI)
  let ?ls = "filter EnableRecording ls"
  let ?es = "pushes env 0 ?ls"
  show "trace (push_all env ls w) = trace w @ ?es"
    using push_all_pushes [of env w 0 ls] assms(1,2,4,5) by simp
  show "(\<Sum>j<q. mset (queued (GetQueueName env (int j)) ?es)) = mset (map snd (numbered env 0 ?ls))"
    by (rule sum_queued_pushes [OF assms(1-3)])
  fix j rs "done"
  let ?mine = "queued (GetQueueName env (int j)) ?es"
  assume n: "length ?mine \<le> length (filter undisturbed rs)"
  have "l \<in> set ls" if mine: "l \<in> set ?mine" for l
  proof -
    obtain n where "QueuePush n l \<in> set ?es" using queued_mem [OF mine] ..
    then have "\<exists>x\<in>set (numbered env 0 ?ls). l = snd x" by (auto simp: pushes_def intro: rev_bexI)
    then obtain x where x: "x \<in> set (numbered env 0 ?ls)" "l = snd x" ..
    from numbered_mem [OF x(1)] x(2) show ?thesis by simp
  qed
  with assms(7) have "\<forall>l\<in>set ?mine. info_ok l" by blast
  note i = infos_Marshal [OF assms(6) this assms(8)]
  from n have "length (map (Marshal_info tf) ?mine) \<le> length (filter undisturbed rs)" by simp
  from EncodeRecording_run [OF this, of enc "done"] show "\<exists>xss. EncodeRecording enc rs (map (Marshal_info tf) ?mine, done) =
      ([], done @ concat (concat xss)) \<and> worked_off enc done ?mine xss \<and> (no_retry rs \<longrightarrow> (\<forall>xs\<in>set xss. length xs = 1))"
    by (simp only: i)
qed

text \<open>Two recordings for one pod, which pops the first only in the second round; the push of a third fails.\<close>

lemma recordings_handed_over_witness:
  "\<exists>env l tf enc es xss. trace (push_all env [l, l, l] empty_world) = es \<and>
     (\<Sum>j<1. mset (queued (GetQueueName env (int j)) es)) = {#l, l#} \<and>
     EncodeRecording enc demo_rounds (map (Marshal_info tf) (queued (GetQueueName env 0) es), []) = ([], concat (concat xss)) \<and>
     worked_off enc [] (queued (GetQueueName env 0) es) xss"
proof -
  let ?l = "demo_info\<lparr>EnableRecording := True\<rparr>"
  let ?env = "demo_env\<lparr>number_of_queues := 1, push_err := \<lambda>n. if n = 2 then Some ''down'' else None\<rparr>"
  define tf where "tf = \<lparr>time_text = \<lambda>t. ''t'' @ replicate (nat t) (CHR ''p'') @ replicate (nat (- t)) (CHR ''m''),
    time_read = \<lambda>s. Some (int (length (filter ((=) (CHR ''p'')) s)) - int (length (filter ((=) (CHR ''m'')) s))), zero_time = 0\<rparr>"
  have f: "format_ok tf"
    by (auto simp: format_ok_def tf_def ord_def intro!: well_formed_ascii)
  have l: "\<forall>l\<in>set [?l, ?l, ?l]. info_ok l"
    by (auto simp: info_ok_def demo_info_def ord_def intro!: well_formed_ascii)
  let ?enc = "demo_encoder\<lparr>read_info := Unmarshal_info tf\<rparr>"
  have q: "number_of_queues ?env = int 1" "(0::nat) < 1" "(1::nat) < 2 ^ 63" by (simp_all add: demo_env_def)
  have w: "queue_count empty_world = 0" "length [?l, ?l, ?l] < 2 ^ 63" by (simp_all add: empty_world_def)
  have e: "read_info ?enc = Unmarshal_info tf" by simp
  have m: "numbered ?env 0 (filter EnableRecording [?l, ?l, ?l]) = [(1, ?l), (3, ?l)]"
    by (simp add: numbered_def demo_env_def upt_rec)
  from recordings_handed_over [OF q w f l e] obtain es where es: "trace (push_all ?env [?l, ?l, ?l] empty_world) = trace empty_world @ es"
    "(\<Sum>j<1. mset (queued (GetQueueName ?env (int j)) es)) = mset (map snd (numbered ?env 0 (filter EnableRecording [?l, ?l, ?l])))"
    "\<forall>j<1. \<forall>rs done. length (queued (GetQueueName ?env (int j)) es) \<le> length (filter undisturbed rs) \<longrightarrow>
       (\<exists>xss. EncodeRecording ?enc rs (map (Marshal_info tf) (queued (GetQueueName ?env (int j)) es), done) =
            ([], done @ concat (concat xss)) \<and>
          worked_off ?enc done (queued (GetQueueName ?env (int j)) es) xss \<and>
          (no_retry rs \<longrightarrow> (\<forall>xs\<in>set xss. length xs = 1)))" by (elim exE conjE) (rule that)
  have two: "mset (queued (GetQueueName ?env (int 0)) es) = {#?l, ?l#}" using es(2) unfolding m by simp
  have "length (queued (GetQueueName ?env (int 0)) es) = size (mset (queued (GetQueueName ?env (int 0)) es))" by simp
  then have "length (queued (GetQueueName ?env (int 0)) es) = 2" unfolding two by simp
  then have n: "length (queued (GetQueueName ?env (int 0)) es) \<le> length (filter undisturbed demo_rounds)"
    by (simp add: demo_rounds_def undisturbed_def numeral_eq_Suc)
  have "(0::nat) < 1" by simp
  from es(3) [rule_format, OF this n, of "[]"] obtain xss where
    "EncodeRecording ?enc demo_rounds (map (Marshal_info tf) (queued (GetQueueName ?env 0) es), []) = ([], concat (concat xss))"
    "worked_off ?enc [] (queued (GetQueueName ?env 0) es) xss" by auto
  moreover have "trace (push_all ?env [?l, ?l, ?l] empty_world) = es" using es(1) by (simp add: empty_world_def)
  moreover have "(\<Sum>j<1. mset (queued (GetQueueName ?env (int j)) es)) = {#?l, ?l#}" using two by simp
  ultimately show ?thesis by blast
qed

end
