(* ===== verification/Logging.thy ===== *)
theory Logging
  imports CommandProps Recording
begin

text \<open>
  What \<open>lib/logging\<close> makes of an event: \<open>Log\<close> of \<open>Commands\<close> records the action it is given,
  here is the line it prints, the entry of a recording, and the opening and closing of the
  log file. The clock is a parameter; the writing of the lines is not modelled.
\<close>

section \<open>The entry of an action\<close>

text \<open>The fields of \<open>Action\<close> that only \<open>Log\<close> sets, and \<open>Recording\<close>, which nothing sets.\<close>

record LogEntry = Action +
  AppType :: string
  ProductType :: string
  log_TenantID :: string
  log_AppID :: string
  log_AppName :: string
  log_RdpSessionId :: string
  log_Recording :: bool
  log_MonitorPolicyId :: string
  log_MonitorPolicyName :: string

definition entry_of :: "Action \<Rightarrow> LogEntry" where
  "entry_of a = Action.extend a
     \<lparr>AppType = ''rdp'', ProductType = ''Portal'', log_TenantID = [], log_AppID = [], log_AppName = [], log_RdpSessionId = [],
      log_Recording = False, log_MonitorPolicyId = [], log_MonitorPolicyName = []\<rparr>"

definition FillAttribute :: "SessionCommonData \<Rightarrow> LogEntry \<Rightarrow> LogEntry" where
  "FillAttribute s a = a\<lparr>log_TenantID := TenantID s, log_AppID := AppID s, log_AppName := ses_AppName s,
     log_RdpSessionId := RdpSessionId s, log_MonitorPolicyId := MonitorPolicyId s,
     log_MonitorPolicyName := MonitorPolicyName s\<rparr>"

text \<open>
  The members in the order of the struct. Only block events and transfers set \<open>Files\<close>, to a
  list of one; it is nil, and written as null, in the others.
\<close>

definition entry_members :: "LogEntry \<Rightarrow> (string \<times> json) list" where
  "entry_members a =
     [(''app_tag'', JStr (AppTag a)), (''app_type'', JStr (AppType a)), (''product_type'', JStr (ProductType a)),
      (''tenantID'', JStr (log_TenantID a)), (''appID'', JStr (log_AppID a)), (''appName'', JStr (log_AppName a)),
      (''rdpSessionId'', JStr (log_RdpSessionId a)), (''recording'', JBool (log_Recording a)),
      (''monitorpolicyid'', JStr (log_MonitorPolicyId a)), (''monitorpolicyname'', JStr (log_MonitorPolicyName a)),
      (''policyid'', JStr (PolicyID a)), (''policyname'', JStr (PolicyName a)), (''userEmail'', JStr (UserEmail a)),
      (''username'', JStr (Username a)), (''remotePath'', JStr (RemotePath a))] @
     (if FileCount a = 0 then [] else [(''fileCount'', JInt (FileCount a))]) @
     [(''files'', if Files a = [] then JNull else JArr (map JStr (Files a))), (''client_ip'', JStr (act_ClientIP a)),
      (''client_private_ip'', JStr (act_ClientPrivateIp a)), (''dest'', JStr (Destination a)),
      (''blockPolicyType'', JStr (BlockPolicyType a)), (''blockReason'', JStr (BlockReason a))]"

text \<open>The line \<open>Log\<close> prints; \<open>None\<close> is the panic of an action without a session.\<close>

definition log_line :: "string \<Rightarrow> world \<Rightarrow> Action \<Rightarrow> string option" where
  "log_line now w a =
     (case act_Session a of
        None \<Rightarrow> None
      | Some p \<Rightarrow> Some (now @ '' '' @ json_enc (JObj (entry_members (FillAttribute (ses_at w p) (entry_of a)))) @ [CHR 0x0A]))"

text \<open>The fields of \<open>LogRecording\<close>; the storage gives the bucket, the key, its type and the region.\<close>

record storage_info =
  GetRdpBucket :: string
  GetKeyId :: string
  GetStorageType :: string
  GetRegion :: string

definition recording_members :: "LoggingInfo \<Rightarrow> string \<Rightarrow> storage_info \<Rightarrow> string \<Rightarrow> (string \<times> json) list" where
  "recording_members info key st sessionid =
     [(''ts'', JInt (StartTime info)), (''tenant'', JStr (li_TenantId info)), (''username'', JStr (li_Email info)),
      (''app_name'', JStr (li_AppName info)), (''file_key'', JStr key), (''bucket'', JStr (GetRdpBucket st)),
      (''region'', JStr (GetRegion st)), (''client_ip'', JStr (li_ClientIp info)),
      (''client_private_ip'', JStr (li_ClientPrivateIp info)), (''key_id'', JStr (GetKeyId st)),
      (''storage_type'', JStr (GetStorageType st)), (''sessionid'', JStr sessionid)]"

section \<open>The log file\<close>

text \<open>
  \<open>reportFile\<close> is the variable of the package, \<open>printer\<close> what \<open>logger\<close> prints to: standard
  error or the file with a number.
\<close>

record log_state =
  reportFile :: "nat option"
  printer :: "nat option"
  recordingLogger :: bool
  open_files :: "nat set"

definition log_init :: log_state where
  "log_init = \<lparr>reportFile = None, printer = None, recordingLogger = False, open_files = {}\<rparr>"

text \<open>
  \<open>Init\<close>: \<open>file\<close> is what opening the file answers, \<open>zap\<close> whether the logger of the recordings
  can be built. \<open>None\<close> is \<open>logrus.Fatal\<close>. The \<open>:=\<close> makes a variable of its own of
  \<open>reportFile\<close>, so that of the package stays nil.
\<close>

definition logging_Init :: "nat option \<Rightarrow> bool \<Rightarrow> log_state \<Rightarrow> log_state option" where
  "logging_Init file zap s =
     (case file of
        None \<Rightarrow> None
      | Some f \<Rightarrow> Some (s\<lparr>printer := Some f, recordingLogger := zap, open_files := insert f (open_files s)\<rparr>))"

definition logging_Close :: "log_state \<Rightarrow> log_state" where
  "logging_Close s =
     (case reportFile s of
        None \<Rightarrow> s
      | Some f \<Rightarrow> s\<lparr>open_files := open_files s - {f}\<rparr>)"

text \<open>The file \<open>Init\<close> opened is never closed.\<close>

lemma log_file_stays_open: "logging_Init (Some f) zap log_init = Some s \<Longrightarrow> f \<in> open_files (logging_Close s)"
  by (auto simp: logging_Init_def logging_Close_def log_init_def)

section \<open>An entry is one line\<close>

text \<open>No character of a JSON text is a control character: a line break is written as an escape.\<close>

lemma DecodeRune_high:
  assumes "DecodeRune (c # cs) = (r, n)" and "0x80 \<le> ord c" and "x \<in> set (take n (c # cs))"
  shows "0x80 \<le> ord x"
proof -
  consider "n = 1" | c1 rest where "cs = c1 # rest" "n = 2" "0x80 \<le> ord c1"
    | c1 c2 rest where "cs = c1 # c2 # rest" "n = 3" "0x80 \<le> ord c1" "0x80 \<le> ord c2"
    | c1 c2 c3 rest where "cs = c1 # c2 # c3 # rest" "n = 4" "0x80 \<le> ord c1" "0x80 \<le> ord c2" "0x80 \<le> ord c3"
    using assms(1,2) by (cases cs; cases "tl cs"; cases "tl (tl cs)")
      (auto simp: DecodeRune_def lead_def cont_def Let_def split: if_splits)
  then show ?thesis using assms(2,3) by cases (auto split: if_splits)
qed

definition printable :: "string \<Rightarrow> bool" where
  "printable s \<longleftrightarrow> (\<forall>c\<in>set s. 0x20 \<le> ord c)"

lemma printable_simps [simp]: "printable []" "printable (c # s) \<longleftrightarrow> 0x20 \<le> ord c \<and> printable s"
  "printable (s @ t) \<longleftrightarrow> printable s \<and> printable t"
  by (auto simp: printable_def)

lemma hex_printable: "d < 16 \<Longrightarrow> 0x20 \<le> ord (hex_digit d)"
  by (simp add: hex_digit_def ord_chr)

lemma escape_printable: "b < 256 \<Longrightarrow> printable (json_escape b)"
  using hex_printable [of "b div 16"] hex_printable [of "b mod 16"]
  by (simp add: json_escape_def ord_chr ord_def chr_def)

lemma json_body_printable: "printable (json_body s)"
proof (induction s rule: json_body.induct)
  case (2 c cs)
  obtain r n where d: "DecodeRune (c # cs) = (r, n)" by fastforce
  have "printable (take n (c # cs))" if "0x80 \<le> ord c"
    using DecodeRune_high [OF d that] by (force simp: printable_def)
  moreover have "printable [CHR 0x5C, CHR ''u'', CHR ''f'', CHR ''f'', CHR ''f'', CHR ''d'']"
    "printable [CHR 0x5C, CHR ''u'', CHR ''2'', CHR ''0'', CHR ''2'', hex_digit (r mod 16)]"
    using hex_printable [of "r mod 16"] by (simp_all add: ord_def)
  moreover have "printable [c]" if "json_safe (ord c)" using that by (simp add: json_safe_def)
  ultimately show ?case
    using 2 d escape_printable [of "ord c"] by (auto simp: Let_def simp del: printable_simps(2))
qed simp

lemma json_string_printable: "printable (json_string s)"
  using json_body_printable [of s] by (simp add: json_string_def ord_def)

lemma Join_printable: "printable sep \<Longrightarrow> \<forall>s\<in>set ss. printable s \<Longrightarrow> printable (Join sep ss)"
  by (induction sep ss rule: Join.induct) auto

lemma dec_printable: "printable (dec n)"
  using dec_digits by (force simp: printable_def is_digit_def)

lemma json_printable: "printable (json_enc j)"
proof (induction j rule: json_enc.induct)
  case (3 i)
  show ?case using dec_printable by (simp add: dec_int_def ord_def)
next
  case (5 js)
  then show ?case by (auto simp: ord_def intro!: Join_printable)
next
  case (6 kvs)
  then show ?case using json_string_printable by (fastforce simp: ord_def intro!: Join_printable)
qed (simp_all add: ord_def json_string_printable)

text \<open>C33: an event is logged as one line, whatever the user's name, the file's path or the
  application's name hold: the time, a blank, and a JSON object whose members have different
  names, with the tenant, the application, the room and the policy of the session and the
  fields of the event. The member \<open>recording\<close> is always false.\<close>

theorem log_entry_one_line:
  assumes "act_Session a = Some p" and "CHR 0x0A \<notin> set now"
  shows "\<exists>body ms. log_line now w a = Some (body @ [CHR 0x0A]) \<and> CHR 0x0A \<notin> set body \<and>
    body = now @ '' '' @ json_enc (JObj ms) \<and> distinct (map fst ms) \<and>
    map_of ms ''tenantID'' = Some (JStr (TenantID (ses_at w p))) \<and>
    map_of ms ''appID'' = Some (JStr (AppID (ses_at w p))) \<and>
    map_of ms ''rdpSessionId'' = Some (JStr (RdpSessionId (ses_at w p))) \<and>
    map_of ms ''monitorpolicyid'' = Some (JStr (MonitorPolicyId (ses_at w p))) \<and>
    map_of ms ''app_tag'' = Some (JStr (AppTag a)) \<and> map_of ms ''userEmail'' = Some (JStr (UserEmail a)) \<and>
    map_of ms ''remotePath'' = Some (JStr (RemotePath a)) \<and> map_of ms ''recording'' = Some (JBool False)"
proof -
  let ?ms = "entry_members (FillAttribute (ses_at w p) (entry_of a))"
  let ?body = "now @ '' '' @ json_enc (JObj ?ms)"
  have "CHR 0x0A \<notin> set (json_enc (JObj ?ms))"
    using json_printable [of "JObj ?ms"] by (auto simp: printable_def ord_def simp del: json_enc.simps)
  then have "CHR 0x0A \<notin> set ?body" using assms(2) by simp
  moreover have "log_line now w a = Some (?body @ [CHR 0x0A])" using assms(1) by (simp add: log_line_def del: json_enc.simps)
  moreover have "distinct (map fst ?ms)" by (simp add: entry_members_def)
  ultimately show ?thesis
    by (intro exI [of _ ?body] exI [of _ ?ms] conjI)
      (simp_all add: entry_members_def FillAttribute_def entry_of_def Action.defs LogEntry.defs del: json_enc.simps)
qed

lemma log_entry_one_line_witness:
  "\<exists>body. log_line ''now'' demo_world (empty_action\<lparr>act_Session := Some 0, UserEmail := [CHR 0x0A]\<rparr>) = Some (body @ [CHR 0x0A]) \<and>
     CHR 0x0A \<notin> set body"
proof -
  have "act_Session (empty_action\<lparr>act_Session := Some 0, UserEmail := [CHR 0x0A]\<rparr>) = Some 0" "CHR 0x0A \<notin> set ''now''" by simp_all
  from log_entry_one_line [OF this, of demo_world] show ?thesis by blast
qed

end
