(* ===== verification/WrappedSocket.thy ===== *)
theory WrappedSocket
  imports Machine GoStd
begin

text \<open>
  \<open>pkg/types.go\<close>: the websocket of a browser, which many goroutines write to (the loop from
  guacd, the commands of every member of the room, the policy goroutine), so \<open>WriteMessage\<close>
  holds a mutex. What \<open>Conn.WriteMessage\<close> of the websocket library puts on the wire for a
  message is a parameter: a list of pieces, between any two of which another goroutine can
  run, and each of which may fail, after which the call returns.
\<close>

type_synonym ws_data = "int \<times> byte list"

text \<open>A call of \<open>WriteMessage\<close>: before \<open>Lock\<close>, or with the mutex and so many pieces written.\<close>

datatype ws_writer = Outside | AtLock ws_data | is_Sends: Sends ws_data nat

text \<open>\<open>returned\<close>: the calls that have returned, with the number of pieces each wrote.\<close>

record wrapped_socket =
  mux :: bool
  wire :: "byte list list"
  writers :: "nat \<Rightarrow> ws_writer"
  returned :: "(ws_data \<times> nat) list"

definition NewWrappedWebSocket :: wrapped_socket where
  "NewWrappedWebSocket = \<lparr>mux = False, wire = [], writers = (\<lambda>_. Outside), returned = []\<rparr>"

definition enters_call :: "nat \<Rightarrow> ws_data \<Rightarrow> wrapped_socket \<Rightarrow> wrapped_socket" where
  "enters_call t m s = s\<lparr>writers := (writers s)(t := AtLock m)\<rparr>"

definition takes_mux :: "nat \<Rightarrow> ws_data \<Rightarrow> wrapped_socket \<Rightarrow> wrapped_socket option" where
  "takes_mux t m s = (if mux s then None else Some (s\<lparr>mux := True, writers := (writers s)(t := Sends m 0)\<rparr>))"

definition puts_piece :: "(ws_data \<Rightarrow> byte list list) \<Rightarrow> nat \<Rightarrow> ws_data \<Rightarrow> nat \<Rightarrow> wrapped_socket \<Rightarrow> wrapped_socket" where
  "puts_piece pieces t m k s =
     s\<lparr>wire := wire s @ [pieces m ! k], writers := (writers s)(t := Sends m (Suc k))\<rparr>"

definition returns_call :: "nat \<Rightarrow> ws_data \<Rightarrow> nat \<Rightarrow> wrapped_socket \<Rightarrow> wrapped_socket" where
  "returns_call t m k s = s\<lparr>mux := False, writers := (writers s)(t := Outside), returned := returned s @ [(m, k)]\<rparr>"

inductive write_step :: "(ws_data \<Rightarrow> byte list list) \<Rightarrow> wrapped_socket \<Rightarrow> wrapped_socket \<Rightarrow> bool" for pieces where
  calls: "writers s t = Outside \<Longrightarrow> write_step pieces s (enters_call t m s)"
| locks: "writers s t = AtLock m \<Longrightarrow> takes_mux t m s = Some s' \<Longrightarrow> write_step pieces s s'"
| puts: "writers s t = Sends m k \<Longrightarrow> k < length (pieces m) \<Longrightarrow> write_step pieces s (puts_piece pieces t m k s)"
| returns: "writers s t = Sends m k \<Longrightarrow> write_step pieces s (returns_call t m k s)"

section \<open>One writer at a time\<close>

definition out_of :: "(ws_data \<Rightarrow> byte list list) \<Rightarrow> (ws_data \<times> nat) list \<Rightarrow> byte list list" where
  "out_of pieces ms = concat (map (\<lambda>(m, k). take k (pieces m)) ms)"

lemma out_of_append [simp]: "out_of pieces (ms @ [(m, k)]) = out_of pieces ms @ take k (pieces m)"
  by (simp add: out_of_def)

definition no_writer :: "wrapped_socket \<Rightarrow> bool" where
  "no_writer s \<longleftrightarrow> (\<forall>t. \<not> is_Sends (writers s t))"

definition only_writer :: "nat \<Rightarrow> wrapped_socket \<Rightarrow> bool" where
  "only_writer t s \<longleftrightarrow> (\<forall>u. is_Sends (writers s u) \<longrightarrow> u = t)"

definition write_inv :: "(ws_data \<Rightarrow> byte list list) \<Rightarrow> wrapped_socket \<Rightarrow> bool" where
  "write_inv pieces s \<longleftrightarrow>
     (if mux s then \<exists>t m k. writers s t = Sends m k \<and> k \<le> length (pieces m) \<and> only_writer t s \<and>
        wire s = out_of pieces (returned s) @ take k (pieces m)
      else no_writer s \<and> wire s = out_of pieces (returned s))"

lemma write_inv_writer:
  assumes "write_inv pieces s" and "writers s t = Sends m k"
  shows "mux s \<and> k \<le> length (pieces m) \<and> only_writer t s \<and> wire s = out_of pieces (returned s) @ take k (pieces m)"
proof -
  have x: "is_Sends (writers s t)" by (simp add: assms(2))
  then have "mux s" using assms(1) by (auto simp: write_inv_def no_writer_def split: if_splits)
  with assms(1) obtain u m' k' where u: "writers s u = Sends m' k'" "k' \<le> length (pieces m')" "only_writer u s"
    "wire s = out_of pieces (returned s) @ take k' (pieces m')" unfolding write_inv_def by auto
  then have "t = u" using x by (auto simp: only_writer_def)
  with u assms(2) \<open>mux s\<close> show ?thesis by simp
qed

lemma write_inv_step:
  assumes i: "write_inv pieces s" and "write_step pieces s s'"
  shows "write_inv pieces s'"
  using assms(2)
proof cases
  case (calls t m)
  then have s': "writers s' = (writers s)(t := AtLock m)" "mux s' = mux s" "wire s' = wire s" "returned s' = returned s"
    by (simp_all add: enters_call_def)
  show ?thesis
  proof (cases "mux s")
    case True
    with i obtain u m' k where u: "writers s u = Sends m' k" unfolding write_inv_def by auto
    with calls(2) have "u \<noteq> t" by auto
    with write_inv_writer [OF i u] u True show ?thesis
      unfolding write_inv_def s' only_writer_def by (cases m') (auto intro!: exI [of _ u])
  qed (use i in \<open>auto simp: write_inv_def s' no_writer_def\<close>)
next
  case (locks t m)
  then have "\<not> mux s" and s': "s' = s\<lparr>mux := True, writers := (writers s)(t := Sends m 0)\<rparr>"
    by (auto simp: takes_mux_def split: if_splits)
  then show ?thesis using i
    by (auto simp: write_inv_def no_writer_def only_writer_def intro!: exI [of _ t])
next
  case (puts t m k)
  from write_inv_writer [OF i puts(2)] puts(1,3) show ?thesis
    by (cases m) (auto simp: write_inv_def puts_piece_def only_writer_def take_Suc_conv_app_nth intro!: exI [of _ t])
next
  case (returns t m k)
  from write_inv_writer [OF i returns(2)] returns(1) show ?thesis
    by (auto simp: write_inv_def returns_call_def only_writer_def no_writer_def)
qed

interpretation ws_writes: invariant_machine "(=) NewWrappedWebSocket" "write_step pieces" "write_inv pieces" for pieces
proof
  show "write_inv pieces s" if "NewWrappedWebSocket = s" for s
    unfolding that [symmetric] by (simp add: NewWrappedWebSocket_def write_inv_def no_writer_def out_of_def)
qed (rule write_inv_step)

text \<open>C17: however the goroutines that write to one browser interleave, what is on the wire is what
  each call of \<open>WriteMessage\<close> that returned has put there, one after the other, and the
  beginning of one more when a call is under way; two are never under way at once. And no
  writer is stuck: if one waits for the mutex and cannot take it, another can return.\<close>

theorem messages_do_not_mix:
  assumes "reach ((=) NewWrappedWebSocket) (write_step pieces) s"
  shows "(\<exists>begun. wire s = out_of pieces (returned s) @ begun \<and>
      (begun = [] \<or> (\<exists>t m k. writers s t = Sends m k \<and> begun = take k (pieces m)))) \<and>
    (\<forall>t u m k m' k'. writers s t = Sends m k \<longrightarrow> writers s u = Sends m' k' \<longrightarrow> t = u) \<and>
    (\<forall>t m. writers s t = AtLock m \<longrightarrow> (\<exists>s'. takes_mux t m s = Some s') \<or> (\<exists>u m' k. writers s u = Sends m' k))"
proof -
  have i: "write_inv pieces s" by (rule ws_writes.reach_inv [OF assms])
  show ?thesis
  proof (cases "mux s")
    case True
    with i obtain t m k where w: "writers s t = Sends m k" unfolding write_inv_def by auto
    note v = write_inv_writer [OF i w]
    have "u = t" if "writers s u = Sends m' k'" for u m' k'
      using v that by (simp add: only_writer_def)
    moreover have "\<exists>begun. wire s = out_of pieces (returned s) @ begun \<and>
        (begun = [] \<or> (\<exists>t m k. writers s t = Sends m k \<and> begun = take k (pieces m)))" using v w by blast
    ultimately show ?thesis using w by blast
  next
    case False
    with i have n: "no_writer s" and w: "wire s = out_of pieces (returned s)" by (simp_all add: write_inv_def)
    have "writers s t \<noteq> Sends m k" for t m k
    proof
      assume "writers s t = Sends m k"
      then have "is_Sends (writers s t)" by simp
      with n show False by (simp add: no_writer_def)
    qed
    with w False show ?thesis unfolding takes_mux_def by auto
  qed
qed

text \<open>Two goroutines: one has written the first piece of its message, the other waits.\<close>

definition demo_pieces :: "ws_data \<Rightarrow> byte list list" where
  "demo_pieces m = [''head'', snd m]"

lemma messages_do_not_mix_witness:
  "\<exists>s. reach ((=) NewWrappedWebSocket) (write_step demo_pieces) s \<and> writers s 0 = Sends (1, ''a'') 1 \<and>
     writers s 1 = AtLock (1, ''b'') \<and> wire s = [''head''] \<and> (\<exists>begun. wire s = out_of demo_pieces (returned s) @ begun)"
proof -
  let ?s1 = "enters_call 0 (1, ''a'') NewWrappedWebSocket"
  let ?s2 = "enters_call 1 (1, ''b'') ?s1"
  let ?s3 = "the (takes_mux 0 (1, ''a'') ?s2)"
  let ?s4 = "puts_piece demo_pieces 0 (1, ''a'') 0 ?s3"
  let ?r = "\<lambda>s. reach ((=) NewWrappedWebSocket) (write_step demo_pieces) s"
  have "?r NewWrappedWebSocket" by (rule reach_start) simp
  moreover have "write_step demo_pieces NewWrappedWebSocket ?s1" by (rule calls) (simp add: NewWrappedWebSocket_def)
  ultimately have "?r ?s1" by (rule reach_step)
  moreover have "write_step demo_pieces ?s1 ?s2" by (rule calls) (simp add: NewWrappedWebSocket_def enters_call_def)
  ultimately have "?r ?s2" by (rule reach_step)
  moreover have "write_step demo_pieces ?s2 ?s3"
    by (rule locks [of _ 0 "(1, ''a'')"]) (simp_all add: NewWrappedWebSocket_def enters_call_def takes_mux_def)
  ultimately have "?r ?s3" by (rule reach_step)
  moreover have "write_step demo_pieces ?s3 ?s4"
    by (rule puts) (simp_all add: NewWrappedWebSocket_def enters_call_def takes_mux_def demo_pieces_def)
  ultimately have r: "?r ?s4" by (rule reach_step)
  moreover have "writers ?s4 0 = Sends (1, ''a'') 1" "writers ?s4 1 = AtLock (1, ''b'')" "wire ?s4 = [''head'']"
    by (simp_all add: NewWrappedWebSocket_def enters_call_def takes_mux_def puts_piece_def demo_pieces_def)
  ultimately show ?thesis using r conjunct1 [OF messages_do_not_mix [OF r]] by (intro exI [of _ ?s4]) blast
qed

end
