(* ===== verification/RoomLocks.thy ===== *)
theory RoomLocks
  imports Machine
begin

text \<open>
  The locks of the rooms (\<open>pkg/rdp_sharing.go\<close>): \<open>lock\<close> of the package, the \<open>lock\<close> of every room
  and the mutex of every browser's websocket (\<open>pkg/types.go\<close>), and the Go maps they protect:
  \<open>rdpRooms\<close>, and \<open>Users\<close> and \<open>Invitees\<close> of a room. Each operation is the list of what it does
  to them, in the order of its statements; what it finds in a map is a parameter. Rooms are
  numbered by the pointer, websockets likewise.
\<close>

section \<open>What operations do to the shared maps\<close>

datatype room_mutex = PackageLock | RoomLock nat | SocketLock nat

datatype shared_map = RoomsMap | UsersMap nat | InviteesMap nat

text \<open>\<open>Browser\<close> writes to a websocket or closes it, \<open>Service\<close> calls the database, the mail service
  or a store with a lock of its own. Each may take long.\<close>

datatype access = Acquire room_mutex | Release room_mutex | ReadMap shared_map | WriteMap shared_map | Browser nat | Service

text \<open>A step of a loop over a map is a read of it, its end one more.\<close>

definition send_acc :: "nat \<Rightarrow> access list" where
  "send_acc c = [Acquire (SocketLock c), Browser c, Release (SocketLock c)]"

definition broadcast_acc :: "nat \<Rightarrow> nat list \<Rightarrow> access list" where
  "broadcast_acc r cs = concat (map (\<lambda>c. ReadMap (UsersMap r) # send_acc c) cs) @ [ReadMap (UsersMap r)]"

text \<open>What \<open>GetMembersInstruction\<close> sees: the room it finds, and how many users and invitees.\<close>

type_synonym members_seen = "nat option \<times> nat \<times> nat"

definition members_acc :: "members_seen \<Rightarrow> access list" where
  "members_acc m =
     (let (found, users, invitees) = m
      in ReadMap RoomsMap #
         (case found of
            None \<Rightarrow> []
          | Some r \<Rightarrow>
              replicate (Suc users) (ReadMap (UsersMap r)) @
              concat (replicate invitees [ReadMap (InviteesMap r), ReadMap (UsersMap r)]) @ [ReadMap (InviteesMap r)]))"

definition join_acc :: "nat \<Rightarrow> access list" where
  "join_acc r = [Acquire (RoomLock r), WriteMap (UsersMap r), ReadMap (UsersMap r), ReadMap (UsersMap r), Release (RoomLock r)]"

definition leave_acc :: "nat \<Rightarrow> access list" where
  "leave_acc r = [Acquire (RoomLock r), WriteMap (UsersMap r), Release (RoomLock r)]"

definition RemoveUser_acc :: "nat \<Rightarrow> nat option \<Rightarrow> access list" where
  "RemoveUser_acc r user =
     [Acquire (RoomLock r), WriteMap (InviteesMap r), ReadMap (UsersMap r)] @
     (case user of None \<Rightarrow> [] | Some c \<Rightarrow> [Browser c, WriteMap (UsersMap r)]) @ [Release (RoomLock r)]"

definition add_invitee_acc :: "nat \<Rightarrow> access list" where
  "add_invitee_acc r = [Acquire (RoomLock r), WriteMap (InviteesMap r), Release (RoomLock r)]"

text \<open>\<open>StopShare\<close>: for each invitee whether it is not the creator, for each user its websocket if it
  is not; at the end the creator's, \<open>None\<close> being the panic, which runs the deferred \<open>Unlock\<close>.\<close>

definition StopShare_acc :: "nat \<Rightarrow> bool list \<Rightarrow> nat option list \<Rightarrow> nat option \<Rightarrow> access list" where
  "StopShare_acc r invitees users host =
     Acquire (RoomLock r) #
     concat (map (\<lambda>b. ReadMap (InviteesMap r) # (if b then [WriteMap (InviteesMap r), Service] else [])) invitees) @
     ReadMap (InviteesMap r) #
     concat (map (\<lambda>u. ReadMap (UsersMap r) # (case u of None \<Rightarrow> [] | Some c \<Rightarrow> [Browser c, WriteMap (UsersMap r)])) users) @
     [ReadMap (UsersMap r), ReadMap (UsersMap r)] @ (case host of None \<Rightarrow> [] | Some c \<Rightarrow> send_acc c) @ [Release (RoomLock r)]"

text \<open>The operations under the lock of the package; the maps of a new room are its own until it is
  in \<open>rdpRooms\<close>.\<close>

definition NewRdpSessionRoom_acc :: "nat \<Rightarrow> access list" where
  "NewRdpSessionRoom_acc r = [Acquire PackageLock, WriteMap RoomsMap, ReadMap (UsersMap r), Release PackageLock]"

text \<open>\<open>AddInvitee\<close>: the room, with whether it has too many invitees.\<close>

definition AddInvitee_acc :: "(nat \<times> bool) option \<Rightarrow> access list" where
  "AddInvitee_acc room =
     [Acquire PackageLock, ReadMap RoomsMap] @
     (case room of None \<Rightarrow> [] | Some (r, full) \<Rightarrow> ReadMap (InviteesMap r) # (if full then [] else add_invitee_acc r)) @
     [Release PackageLock]"

definition JoinRoom_acc :: "nat option \<Rightarrow> members_seen \<Rightarrow> nat list \<Rightarrow> access list" where
  "JoinRoom_acc room m cs =
     [Acquire PackageLock, ReadMap RoomsMap] @
     (case room of None \<Rightarrow> [] | Some r \<Rightarrow> join_acc r @ members_acc m @ [ReadMap RoomsMap] @ broadcast_acc r cs) @
     [Release PackageLock]"

text \<open>\<open>closeRoom\<close>: the websockets it closes, and whether there is a session, without which it panics.\<close>

definition closeRoom_acc :: "nat \<Rightarrow> nat list \<times> bool \<Rightarrow> access list" where
  "closeRoom_acc r closed =
     concat (map (\<lambda>c. [ReadMap (UsersMap r), Browser c]) (fst closed)) @
     [ReadMap (UsersMap r), Service, WriteMap RoomsMap, Service, Service, Service, ReadMap RoomsMap] @
     (if snd closed then [Service] else [])"

text \<open>\<open>LeaveRoom\<close>: without a session it panics under the lock, which is released; else whether it
  logs, the room, the websockets of its users, each with what \<open>GetMembersInstruction\<close> sees if
  it is called, and what is closed when the room is.\<close>

definition leave_visit_acc :: "nat \<Rightarrow> nat \<times> members_seen option \<Rightarrow> access list" where
  "leave_visit_acc r v =
     [ReadMap (UsersMap r), ReadMap (InviteesMap r)] @
     (case snd v of None \<Rightarrow> [] | Some m \<Rightarrow> members_acc m @ send_acc (fst v))"

definition LeaveRoom_acc ::
  "bool option \<Rightarrow> nat option \<Rightarrow> (nat \<times> members_seen option) list \<Rightarrow> (nat list \<times> bool) option \<Rightarrow> access list" where
  "LeaveRoom_acc session room visits closed =
     Acquire PackageLock #
     (case session of
        None \<Rightarrow> []
      | Some logged \<Rightarrow>
          (if logged then [Service] else []) @ ReadMap RoomsMap #
          (case room of
             None \<Rightarrow> []
           | Some r \<Rightarrow> leave_acc r @ concat (map (leave_visit_acc r) visits) @ [ReadMap (UsersMap r)] @
               (case closed of None \<Rightarrow> [] | Some cs \<Rightarrow> closeRoom_acc r cs))) @ [Release PackageLock]"

text \<open>Without a lock: the check of a share link, when the database lists the user with the room
  that is found, and that of an own room.\<close>

definition AuthShare_acc :: "nat option option \<Rightarrow> access list" where
  "AuthShare_acc listed =
     Service #
     (case listed of
        None \<Rightarrow> []
      | Some room \<Rightarrow> ReadMap RoomsMap # (case room of None \<Rightarrow> [] | Some r \<Rightarrow> [ReadMap (UsersMap r)]))"

definition GetRoomByAppIdAndCreator_acc :: "nat list \<Rightarrow> bool \<Rightarrow> access list" where
  "GetRoomByAppIdAndCreator_acc rs found =
     concat (map (\<lambda>r. [ReadMap RoomsMap, ReadMap (UsersMap r)]) rs) @ (if found then [] else [ReadMap RoomsMap])"

text \<open>The end of a command that changes who is in a room: everybody is told.\<close>

definition tell_acc :: "(nat \<times> members_seen \<times> nat list) option \<Rightarrow> access list" where
  "tell_acc room =
     ReadMap RoomsMap # (case room of None \<Rightarrow> [] | Some (r, m, cs) \<Rightarrow> members_acc m @ broadcast_acc r cs)"

text \<open>\<open>RemoveShareCommand\<close>: for each user but the host the websocket that is told, and the one that
  \<open>RemoveUser\<close> closes.\<close>

definition remove_acc :: "nat \<Rightarrow> (nat option \<times> nat option) option \<Rightarrow> access list" where
  "remove_acc r user =
     (case user of
        None \<Rightarrow> []
      | Some (told, closed) \<Rightarrow>
          ReadMap (UsersMap r) # (case told of None \<Rightarrow> [] | Some c \<Rightarrow> send_acc c) @ RemoveUser_acc r closed @ [Service])"

definition RemoveShare_acc ::
  "(nat \<times> (nat option \<times> nat option) option list) option \<Rightarrow> (nat \<times> members_seen \<times> nat list) option \<Rightarrow> access list" where
  "RemoveShare_acc room told =
     ReadMap RoomsMap # (case room of None \<Rightarrow> [] | Some (r, users) \<Rightarrow> concat (map (remove_acc r) users) @ tell_acc told)"

text \<open>\<open>SetPermissions\<close>: for each argument the number of users, and for each invitee whether it is the
  one; the permission is written to \<open>Invitees\<close> without a lock.\<close>

definition permit_acc :: "nat \<Rightarrow> nat \<times> bool list \<Rightarrow> access list" where
  "permit_acc r arg =
     replicate (Suc (fst arg)) (ReadMap (UsersMap r)) @
     concat (map (\<lambda>hit. ReadMap (InviteesMap r) # (if hit then [WriteMap (InviteesMap r)] else [])) (snd arg)) @
     [ReadMap (InviteesMap r), Service]"

definition SetPermissions_acc ::
  "(nat \<times> (nat \<times> bool list) list \<times> members_seen \<times> nat list) option \<Rightarrow> access list" where
  "SetPermissions_acc room =
     ReadMap RoomsMap #
     (case room of
        None \<Rightarrow> []
      | Some (r, args, m, cs) \<Rightarrow> concat (map (permit_acc r) args) @ members_acc m @ broadcast_acc r cs)"

text \<open>\<open>RequestSharingCommand\<close>: for each invitee what \<open>AddInvitee\<close> finds; when it succeeds the
  database and the mail service are called.\<close>

definition share_acc :: "(nat \<times> bool) option \<Rightarrow> access list" where
  "share_acc room =
     AddInvitee_acc room @ (case room of Some (r, False) \<Rightarrow> [Service, Service] | _ \<Rightarrow> [])"

definition RequestSharing_acc ::
  "(nat \<times> bool) option list \<Rightarrow> (nat \<times> members_seen \<times> nat list) option \<Rightarrow> access list" where
  "RequestSharing_acc invitees told = Service # concat (map share_acc invitees) @ tell_acc told"

definition StopShare_Exec_acc :: "(nat \<times> bool list \<times> nat option list \<times> nat option) option \<Rightarrow> access list" where
  "StopShare_Exec_acc room =
     ReadMap RoomsMap # (case room of None \<Rightarrow> [] | Some (r, invitees, users, host) \<Rightarrow> StopShare_acc r invitees users host)"

text \<open>All of them. The answer to a command and what guacd sends are \<open>send\<close>.\<close>

inductive room_op :: "access list \<Rightarrow> bool" where
  "room_op (send_acc c)"
| "room_op [ReadMap RoomsMap]"
| "room_op (NewRdpSessionRoom_acc r)"
| "room_op (AddInvitee_acc found)"
| "room_op (JoinRoom_acc room m cs)"
| "room_op (LeaveRoom_acc session room visits closed)"
| "room_op (AuthShare_acc listed)"
| "room_op (GetRoomByAppIdAndCreator_acc rs exists)"
| "room_op (RemoveShare_acc users told)"
| "room_op (SetPermissions_acc changes)"
| "room_op (RequestSharing_acc invitees told)"
| "room_op (StopShare_Exec_acc stopped)"

section \<open>The discipline\<close>

text \<open>Locks are taken in the order of their rank and released in the reverse order; \<open>rdpRooms\<close> and
  \<open>Users\<close> are written with the lock that guards them.\<close>

fun rank :: "room_mutex \<Rightarrow> nat" where
  "rank PackageLock = 0"
| "rank (RoomLock r) = 1"
| "rank (SocketLock c) = 2"

fun guard :: "shared_map \<Rightarrow> room_mutex option" where
  "guard RoomsMap = Some PackageLock"
| "guard (UsersMap r) = Some (RoomLock r)"
| "guard (InviteesMap r) = None"

fun disciplined :: "room_mutex list \<Rightarrow> access list \<Rightarrow> bool" where
  "disciplined held [] = (held = [])"
| "disciplined held (Acquire m # as) = ((\<forall>h\<in>set held. rank h < rank m) \<and> disciplined (m # held) as)"
| "disciplined held (Release m # as) = (held \<noteq> [] \<and> hd held = m \<and> disciplined (tl held) as)"
| "disciplined held (WriteMap x # as) = ((\<forall>m. guard x = Some m \<longrightarrow> m \<in> set held) \<and> disciplined held as)"
| "disciplined held (a # as) = disciplined held as"

text \<open>A part of an operation that is disciplined and leaves the locks as they are.\<close>

definition neutral :: "room_mutex list \<Rightarrow> access list \<Rightarrow> bool" where
  "neutral held as \<longleftrightarrow> (\<forall>rest. disciplined held (as @ rest) = disciplined held rest)"

named_theorems neutral_acc

lemma neutralD: "neutral held as \<Longrightarrow> disciplined held (as @ rest) = disciplined held rest"
  by (simp add: neutral_def)

lemma neutral_Nil [neutral_acc]: "neutral held []"
  by (simp add: neutral_def)

lemma neutral_append [neutral_acc]: "neutral held as \<Longrightarrow> neutral held bs \<Longrightarrow> neutral held (as @ bs)"
  by (simp add: neutral_def)

lemma neutral_concat [neutral_acc]: "(\<And>x. neutral held (f x)) \<Longrightarrow> neutral held (concat (map f xs))"
  by (induction xs) (simp_all add: neutral_acc)

lemma neutral_Cons [neutral_acc]: "neutral held as \<Longrightarrow> neutral held (ReadMap x # as)"
  "neutral held as \<Longrightarrow> neutral held (Browser c # as)" "neutral held as \<Longrightarrow> neutral held (Service # as)"
  by (simp_all add: neutral_def)

lemma neutral_WriteMap [neutral_acc]:
  "neutral held as \<Longrightarrow> \<forall>m. guard x = Some m \<longrightarrow> m \<in> set held \<Longrightarrow> neutral held (WriteMap x # as)"
  by (simp add: neutral_def)

lemma neutral_replicate [neutral_acc]: "neutral held as \<Longrightarrow> neutral held (concat (replicate n as))"
  by (induction n) (simp_all add: neutral_acc)

lemma neutral_reads [neutral_acc]: "neutral held (replicate n (ReadMap x))"
  by (induction n) (simp_all add: neutral_acc)

text \<open>A lock around a part.\<close>

lemma neutral_lock:
  assumes "neutral (m # held) as" and "\<forall>h\<in>set held. rank h < rank m"
  shows "neutral held (Acquire m # as @ [Release m])"
  using assms by (simp add: neutral_def)

lemma disciplined_neutral: "neutral [] as \<Longrightarrow> disciplined [] as"
  using neutralD [of "[]" as "[]"] by simp

definition below :: "nat \<Rightarrow> room_mutex list \<Rightarrow> bool" where
  "below n held \<longleftrightarrow> (\<forall>h\<in>set held. rank h < n)"

lemma below_simps [simp]: "below n []" "below n (m # held) \<longleftrightarrow> rank m < n \<and> below n held"
  by (simp_all add: below_def)

lemma below_mono: "below m held \<Longrightarrow> m \<le> n \<Longrightarrow> below n held"
  by (auto simp: below_def)

lemma neutral_below:
  assumes "neutral (m # held) as" and "below (rank m) held"
  shows "neutral held (Acquire m # as @ [Release m])"
  using neutral_lock [OF assms(1)] assms(2) by (simp add: below_def)

lemma neutral_send [neutral_acc]: "below 2 held \<Longrightarrow> neutral held (send_acc c)"
  using neutral_below [of "SocketLock c" held "[Browser c]"] by (simp add: send_acc_def neutral_acc)

lemma neutral_broadcast [neutral_acc]: "below 2 held \<Longrightarrow> neutral held (broadcast_acc r cs)"
  by (simp add: broadcast_acc_def neutral_acc)

lemma neutral_members [neutral_acc]: "neutral held (members_acc m)"
  by (simp add: members_acc_def neutral_acc split: prod.split option.split)

lemma neutral_join [neutral_acc]: "below 1 held \<Longrightarrow> neutral held (join_acc r)"
  using neutral_below [of "RoomLock r" held "[WriteMap (UsersMap r), ReadMap (UsersMap r), ReadMap (UsersMap r)]"]
  by (simp add: join_acc_def neutral_acc)

lemma neutral_leave [neutral_acc]: "below 1 held \<Longrightarrow> neutral held (leave_acc r)"
  using neutral_below [of "RoomLock r" held "[WriteMap (UsersMap r)]"] by (simp add: leave_acc_def neutral_acc)

lemma neutral_add_invitee [neutral_acc]: "below 1 held \<Longrightarrow> neutral held (add_invitee_acc r)"
  using neutral_below [of "RoomLock r" held "[WriteMap (InviteesMap r)]"] by (simp add: add_invitee_acc_def neutral_acc)

lemma neutral_RemoveUser [neutral_acc]: "below 1 held \<Longrightarrow> neutral held (RemoveUser_acc r u)"
  using neutral_below [of "RoomLock r" held "[WriteMap (InviteesMap r), ReadMap (UsersMap r)] @
      (case u of None \<Rightarrow> [] | Some c \<Rightarrow> [Browser c, WriteMap (UsersMap r)])"]
  by (simp add: RemoveUser_acc_def neutral_acc split: option.split)

lemma neutral_StopShare [neutral_acc]:
  assumes "below 1 held"
  shows "neutral held (StopShare_acc r invitees users host)"
proof -
  let ?i = "concat (map (\<lambda>b. ReadMap (InviteesMap r) # (if b then [WriteMap (InviteesMap r), Service] else [])) invitees)"
  let ?u = "concat (map (\<lambda>u. ReadMap (UsersMap r) # (case u of None \<Rightarrow> [] | Some c \<Rightarrow> [Browser c, WriteMap (UsersMap r)])) users)"
  let ?h = "case host of None \<Rightarrow> [] | Some c \<Rightarrow> send_acc c"
  have b: "below 2 (RoomLock r # held)" using below_mono [OF assms, of 2] by simp
  have "neutral (RoomLock r # held) ?i" by (simp add: neutral_acc)
  moreover have "neutral (RoomLock r # held) ?u" by (simp add: neutral_acc split: option.split)
  moreover have "neutral (RoomLock r # held) ?h" using b by (simp add: neutral_acc split: option.split)
  ultimately have "neutral (RoomLock r # held) (?i @ ReadMap (InviteesMap r) # ?u @ ReadMap (UsersMap r) # ReadMap (UsersMap r) # ?h)"
    by (simp only: neutral_acc)
  from neutral_below [OF this] assms show ?thesis by (simp add: StopShare_acc_def)
qed

lemma neutral_closeRoom [neutral_acc]: "PackageLock \<in> set held \<Longrightarrow> neutral held (closeRoom_acc r closed)"
  by (simp add: closeRoom_acc_def neutral_acc)

lemma neutral_leave_visit [neutral_acc]: "below 2 held \<Longrightarrow> neutral held (leave_visit_acc r v)"
  by (simp add: leave_visit_acc_def neutral_acc split: option.split)

text \<open>Under the lock of the package.\<close>

lemma neutral_package:
  assumes "neutral [PackageLock] as"
  shows "neutral [] (Acquire PackageLock # as @ [Release PackageLock])"
  using neutral_below [OF assms] by simp

lemma neutral_NewRdpSessionRoom [neutral_acc]: "neutral [] (NewRdpSessionRoom_acc r)"
  using neutral_package [of "[WriteMap RoomsMap, ReadMap (UsersMap r)]"] by (simp add: NewRdpSessionRoom_acc_def neutral_acc)

lemma neutral_AddInvitee [neutral_acc]: "neutral [] (AddInvitee_acc found)"
proof -
  have "neutral [PackageLock] (ReadMap RoomsMap #
      (case found of None \<Rightarrow> [] | Some (r, full) \<Rightarrow> ReadMap (InviteesMap r) # (if full then [] else add_invitee_acc r)))"
    by (simp add: neutral_acc split: option.split prod.split)
  from neutral_package [OF this] show ?thesis by (simp add: AddInvitee_acc_def)
qed

lemma neutral_JoinRoom [neutral_acc]: "neutral [] (JoinRoom_acc room m cs)"
proof -
  have "neutral [PackageLock] (ReadMap RoomsMap #
      (case room of None \<Rightarrow> [] | Some r \<Rightarrow> join_acc r @ members_acc m @ [ReadMap RoomsMap] @ broadcast_acc r cs))"
    by (simp add: neutral_acc split: option.split)
  from neutral_package [OF this] show ?thesis by (simp add: JoinRoom_acc_def)
qed

lemma neutral_LeaveRoom [neutral_acc]: "neutral [] (LeaveRoom_acc session room visits closed)"
proof -
  let ?in = "case session of None \<Rightarrow> []
      | Some logged \<Rightarrow> (if logged then [Service] else []) @ ReadMap RoomsMap #
          (case room of None \<Rightarrow> []
           | Some r \<Rightarrow> leave_acc r @ concat (map (leave_visit_acc r) visits) @ [ReadMap (UsersMap r)] @
               (case closed of None \<Rightarrow> [] | Some cs \<Rightarrow> closeRoom_acc r cs))"
  have "neutral [PackageLock] ?in"
    by (simp add: neutral_acc split: option.split)
  from neutral_package [OF this] show ?thesis by (simp add: LeaveRoom_acc_def)
qed

lemma neutral_tell [neutral_acc]: "neutral [] (tell_acc told)"
  by (simp add: tell_acc_def neutral_acc split: option.split prod.split)

lemma neutral_remove [neutral_acc]: "neutral [] (remove_acc r u)"
  by (simp add: remove_acc_def neutral_acc split: option.split prod.split)

lemma neutral_permit [neutral_acc]: "neutral [] (permit_acc r arg)"
  by (simp add: permit_acc_def neutral_acc del: replicate_Suc)

lemma neutral_share [neutral_acc]: "neutral [] (share_acc found)"
  by (simp add: share_acc_def neutral_acc split: option.split prod.split bool.split)

lemma room_op_disciplined: "room_op as \<Longrightarrow> disciplined [] as"
  by (induction rule: room_op.induct)
    (auto simp: AuthShare_acc_def GetRoomByAppIdAndCreator_acc_def RemoveShare_acc_def SetPermissions_acc_def
      RequestSharing_acc_def StopShare_Exec_acc_def
      intro!: disciplined_neutral neutral_acc split: option.split)

section \<open>The goroutines\<close>

text \<open>A goroutine: the mutexes it holds, the last one first, and what is left of its operation.\<close>

type_synonym room_threads = "nat \<Rightarrow> room_mutex list \<times> access list"

abbreviation held_by :: "room_threads \<Rightarrow> nat \<Rightarrow> room_mutex list" where
  "held_by s t \<equiv> fst (s t)"

abbreviation to_do :: "room_threads \<Rightarrow> nat \<Rightarrow> access list" where
  "to_do s t \<equiv> snd (s t)"

definition is_free :: "room_threads \<Rightarrow> room_mutex \<Rightarrow> bool" where
  "is_free s m \<longleftrightarrow> (\<forall>u. m \<notin> set (held_by s u))"

text \<open>
  Nothing limits how long a write to a browser takes that does not read (there is no write
  deadline), or a service that does not answer: \<open>Z\<close> is the set of the calls that never return.
  \<open>goroutine_step Z s t s'\<close>: the goroutine \<open>t\<close> makes a step.
\<close>

fun hangs :: "access set \<Rightarrow> access \<Rightarrow> bool" where
  "hangs Z (Browser c) = (Browser c \<in> Z)"
| "hangs Z Service = (Service \<in> Z)"
| "hangs Z a = False"

lemma hangs_none [simp]: "\<not> hangs {} a"
  by (cases a) simp_all

inductive goroutine_step :: "access set \<Rightarrow> room_threads \<Rightarrow> nat \<Rightarrow> room_threads \<Rightarrow> bool" for Z where
  begins: "s t = ([], []) \<Longrightarrow> room_op as \<Longrightarrow> goroutine_step Z s t (s(t := ([], as)))"
| acquires: "s t = (held, Acquire m # as) \<Longrightarrow> is_free s m \<Longrightarrow> goroutine_step Z s t (s(t := (m # held, as)))"
| releases: "s t = (m # held, Release m # as) \<Longrightarrow> goroutine_step Z s t (s(t := (held, as)))"
| does: "s t = (held, a # as) \<Longrightarrow> (\<forall>m. a \<noteq> Acquire m \<and> a \<noteq> Release m) \<Longrightarrow> \<not> hangs Z a \<Longrightarrow> goroutine_step Z s t (s(t := (held, as)))"

definition any_step :: "access set \<Rightarrow> room_threads \<Rightarrow> room_threads \<Rightarrow> bool" where
  "any_step Z s s' \<longleftrightarrow> (\<exists>t. goroutine_step Z s t s')"

definition all_idle :: "room_threads \<Rightarrow> bool" where
  "all_idle s \<longleftrightarrow> (\<forall>t. s t = ([], []))"

definition locks_inv :: "room_threads \<Rightarrow> bool" where
  "locks_inv s \<longleftrightarrow> (\<forall>t. disciplined (held_by s t) (to_do s t)) \<and>
     (\<forall>t u m. m \<in> set (held_by s t) \<longrightarrow> m \<in> set (held_by s u) \<longrightarrow> t = u)"

lemma locks_inv_put:
  assumes "locks_inv s" and "disciplined held as"
    and "\<And>u m. m \<in> set held \<Longrightarrow> m \<in> set (held_by s u) \<Longrightarrow> u = t"
  shows "locks_inv (s(t := (held, as)))"
  using assms unfolding locks_inv_def by (auto simp: fun_upd_apply)

lemma locks_inv_step:
  assumes i: "locks_inv s" and "goroutine_step Z s t s'"
  shows "locks_inv s'"
  using assms(2)
proof cases
  case (begins as)
  then show ?thesis using locks_inv_put [OF i room_op_disciplined] by simp
next
  case (acquires held m as)
  have "disciplined held (Acquire m # as)" using i acquires(2) unfolding locks_inv_def by (metis fst_conv snd_conv)
  moreover have "u = t" if "x \<in> set (m # held)" "x \<in> set (held_by s u)" for x u
    using that i acquires(2,3) unfolding locks_inv_def is_free_def by (metis fst_conv set_ConsD)
  ultimately show ?thesis unfolding acquires(1) by (intro locks_inv_put [OF i]) simp_all
next
  case (releases m held as)
  have "disciplined (m # held) (Release m # as)" using i releases(2) unfolding locks_inv_def by (metis fst_conv snd_conv)
  moreover have "u = t" if "x \<in> set held" "x \<in> set (held_by s u)" for x u
    using that i releases(2) unfolding locks_inv_def by (metis fst_conv list.set_intros(2))
  ultimately show ?thesis unfolding releases(1) by (intro locks_inv_put [OF i]) simp_all
next
  case (does held a as)
  have "disciplined held (a # as)" using i does(2) unfolding locks_inv_def by (metis fst_conv snd_conv)
  then have "disciplined held as" using does(3) by (cases a) auto
  moreover have "u = t" if "x \<in> set held" "x \<in> set (held_by s u)" for x u
    using that i does(2) unfolding locks_inv_def by (metis fst_conv)
  ultimately show ?thesis unfolding does(1) by (intro locks_inv_put [OF i]) simp_all
qed

interpretation room_locks: invariant_machine all_idle "any_step Z" locks_inv for Z
proof
  show "all_idle s \<Longrightarrow> locks_inv s" for s by (simp add: all_idle_def locks_inv_def)
  show "locks_inv s \<Longrightarrow> any_step Z s s' \<Longrightarrow> locks_inv s'" for s s'
    using locks_inv_step by (auto simp: any_step_def)
qed

section \<open>No deadlock\<close>

definition can_move :: "access set \<Rightarrow> room_threads \<Rightarrow> nat \<Rightarrow> bool" where
  "can_move Z s t \<longleftrightarrow> to_do s t \<noteq> [] \<and> (\<exists>s'. goroutine_step Z s t s')"

text \<open>It is in a call that never returns.\<close>

definition in_call :: "access set \<Rightarrow> room_threads \<Rightarrow> nat \<Rightarrow> bool" where
  "in_call Z s t \<longleftrightarrow> (\<exists>a as. to_do s t = a # as \<and> hangs Z a)"

lemma can_move_unless_waiting:
  assumes "locks_inv s" and "to_do s t \<noteq> []" and "\<And>m as. to_do s t = Acquire m # as \<Longrightarrow> is_free s m" and "\<not> in_call Z s t"
  shows "can_move Z s t"
proof -
  obtain held a as where s: "s t = (held, a # as)" using assms(2) by (cases "s t"; cases "to_do s t") auto
  then have d: "disciplined held (a # as)" using assms(1) unfolding locks_inv_def by (metis fst_conv snd_conv)
  have h: "\<not> hangs Z a" using assms(4) s by (simp add: in_call_def)
  have "\<exists>s'. goroutine_step Z s t s'"
  proof (cases a)
    case (Acquire m)
    with s assms(3) show ?thesis using acquires by fastforce
  next
    case (Release m)
    with d obtain held' where "held = m # held'" by (cases held) auto
    with s Release releases show ?thesis by blast
  qed (use s h does in blast)+
  with assms(2) show ?thesis by (simp add: can_move_def)
qed

text \<open>Along the goroutines that wait for each other the rank of the mutex grows.\<close>

lemma waiting_moves:
  assumes "locks_inv s" and "to_do s t = Acquire m # as"
  shows "\<exists>u. can_move Z s u \<or> in_call Z s u"
  using assms(2)
proof (induction "3 - rank m" arbitrary: t m as rule: less_induct)
  case less
  show ?case
  proof (cases "is_free s m")
    case True
    have "\<not> in_call Z s t" using less.prems by (simp add: in_call_def)
    with True less.prems show ?thesis using can_move_unless_waiting [OF assms(1), of t Z] by auto
  next
    case False
    then obtain u where u: "m \<in> set (held_by s u)" by (auto simp: is_free_def)
    have d: "disciplined (held_by s u) (to_do s u)" using assms(1) by (simp add: locks_inv_def)
    with u have n: "to_do s u \<noteq> []" by auto
    show ?thesis
    proof (cases "\<exists>m' as'. to_do s u = Acquire m' # as' \<and> \<not> is_free s m'")
      case True
      then obtain m' as' where a: "to_do s u = Acquire m' # as'" by blast
      with d u have "rank m < rank m'" by auto
      moreover have "rank m' < 3" by (cases m') simp_all
      ultimately have "3 - rank m' < 3 - rank m" by simp
      from less.hyps [OF this a] show ?thesis .
    next
      case False
      with can_move_unless_waiting [OF assms(1) n] show ?thesis by blast
    qed
  qed
qed

lemma room_locks_never_deadlock:
  assumes "locks_inv s" and "to_do s t \<noteq> []"
  shows "\<exists>u. can_move Z s u \<or> in_call Z s u"
  using can_move_unless_waiting [OF assms] waiting_moves [OF assms(1)] by blast

text \<open>The steps of the operations under way, and how many are left.\<close>

definition works :: "access set \<Rightarrow> room_threads \<Rightarrow> room_threads \<Rightarrow> bool" where
  "works Z s s' \<longleftrightarrow> (\<exists>t. to_do s t \<noteq> [] \<and> goroutine_step Z s t s')"

definition busy :: "room_threads \<Rightarrow> nat set" where
  "busy s = {t. to_do s t \<noteq> []}"

definition steps_left :: "room_threads \<Rightarrow> nat" where
  "steps_left s = (\<Sum>t\<in>busy s. length (to_do s t))"

lemma works_less:
  assumes "works Z s s'" and "finite (busy s)"
  shows "finite (busy s') \<and> Suc (steps_left s') = steps_left s \<and> any_step Z s s'"
proof -
  obtain t where t: "to_do s t \<noteq> []" "goroutine_step Z s t s'" using assms(1) by (auto simp: works_def)
  from t(2) obtain h as a where s': "s' = s(t := (h, as))" and l: "to_do s t = a # as"
    by cases (use t(1) in auto)
  have b: "busy s' \<subseteq> busy s" "t \<in> busy s" using t(1) by (auto simp: busy_def s')
  have "steps_left s' = (\<Sum>u\<in>busy s. length (to_do s' u))"
    unfolding steps_left_def by (rule sum.mono_neutral_left [OF assms(2) b(1)]) (auto simp: busy_def)
  also have "\<dots> = length as + (\<Sum>u\<in>busy s - {t}. length (to_do s' u))"
    using sum.remove [OF assms(2) b(2), of "\<lambda>u. length (to_do s' u)"] by (simp add: s')
  also have "(\<Sum>u\<in>busy s - {t}. length (to_do s' u)) = (\<Sum>u\<in>busy s - {t}. length (to_do s u))"
    by (rule sum.cong) (auto simp: s')
  finally have "Suc (steps_left s') = steps_left s"
    using sum.remove [OF assms(2) b(2), of "\<lambda>u. length (to_do s u)"] by (simp add: steps_left_def l)
  with t(2) finite_subset [OF b(1) assms(2)] show ?thesis by (auto simp: any_step_def)
qed

text \<open>C7: the locks of the rooms and of the browsers never deadlock: whatever operations the
  goroutines are in, in whatever order they go on, and whatever writes to browsers and calls of
  services never return (the set \<open>Z\<close>), each step brings an operation nearer to its end, and when none can
  make a step, either all of them are finished or one is in such a call. When every browser reads and
  every service answers (\<open>Z\<close> empty) all are finished after as many steps as they have left, and not
  before. Locks are taken in the order package, room, browser, and every operation releases what it
  has taken, also when it panics.\<close>

theorem room_operations_finish:
  assumes "reach all_idle (any_step Z) s" and "finite (busy s)" and "(works Z ^^ n) s s'"
  shows "n + steps_left s' = steps_left s \<and> (steps_left s' = 0 \<longleftrightarrow> (\<forall>t. to_do s' t = [])) \<and>
    ((\<exists>s''. works Z s' s'') \<or> (\<forall>t. to_do s' t = []) \<or> (\<exists>t a as. to_do s' t = a # as \<and> hangs Z a)) \<and>
    (Z = {} \<longrightarrow> (if n = steps_left s then \<forall>t. to_do s' t = [] else \<exists>s''. works Z s' s''))"
proof -
  from assms(3) have "finite (busy s') \<and> n + steps_left s' = steps_left s \<and> reach all_idle (any_step Z) s'"
  proof (induction n arbitrary: s')
    case (Suc n)
    then obtain s1 where s1: "(works Z ^^ n) s s1" "works Z s1 s'" by auto
    with Suc.IH [OF s1(1)] works_less [OF s1(2)] show ?case by (auto intro: reach_step)
  qed (use assms(1,2) in simp)
  then have f: "finite (busy s')" and n: "n + steps_left s' = steps_left s" and r: "reach all_idle (any_step Z) s'" by simp_all
  have z: "steps_left s' = 0 \<longleftrightarrow> (\<forall>t. to_do s' t = [])"
    using f by (auto simp: steps_left_def busy_def)
  have m: "(\<exists>s''. works Z s' s'') \<or> (\<exists>u. in_call Z s' u)" if "to_do s' t \<noteq> []" for t
    using room_locks_never_deadlock [OF room_locks.reach_inv [OF r] that, of Z] by (auto simp: can_move_def works_def)
  have "\<not> in_call {} s' u" for u by (simp add: in_call_def)
  with n z m show ?thesis unfolding in_call_def by (cases "Z = {}") auto
qed

section \<open>Races\<close>

text \<open>Two goroutines are about to access the same map, one to write it: the Go runtime ends the
  process when it sees that.\<close>

definition races :: "room_threads \<Rightarrow> nat \<Rightarrow> nat \<Rightarrow> shared_map \<Rightarrow> bool" where
  "races s t u x \<longleftrightarrow> t \<noteq> u \<and> (\<exists>as. to_do s t = WriteMap x # as) \<and> (\<exists>a as. to_do s u = a # as \<and> a \<in> {ReadMap x, WriteMap x})"

lemma write_guarded: "locks_inv s \<Longrightarrow> to_do s t = WriteMap x # as \<Longrightarrow> guard x = Some m \<Longrightarrow> m \<in> set (held_by s t)"
  unfolding locks_inv_def by (metis disciplined.simps(4))

text \<open>Runs of two goroutines.\<close>

definition two :: "room_mutex list \<times> access list \<Rightarrow> room_mutex list \<times> access list \<Rightarrow> room_threads" where
  "two x y = (\<lambda>u. if u = 0 then x else if u = 1 then y else ([], []))"

abbreviation reaches :: "room_mutex list \<times> access list \<Rightarrow> room_mutex list \<times> access list \<Rightarrow> bool" where
  "reaches x y \<equiv> reach all_idle (any_step {}) (two x y)"

lemma two_upd: "(two x y)(0 := z) = two z y" "(two x y)(Suc 0 := z) = two x z"
  by (auto simp: two_def)

lemma two_at [simp]: "two x y 0 = x" "two x y (Suc 0) = y"
  by (simp_all add: two_def)

lemma two_start: "reaches ([], []) ([], [])"
  by (rule reach_start) (simp add: all_idle_def two_def)

lemma two_step: "reach all_idle (any_step {}) s \<Longrightarrow> goroutine_step {} s t s' \<Longrightarrow> reach all_idle (any_step {}) s'"
  by (rule reach_step) (auto simp: any_step_def)

lemma two_begins:
  "reaches ([], []) y \<Longrightarrow> room_op as \<Longrightarrow> reaches ([], as) y"
  "reaches x ([], []) \<Longrightarrow> room_op as \<Longrightarrow> reaches x ([], as)"
  using two_step [OF _ begins [of "two ([], []) y" 0 as "{}"]] two_step [OF _ begins [of "two x ([], [])" "Suc 0" as "{}"]]
  by (simp_all add: two_upd)

lemma two_does:
  "reaches (h, a # as) y \<Longrightarrow> \<forall>m. a \<noteq> Acquire m \<and> a \<noteq> Release m \<Longrightarrow> reaches (h, as) y"
  "reaches x (h, a # as) \<Longrightarrow> \<forall>m. a \<noteq> Acquire m \<and> a \<noteq> Release m \<Longrightarrow> reaches x (h, as)"
  using two_step [OF _ does [of "two (h, a # as) y" 0 h a as "{}"]] two_step [OF _ does [of "two x (h, a # as)" "Suc 0" h a as "{}"]]
  by (simp_all add: two_upd)

lemma two_acquires:
  "reaches (h, Acquire m # as) y \<Longrightarrow> m \<notin> set h \<Longrightarrow> m \<notin> set (fst y) \<Longrightarrow> reaches (m # h, as) y"
proof -
  assume r: "reaches (h, Acquire m # as) y" and m: "m \<notin> set h" "m \<notin> set (fst y)"
  have "is_free (two (h, Acquire m # as) y) m" using m by (simp add: is_free_def two_def)
  from two_step [OF r acquires [OF _ this, of 0]] show ?thesis by (simp add: two_upd)
qed

lemma opening_race: "\<exists>as bs. reaches ([PackageLock], WriteMap RoomsMap # as) ([], ReadMap RoomsMap # bs)"
proof -
  have "reaches ([], NewRdpSessionRoom_acc 0) ([], [])" by (rule two_begins(1) [OF two_start]) (rule room_op.intros)
  then have "reaches ([PackageLock], [WriteMap RoomsMap, ReadMap (UsersMap 0), Release PackageLock]) ([], [])"
    unfolding NewRdpSessionRoom_acc_def by (rule two_acquires) simp_all
  from two_begins(2) [OF this, of "AuthShare_acc (Some None)"]
  have "reaches ([PackageLock], [WriteMap RoomsMap, ReadMap (UsersMap 0), Release PackageLock]) ([], [Service, ReadMap RoomsMap])"
    by (simp add: room_op.intros) (simp add: AuthShare_acc_def)
  from two_does(2) [OF this] show ?thesis by blast
qed

lemma joining_race: "\<exists>h as bs. reaches (h, WriteMap (UsersMap 0) # as) ([], ReadMap (UsersMap 0) # bs)"
proof -
  let ?j = "JoinRoom_acc (Some 0) (Some 0, 0, 0) []" and ?c = "RequestSharing_acc [] (Some (0, (Some 0, 0, 0), []))"
  obtain as where j: "?j = Acquire PackageLock # ReadMap RoomsMap # Acquire (RoomLock 0) # WriteMap (UsersMap 0) # as"
    by (simp add: JoinRoom_acc_def join_acc_def)
  obtain bs where c: "?c = Service # ReadMap RoomsMap # ReadMap RoomsMap # ReadMap (UsersMap 0) # bs"
    by (simp add: RequestSharing_acc_def tell_acc_def members_acc_def)
  have "reaches ([], ?j) ([], [])" by (rule two_begins(1) [OF two_start]) (rule room_op.intros)
  from two_acquires [OF this [unfolded j]]
  have "reaches ([PackageLock], ReadMap RoomsMap # Acquire (RoomLock 0) # WriteMap (UsersMap 0) # as) ([], [])" by simp
  from two_does(1) [OF this] have "reaches ([PackageLock], Acquire (RoomLock 0) # WriteMap (UsersMap 0) # as) ([], [])" by simp
  from two_acquires [OF this] have "reaches ([RoomLock 0, PackageLock], WriteMap (UsersMap 0) # as) ([], [])" by simp
  then have "reaches ([RoomLock 0, PackageLock], WriteMap (UsersMap 0) # as) ([], ?c)"
    by (rule two_begins(2)) (rule room_op.intros)
  from two_does(2) [OF this [unfolded c]] two_does(2)
  have "reaches ([RoomLock 0, PackageLock], WriteMap (UsersMap 0) # as) ([], ReadMap (UsersMap 0) # bs)" by blast
  then show ?thesis by blast
qed

text \<open>C6: two goroutines never write \<open>rdpRooms\<close>, or the users of a room, at the same time; a race on
  them is between one that writes under the lock and one that reads without it. Such races
  happen: a browser that follows a share link reads \<open>rdpRooms\<close> (\<open>AuthShare\<close>) while another opens a
  session (\<open>NewRdpSessionRoom\<close>), and the members are listed (\<open>GetMembersInstruction\<close> at the end of
  a command) while somebody joins.\<close>

theorem room_races:
  "(\<forall>Z s t u x m. reach all_idle (any_step Z) s \<longrightarrow> races s t u x \<longrightarrow> guard x = Some m \<longrightarrow>
      m \<in> set (held_by s t) \<and> m \<notin> set (held_by s u) \<and> (\<exists>as. to_do s u = ReadMap x # as)) \<and>
   (\<exists>s. reach all_idle (any_step {}) s \<and> races s 0 1 RoomsMap) \<and>
   (\<exists>s r. reach all_idle (any_step {}) s \<and> races s 0 1 (UsersMap r))"
proof (intro conjI allI impI)
  fix Z s t u x m
  assume r: "reach all_idle (any_step Z) s" and c: "races s t u x" and g: "guard x = Some m"
  have i: "locks_inv s" by (rule room_locks.reach_inv [OF r])
  from c obtain as a bs where w: "t \<noteq> u" "to_do s t = WriteMap x # as" "to_do s u = a # bs" "a \<in> {ReadMap x, WriteMap x}"
    unfolding races_def by blast
  show m: "m \<in> set (held_by s t)" by (rule write_guarded [OF i w(2) g])
  show n: "m \<notin> set (held_by s u)" using i m w(1) unfolding locks_inv_def by blast
  show "\<exists>as. to_do s u = ReadMap x # as" using w(3,4) n write_guarded [OF i _ g, of u] by auto
next
  from opening_race show "\<exists>s. reach all_idle (any_step {}) s \<and> races s 0 1 RoomsMap"
    unfolding races_def by (elim exE) (rule exI, rule conjI, assumption, simp)
  from joining_race show "\<exists>s r. reach all_idle (any_step {}) s \<and> races s 0 1 (UsersMap r)"
    unfolding races_def by (elim exE) (rule exI, rule exI [of _ 0], rule conjI, assumption, simp)
qed

lemma room_races_witness:
  "\<exists>s. reach all_idle (any_step {}) s \<and> races s 0 1 RoomsMap \<and> PackageLock \<in> set (held_by s 0) \<and> PackageLock \<notin> set (held_by s 1)"
proof -
  obtain s where s: "reach all_idle (any_step {}) s" "races s 0 1 RoomsMap" using room_races by (elim conjE exE) (rule that)
  have g: "guard RoomsMap = Some PackageLock" by simp
  from conjunct1 [OF room_races, rule_format, OF s g] s show ?thesis by blast
qed

text \<open>What an operation accesses with which locks, and two that can meet at a map: one writes to it
  and no lock keeps the other out.\<close>

fun locked :: "room_mutex list \<Rightarrow> access list \<Rightarrow> (room_mutex list \<times> access) list" where
  "locked held [] = []"
| "locked held (Acquire m # as) = locked (m # held) as"
| "locked held (Release m # as) = locked (tl held) as"
| "locked held (a # as) = (held, a) # locked held as"

definition meet :: "access list \<Rightarrow> access list \<Rightarrow> shared_map \<Rightarrow> bool" where
  "meet as bs x \<longleftrightarrow>
     (\<exists>p\<in>set (locked [] as). \<exists>q\<in>set (locked [] bs).
        snd p = WriteMap x \<and> snd q \<in> {ReadMap x, WriteMap x} \<and> set (fst p) \<inter> set (fst q) = {})"

text \<open>When the guard of the map is kept, the other one reads, without the lock.\<close>

lemma locked_guard: "disciplined held as \<Longrightarrow> (h, WriteMap x) \<in> set (locked held as) \<Longrightarrow> guard x = Some m \<Longrightarrow> m \<in> set h"
  by (induction held as rule: locked.induct) auto

lemma meet_guarded:
  assumes "disciplined [] as" and "disciplined [] bs" and "meet as bs x" and "guard x = Some m"
  shows "\<exists>h. (h, ReadMap x) \<in> set (locked [] bs) \<and> m \<notin> set h"
proof -
  from assms(3) obtain h h' a where m: "(h, WriteMap x) \<in> set (locked [] as)" "(h', a) \<in> set (locked [] bs)"
    "a \<in> {ReadMap x, WriteMap x}" "set h \<inter> set h' = {}" unfolding meet_def by fastforce
  have h: "m \<in> set h" by (rule locked_guard [OF assms(1) m(1) assms(4)])
  with m(4) have "m \<notin> set h'" by blast
  with m(2,3) locked_guard [OF assms(2) _ assms(4), of h'] show ?thesis by auto
qed

lemma locked_mem: "(h, a) \<in> set (locked held as) \<Longrightarrow> a \<in> set as"
  by (induction held as rule: locked.induct) auto

lemma meet_writes: "meet as bs x \<Longrightarrow> WriteMap x \<in> set as"
  using locked_mem unfolding meet_def by fastforce

text \<open>A race is such a meeting of the operations the two goroutines are in.\<close>

definition part_of :: "room_mutex list \<times> access list \<Rightarrow> access list \<Rightarrow> bool" where
  "part_of s as \<longleftrightarrow> set (locked (fst s) (snd s)) \<subseteq> set (locked [] as)"

lemma part_of_step:
  assumes "goroutine_step Z s t s'" and "s t \<noteq> ([], [])" and "part_of (s u) as"
  shows "part_of (s' u) as"
  using assms(1)
proof cases
  case (does held a rest)
  then show ?thesis using assms(3) by (cases "u = t"; cases a) (auto simp: part_of_def)
qed (use assms(2,3) in \<open>auto simp: part_of_def\<close>)

lemma works_part_of: "(works Z)\<^sup>*\<^sup>* s s' \<Longrightarrow> part_of (s u) as \<Longrightarrow> part_of (s' u) as"
proof (induction rule: rtranclp_induct)
  case (step s1 s2)
  then obtain t where "to_do s1 t \<noteq> []" "goroutine_step Z s1 t s2" by (auto simp: works_def)
  moreover from this(1) have "s1 t \<noteq> ([], [])" by auto
  ultimately show ?case using part_of_step step by blast
qed simp

lemma works_reach: "(works Z)\<^sup>*\<^sup>* s s' \<Longrightarrow> reach all_idle (any_step Z) s \<Longrightarrow> reach all_idle (any_step Z) s'"
proof (induction rule: rtranclp_induct)
  case (step s1 s2)
  have "any_step Z s1 s2" using step.hyps(2) by (auto simp: works_def any_step_def)
  with step show ?case by (blast intro: reach_step)
qed

lemma races_meet:
  assumes "reach all_idle (any_step Z) s" and "s t = ([], as)" and "s u = ([], bs)"
    and "(works Z)\<^sup>*\<^sup>* s s'" and "races s' t u x"
  shows "meet as bs x"
proof -
  have "part_of (s t) as" "part_of (s u) bs" using assms(2,3) by (simp_all add: part_of_def)
  then have p: "part_of (s' t) as" "part_of (s' u) bs" using works_part_of [OF assms(4)] by blast+
  from assms(5) obtain a as' bs' where r: "t \<noteq> u" "to_do s' t = WriteMap x # as'" "to_do s' u = a # bs'" "a \<in> {ReadMap x, WriteMap x}"
    unfolding races_def by blast
  have "(held_by s' t, WriteMap x) \<in> set (locked [] as)" using p(1) r(2) by (simp add: part_of_def)
  moreover have "(held_by s' u, a) \<in> set (locked [] bs)" using p(2) r(3,4) by (auto simp: part_of_def)
  moreover have "locks_inv s'" by (rule room_locks.reach_inv [OF works_reach [OF assms(4,1)]])
  then have "set (held_by s' t) \<inter> set (held_by s' u) = {}" using r(1) unfolding locks_inv_def by blast
  ultimately show ?thesis unfolding meet_def using r(4) by (intro bexI conjI) simp_all
qed

text \<open>Somebody waits for the lock of the package, which another holds.\<close>

lemma room_operations_finish_witness:
  "\<exists>s as. reach all_idle (any_step {}) s \<and> to_do s 1 = Acquire PackageLock # as \<and> \<not> is_free s PackageLock \<and>
     steps_left s = 7 \<and> (\<exists>s'. works {} s s')"
proof -
  have "reaches ([], NewRdpSessionRoom_acc 0) ([], [])" by (rule two_begins(1) [OF two_start]) (rule room_op.intros)
  then have "reaches ([PackageLock], [WriteMap RoomsMap, ReadMap (UsersMap 0), Release PackageLock]) ([], [])"
    unfolding NewRdpSessionRoom_acc_def by (rule two_acquires) simp_all
  then have r: "reaches ([PackageLock], [WriteMap RoomsMap, ReadMap (UsersMap 0), Release PackageLock]) ([], NewRdpSessionRoom_acc 1)"
    by (rule two_begins(2)) (rule room_op.intros)
  let ?s = "two ([PackageLock], [WriteMap RoomsMap, ReadMap (UsersMap 0), Release PackageLock]) ([], NewRdpSessionRoom_acc 1)"
  have b: "busy ?s = {0, 1}" by (auto simp: busy_def two_def NewRdpSessionRoom_acc_def)
  then have n: "steps_left ?s = 7" by (simp add: steps_left_def NewRdpSessionRoom_acc_def)
  have f: "finite (busy ?s)" unfolding b by simp
  have z: "(works {} ^^ 0) ?s ?s" by simp
  from room_operations_finish [OF r f z] n have "\<exists>s'. works {} ?s s'" by simp
  moreover have "\<not> is_free ?s PackageLock" by (auto simp: is_free_def two_def)
  moreover have "to_do ?s 1 = Acquire PackageLock # [WriteMap RoomsMap, ReadMap (UsersMap 1), Release PackageLock]"
    by (simp add: NewRdpSessionRoom_acc_def)
  ultimately show ?thesis using r n by blast
qed

text \<open>The invitees are not even written under a lock: two that set permissions at once.\<close>

lemma permissions_race:
  "\<exists>as bs. reaches ([], WriteMap (InviteesMap 0) # as) ([], WriteMap (InviteesMap 0) # bs)"
proof -
  let ?p = "SetPermissions_acc (Some (0, [(0, [True])], (Some 0, 0, 0), []))"
  obtain as where p: "?p = ReadMap RoomsMap # ReadMap (UsersMap 0) # ReadMap (InviteesMap 0) # WriteMap (InviteesMap 0) # as"
    by (simp add: SetPermissions_acc_def permit_acc_def)
  have "reaches ([], ?p) ([], [])" by (rule two_begins(1) [OF two_start]) (rule room_op.intros)
  then have "reaches ([], ?p) ([], ?p)" by (rule two_begins(2)) (rule room_op.intros)
  then have "reaches ([], WriteMap (InviteesMap 0) # as) ([], ?p)" unfolding p using two_does(1) by blast
  then have "reaches ([], WriteMap (InviteesMap 0) # as) ([], WriteMap (InviteesMap 0) # as)" unfolding p using two_does(2) by blast
  then show ?thesis by blast
qed

section \<open>A browser that does not read\<close>

text \<open>Whoever is in a call that never returns stays there, and everybody who waits for its mutex waits on.\<close>

lemma waits_on:
  assumes "m \<in> set (held_by s t)" and "in_call Z s t" and "to_do s u = Acquire m # as" and "any_step Z s s'"
  shows "s' t = s t \<and> s' u = s u"
proof -
  obtain v where v: "goroutine_step Z s v s'" using assms(4) by (auto simp: any_step_def)
  have busy: "\<not> is_free s m" using assms(1) by (auto simp: is_free_def)
  have "v \<noteq> u"
  proof
    assume "v = u"
    from v show False
      by cases (use assms(3) busy \<open>v = u\<close> in auto)
  qed
  moreover have "v \<noteq> t"
  proof
    assume "v = t"
    from v show False
      by cases (use assms(2) \<open>v = t\<close> in \<open>auto simp: in_call_def\<close>)
  qed
  ultimately show ?thesis using v by (auto elim!: goroutine_step.cases)
qed

text \<open>\<open>JoinRoom\<close> and \<open>LeaveRoom\<close> write to the browsers of a room under the lock of the package, and
  nothing limits how long that takes: while one browser does not read, whoever opens, joins or
  leaves any room of any tenant, or invites somebody, waits.\<close>

theorem slow_browser_blocks_rooms:
  assumes "PackageLock \<in> set (held_by s t)" and "to_do s t = Browser c # bs" and "Browser c \<in> Z"
    and "to_do s u = Acquire PackageLock # as" and "(any_step Z)\<^sup>*\<^sup>* s s'"
  shows "s' u = s u \<and> to_do s' t = Browser c # bs"
proof -
  from assms(5) have "s' t = s t \<and> s' u = s u"
  proof (induction rule: rtranclp_induct)
    case (step s1 s2)
    then have "PackageLock \<in> set (held_by s1 t)" "in_call Z s1 t" "to_do s1 u = Acquire PackageLock # as"
      using assms(1-4) by (simp_all add: in_call_def)
    from waits_on [OF this step.hyps(2)] step.IH show ?case by simp
  qed simp
  with assms(2) show ?thesis by simp
qed

text \<open>\<open>JoinRoom\<close> gets there.\<close>

lemma joining_writes: "\<exists>h as. reaches (SocketLock c # h, Browser c # as) ([], []) \<and> PackageLock \<in> set h"
proof -
  let ?j = "JoinRoom_acc (Some 0) (None, 0, 0) [c]"
  have j: "?j = Acquire PackageLock # ReadMap RoomsMap # Acquire (RoomLock 0) # WriteMap (UsersMap 0) # ReadMap (UsersMap 0) #
      ReadMap (UsersMap 0) # Release (RoomLock 0) # ReadMap RoomsMap # ReadMap RoomsMap # ReadMap (UsersMap 0) #
      Acquire (SocketLock c) # Browser c # [Release (SocketLock c), ReadMap (UsersMap 0), Release PackageLock]"
    by (simp add: JoinRoom_acc_def join_acc_def members_acc_def broadcast_acc_def send_acc_def)
  let ?last = "Acquire (SocketLock c) # Browser c # [Release (SocketLock c), ReadMap (UsersMap 0), Release PackageLock]"
  let ?room = "WriteMap (UsersMap 0) # ReadMap (UsersMap 0) # ReadMap (UsersMap 0) # Release (RoomLock 0) #
      ReadMap RoomsMap # ReadMap RoomsMap # ReadMap (UsersMap 0) # ?last"
  have "reaches ([], ?j) ([], [])" by (rule two_begins(1) [OF two_start]) (rule room_op.intros)
  from two_acquires [OF this [unfolded j]]
  have "reaches ([PackageLock], ReadMap RoomsMap # Acquire (RoomLock 0) # ?room) ([], [])" by simp
  from two_does(1) [OF this] have "reaches ([PackageLock], Acquire (RoomLock 0) # ?room) ([], [])" by simp
  from two_acquires [OF this] have "reaches ([RoomLock 0, PackageLock], ?room) ([], [])" by simp
  then have r: "reaches ([RoomLock 0, PackageLock], Release (RoomLock 0) #
      ReadMap RoomsMap # ReadMap RoomsMap # ReadMap (UsersMap 0) # ?last) ([], [])" using two_does(1) by blast
  have "reaches ([PackageLock], ReadMap RoomsMap # ReadMap RoomsMap # ReadMap (UsersMap 0) # ?last) ([], [])"
    using two_step [OF r releases [of _ 0]] by (simp add: two_upd)
  then have "reaches ([PackageLock], ?last) ([], [])" using two_does(1) by blast
  then have "reaches ([SocketLock c, PackageLock], Browser c # [Release (SocketLock c), ReadMap (UsersMap 0), Release PackageLock]) ([], [])"
    by (rule two_acquires) simp_all
  then show ?thesis by (metis list.set_intros(1))
qed

end
