(* ===== verification/Frame.thy ===== *)
theory Frame
  imports Gateway
begin

text \<open>
  What a handler may do to the world the goroutines share: everything it leaves behind is
  well-typed (a pointer in a log action or in a started event is allocated), heaps only grow,
  sessions are not added, nobody is let into a room, and no connection is counted or
  discounted. The relation is a preorder, so it is shown for the primitive operations and
  composed along each handler.
\<close>

section \<open>Typing\<close>

definition typed_session :: "nat \<Rightarrow> nat option \<Rightarrow> bool" where
  "typed_session n ses \<longleftrightarrow> (\<exists>p<n. ses = Some p)"

fun typed_effect :: "nat \<Rightarrow> effect \<Rightarrow> bool" where
  "typed_effect n (LogAction a) = typed_session n (act_Session a)"
| "typed_effect n (GoSendEvent k a) = typed_session n (act_Session a)"
| "typed_effect n (GoSendBlockEvent b) = (be_Session b < n)"
| "typed_effect n e = True"

lemma typed_effect_mono: "typed_effect n e \<Longrightarrow> n \<le> m \<Longrightarrow> typed_effect m e"
  by (cases e) (auto simp: typed_session_def)

text \<open>What is stored: the pointer of an allocated session.\<close>

definition typed_value :: "nat \<Rightarrow> store_value \<Rightarrow> bool" where
  "typed_value n v \<longleftrightarrow> (\<exists>p<n. v = SessionPtr p)"

lemma typed_value_mono: "typed_value n v \<Longrightarrow> n \<le> m \<Longrightarrow> typed_value m v"
  by (auto simp: typed_value_def)

definition typed_world :: "world \<Rightarrow> bool" where
  "typed_world w \<longleftrightarrow> (\<forall>k v. SessionData_Get w k = Some v \<longrightarrow> typed_value (length (session_heap w)) v) \<and>
     (\<forall>e\<in>set (trace w). typed_effect (length (session_heap w)) e)"

lemma typed_session_of: "typed_world w \<Longrightarrow> session_of w k = Some p \<Longrightarrow> p < length (session_heap w)"
  by (auto simp: typed_world_def typed_value_def session_of_def split: option.splits store_value.splits)

fun rdp_count :: "effect \<Rightarrow> bool" where
  "rdp_count (RdpCount t d) = True"
| "rdp_count e = False"

section \<open>The relation\<close>

definition fewer_users :: "world \<Rightarrow> world \<Rightarrow> bool" where
  "fewer_users w w' \<longleftrightarrow> (\<forall>sid r' u a. GetRdpSessionRoom w' sid = Some r' \<longrightarrow> map_of (Users r') u = Some a \<longrightarrow>
     (\<exists>r. GetRdpSessionRoom w sid = Some r \<and> map_of (Users r) u = Some a))"

definition emitted :: "world \<Rightarrow> world \<Rightarrow> bool" where
  "emitted w w' \<longleftrightarrow> (\<exists>es. trace w' = trace w @ es \<and>
     (\<forall>e\<in>set es. typed_effect (length (session_heap w')) e \<and> \<not> rdp_count e))"

definition keeps :: "world \<Rightarrow> world \<Rightarrow> bool" where
  "keeps w w' \<longleftrightarrow> length (clients w) \<le> length (clients w') \<and> length (session_heap w) \<le> length (session_heap w') \<and>
     emitted w w' \<and> (\<forall>k v. SessionData_Get w' k = Some v \<longrightarrow> SessionData_Get w k = Some v) \<and> fewer_users w w'"

locale world_preorder =
  fixes rel :: "'w \<Rightarrow> 'w \<Rightarrow> bool"
  assumes refl: "rel w w" and trans: "rel w w' \<Longrightarrow> rel w' w'' \<Longrightarrow> rel w w''"
begin

lemma fold_rel: "(\<And>k w. rel w (f k w)) \<Longrightarrow> rel w (fold f ks w)"
proof (induction ks arbitrary: w)
  case (Cons k ks)
  have "rel w (f k w)" by (rule Cons.prems)
  moreover have "rel (f k w) (fold f ks (f k w))" by (rule Cons.IH [OF Cons.prems])
  ultimately show ?case by (auto intro: trans)
qed (simp add: refl)

lemma fold_snd_rel: "(\<And>k x. rel (snd x) (snd (f k x))) \<Longrightarrow> rel (snd x) (snd (fold f ks x))"
proof (induction ks arbitrary: x)
  case (Cons k ks)
  have "rel (snd x) (snd (f k x))" by (rule Cons.prems)
  moreover have "rel (snd (f k x)) (snd (fold f ks (f k x)))" by (rule Cons.IH [OF Cons.prems])
  ultimately show ?case by (auto intro: trans)
qed (simp add: refl)

end

lemma emitted_trans:
  assumes "emitted w w'" and "emitted w' w''" and "length (session_heap w') \<le> length (session_heap w'')"
  shows "emitted w w''"
proof -
  obtain es es' where "trace w' = trace w @ es" "trace w'' = trace w' @ es'"
    "\<forall>e\<in>set es. typed_effect (length (session_heap w')) e \<and> \<not> rdp_count e"
    "\<forall>e\<in>set es'. typed_effect (length (session_heap w'')) e \<and> \<not> rdp_count e"
    using assms(1,2) unfolding emitted_def by blast
  with assms(3) show ?thesis
    unfolding emitted_def by (intro exI [of _ "es @ es'"]) (auto intro: typed_effect_mono)
qed

lemma fewer_users_trans: "fewer_users w w' \<Longrightarrow> fewer_users w' w'' \<Longrightarrow> fewer_users w w''"
  unfolding fewer_users_def by blast

interpretation kp: world_preorder keeps
proof
  show "keeps w w" for w
    by (auto simp: keeps_def emitted_def fewer_users_def)
  show "keeps w w''" if "keeps w w'" and "keeps w' w''" for w w' w''
    using that emitted_trans [of w w' w''] fewer_users_trans [of w w' w''] by (simp add: keeps_def)
qed

lemma keeps_typed: "keeps w w' \<Longrightarrow> typed_world w \<Longrightarrow> typed_world w'"
  unfolding keeps_def emitted_def typed_world_def
  using typed_value_mono typed_effect_mono by (elim conjE exE) (intro conjI allI impI, blast, auto)

section \<open>The primitive operations\<close>

lemma SessionData_Get_frame [simp]: "SessionData_Get (emit es w) = SessionData_Get w"
  "SessionData_Get (put_room sid r w) = SessionData_Get w" "SessionData_Get (del_room sid w) = SessionData_Get w"
  by (simp_all add: SessionData_Get_def put_room_def del_room_def fun_eq_iff)

lemma keeps_emit: "(\<And>e. e \<in> set es \<Longrightarrow> typed_effect (length (session_heap w)) e \<and> \<not> rdp_count e) \<Longrightarrow> keeps w (emit es w)"
  by (auto simp: keeps_def emitted_def fewer_users_def)

lemma keeps_put_room:
  assumes "GetRdpSessionRoom w sid = Some r" and "\<And>u a. map_of (Users r') u = Some a \<Longrightarrow> map_of (Users r) u = Some a"
  shows "keeps w (put_room sid r' w)"
  using assms by (auto simp: keeps_def emitted_def fewer_users_def rooms.get_put)

lemma keeps_del_room: "keeps w (del_room sid w)"
  by (auto simp: keeps_def emitted_def fewer_users_def rooms.get_del split: if_splits)

lemma keeps_Delete: "keeps w (SessionData_Delete k w)"
  by (auto simp: keeps_def emitted_def fewer_users_def sds.get_del split: if_splits)

lemma keeps_clients: "length cs = length (clients w) \<Longrightarrow> keeps w (w\<lparr>clients := cs\<rparr>)"
  by (auto simp: keeps_def emitted_def fewer_users_def session_of_def SessionData_Get_def)

lemma keeps_update_client: "keeps w (update_client a c w)"
  unfolding update_client_def by (rule keeps_clients) simp

lemma keeps_update_session: "keeps w (update_session p s w)"
  by (auto simp: keeps_def emitted_def fewer_users_def session_of_def SessionData_Get_def update_session_def
      GetRdpSessionRoom_def)

lemma keeps_WriteMessage: "keeps w (WriteMessage a ins w)"
  unfolding WriteMessage_def by (rule keeps_emit) simp

lemma keeps_send_all: "keeps w (send_all ks users ins w)"
  unfolding send_all_def by (rule kp.fold_rel) (simp add: keeps_WriteMessage kp.refl split: option.split)

lemma keeps_broadcast_members: "keeps w (broadcast_members env sid w)"
  by (simp add: broadcast_members_def broadcast_def keeps_send_all kp.refl split: option.split)

section \<open>The rooms\<close>

lemma AddInvitee_keeps: "keeps w (snd (AddInvitee sid user permissions w))"
  by (auto simp: AddInvitee_def kp.refl room_AddInvitee_def intro: keeps_put_room split: option.split)

lemma RemoveUser_keeps:
  assumes "GetRdpSessionRoom w sid = Some r"
  shows "keeps w (RemoveUser sid r user w)"
proof (cases "map_of (Users r) user")
  case None
  then show ?thesis using assms by (auto simp: RemoveUser_def Let_def intro: keeps_put_room)
next
  case (Some a)
  let ?w = "emit [WsClose (Websocket (client w a))] w"
  have "keeps w ?w" by (rule keeps_emit) simp
  moreover have "keeps ?w (put_room sid (r\<lparr>Invitees := map_del user (Invitees r), Users := map_del user (Users r)\<rparr>) ?w)"
    by (rule keeps_put_room) (use assms in \<open>auto simp: go_map_simps split: if_splits\<close>)
  ultimately show ?thesis using Some by (auto simp: RemoveUser_def Let_def intro: kp.trans)
qed

text \<open>One more primitive operation at the end.\<close>

lemma then_emit: "keeps w w' \<Longrightarrow>
    (\<And>e. e \<in> set es \<Longrightarrow> typed_effect (length (session_heap w')) e \<and> \<not> rdp_count e) \<Longrightarrow> keeps w (emit es w')"
  and then_del_room: "keeps w w' \<Longrightarrow> keeps w (del_room sid w')"
  and then_Delete: "keeps w w' \<Longrightarrow> keeps w (SessionData_Delete k w')"
  and then_WriteMessage: "keeps w w' \<Longrightarrow> keeps w (WriteMessage a ins w')"
  and then_broadcast: "keeps w w' \<Longrightarrow> keeps w (broadcast_members env sid w')"
  by (blast intro: kp.trans keeps_emit keeps_del_room keeps_Delete keeps_WriteMessage keeps_broadcast_members)+

text \<open>The loops of \<open>StopShare\<close> take users out, and send only closings and deletions.\<close>

definition stopping :: "RdpSessionRoom \<Rightarrow> RdpSessionRoom \<times> effect list \<Rightarrow> bool" where
  "stopping r = (\<lambda>(r', es). (\<forall>u a. map_of (Users r') u = Some a \<longrightarrow> map_of (Users r) u = Some a) \<and>
     (\<forall>e\<in>set es. (\<exists>s u. e = DbRemoveInvitee s u) \<or> (\<exists>n. e = WsClose n)))"

lemma stopping_loops:
  "stopping r x \<Longrightarrow> stopping r (fold stop_invitee us x)"
  "stopping r x \<Longrightarrow> stopping r (fold (stop_user w) ks x)"
proof -
  have i: "stopping r (stop_invitee u x)" and s: "stopping r (stop_user w u x)" if "stopping r x" for u x
    using that by (auto simp: stopping_def stop_invitee_def stop_user_def Let_def go_map_simps
        split: prod.splits option.splits if_splits)
  show "stopping r x \<Longrightarrow> stopping r (fold stop_invitee us x)"
    by (induction us arbitrary: x) (simp_all add: i)
  show "stopping r x \<Longrightarrow> stopping r (fold (stop_user w) ks x)"
    by (induction ks arbitrary: x) (simp_all add: s)
qed

lemma StopShare_keeps:
  assumes "GetRdpSessionRoom w sid = Some r"
  shows "keeps w (snd (StopShare env sid r w))"
proof -
  obtain r1 es1 where f1: "fold stop_invitee (order env StopInvitees (map_keys (Invitees r))) (r, []) = (r1, es1)" by fastforce
  obtain r2 es2 where f2: "fold (stop_user w) (order env StopUsers (map_keys (Users r1))) (r1, es1) = (r2, es2)" by fastforce
  have "stopping r (r, [])" by (simp add: stopping_def)
  from stopping_loops(1) [OF this] f1 have "stopping r (r1, es1)" by metis
  from stopping_loops(2) [OF this] f2 have st: "stopping r (r2, es2)" by metis
  have "keeps w (emit es2 w)" by (rule keeps_emit) (use st in \<open>auto simp: stopping_def\<close>)
  moreover have "keeps (emit es2 w) (put_room sid r2 (emit es2 w))"
    by (rule keeps_put_room [where r = r]) (use assms st in \<open>auto simp: stopping_def\<close>)
  ultimately have k: "keeps w (put_room sid r2 (emit es2 w))" by (rule kp.trans)
  moreover have "keeps w (WriteMessage a ins (put_room sid r2 (emit es2 w)))" for a ins
    by (rule kp.trans [OF k keeps_WriteMessage])
  ultimately show ?thesis by (simp add: StopShare_def f1 f2 Let_def split: option.split)
qed

lemma PushToQueue_keeps: "keeps w (snd (PushToQueue env l w))"
proof -
  have "keeps w (w\<lparr>queue_count := n\<rparr>)" for n
    by (auto simp: keeps_def emitted_def fewer_users_def session_of_def SessionData_Get_def GetRdpSessionRoom_def)
  then show ?thesis
    by (auto simp: PushToQueue_def Let_def kp.refl intro!: then_emit)
qed

lemma closeRoom_keeps:
  assumes "typed_world w"
  shows "keeps w (snd (closeRoom env room w))"
proof -
  let ?sid = "SessionId room"
  define w1 where "w1 = emit [DbDeleteRdpSession ?sid, KvDelete (''guac-'' @ ?sid)]
    (SessionData_Delete ?sid (del_room ?sid (emit (close_effects env w room) w)))"
  have k0: "keeps w (emit (close_effects env w room) w)"
    by (rule keeps_emit) (auto simp: close_effects_def set_map_filter_keys)
  have k1: "keeps w w1"
    unfolding w1_def by (rule then_emit [OF then_Delete [OF then_del_room [OF k0]]]) auto
  show ?thesis
  proof (cases "session_of w ?sid")
    case None
    then show ?thesis using k1 by (simp add: closeRoom_def Let_def w1_def)
  next
    case (Some p)
    then have p: "p < length (session_heap w)" using typed_session_of [OF assms] by blast
    obtain q w2 where q: "PushToQueue env ((loggingInfo room)\<lparr>li_SessionId := RdpSessionId (ses_at w p)\<rparr>) w1 = (q, w2)" by fastforce
    then have k2: "keeps w1 w2" using PushToQueue_keeps by (metis snd_conv)
    with k1 have k: "keeps w w2" by (rule kp.trans)
    then have "p < length (session_heap w2)" using p by (simp add: keeps_def)
    then have "keeps w2 (emit [GoSendEvent ''exit'' (exit_action (ses_at w p) p room)] w2)"
      by (intro keeps_emit) (simp add: typed_session_def exit_action_def)
    with k have "keeps w (emit [GoSendEvent ''exit'' (exit_action (ses_at w p) p room)] w2)" by (rule kp.trans)
    with k Some q [unfolded w1_def] show ?thesis
      by (cases q) (simp_all add: closeRoom_def AddEncodeRecoding_def Let_def)
  qed
qed

lemma leave_visit_keeps: "keeps (snd x) (snd (leave_visit env room k x))"
  by (cases x) (auto simp: leave_visit_def keeps_WriteMessage kp.refl split: option.split)

lemma LeaveRoom_keeps:
  assumes "typed_world w" and "\<And>p. ses = Some p \<Longrightarrow> p < length (session_heap w)"
  shows "keeps w (snd (LeaveRoom env ses sid user ip ip' w))"
proof (cases ses)
  case (Some p)
  define w1 where "w1 = (if user \<noteq> Email (ses_at w p) then emit [LogAction (leave_action (ses_at w p) p user ip ip')] w else w)"
  have k1: "keeps w w1"
    using assms(2) [OF Some] by (auto simp: w1_def kp.refl leave_action_def typed_session_def intro!: keeps_emit)
  show ?thesis
  proof (cases "GetRdpSessionRoom w1 sid")
    case None
    with Some k1 show ?thesis by (simp add: LeaveRoom_def Let_def w1_def)
  next
    case r: (Some r)
    let ?room = "room_leave user r"
    obtain b w2 where f: "fold (leave_visit env ?room) (order env LeaveUsers (map_keys (Users ?room)))
        (False, put_room sid ?room w1) = (b, w2)" by fastforce
    have "keeps w1 (put_room sid ?room w1)"
      by (rule keeps_put_room [OF r]) (auto simp: room_leave_def go_map_simps split: if_splits)
    moreover have "keeps (put_room sid ?room w1) w2"
      using kp.fold_snd_rel [of "leave_visit env ?room", OF leave_visit_keeps] f by (metis snd_conv)
    ultimately have k2: "keeps w w2" using k1 kp.trans by blast
    then have "keeps w (snd (closeRoom env ?room w2))"
      using closeRoom_keeps [OF keeps_typed [OF k2 assms(1)]] kp.trans by blast
    with k2 r [unfolded w1_def] f [unfolded w1_def] Some show ?thesis by (simp add: LeaveRoom_def Let_def)
  qed
qed (simp add: LeaveRoom_def kp.refl)

section \<open>The commands\<close>

lemma share_one_keeps: "keeps (snd x) (snd (share_one env s url arg x))"
proof (cases x)
  case (Pair err w)
  have "keeps w w1" if "AddInvitee (RdpSessionId s) u permissions w = (r, w1)" for u permissions r w1
    using AddInvitee_keeps [of w "RdpSessionId s" u permissions] that by simp
  then show ?thesis
    by (auto simp: Pair share_one_def kp.refl intro!: then_emit split: list.split option.split prod.split)
qed

lemma remove_one_keeps: "keeps (snd x) (snd (remove_one env sid u x))"
proof (cases x)
  case (Pair err w)
  have r: "keeps w (emit [DbRemoveInvitee sid u] (RemoveUser sid room u w'))"
    if "keeps w w'" and "GetRdpSessionRoom w' sid = Some room" for w' room
    by (rule then_emit [OF kp.trans [OF that(1) RemoveUser_keeps [OF that(2)]]]) simp
  then show ?thesis
    by (auto simp: Pair remove_one_def Let_def kp.refl WriteMessage_def intro!: r keeps_emit split: option.split)
qed

lemma permit_one_keeps: "keeps w (permit_one env sid arg w)"
proof -
  have c: "keeps w (permit_client user permission room k w)" for user permission room k w
    by (simp add: permit_client_def keeps_update_client kp.refl split: option.split)
  have f: "keeps w (fold (permit_client user permission room) ks w)" for user permission room ks
    by (rule kp.fold_rel [OF c])
  have p: "keeps w (put_room sid (room\<lparr>Invitees := i\<rparr>) (fold (permit_client user permission room) ks w))"
    if "GetRdpSessionRoom w sid = Some room" for user permission room ks i
    by (rule kp.trans [OF f keeps_put_room [where r = room]]) (simp_all add: fold_permit_client(2) that)
  show ?thesis
    by (auto simp: permit_one_def Let_def kp.refl intro!: then_emit p f split: list.split option.split)
qed

lemma with_arg_keeps: "(\<And>x. keeps w (snd (k x w))) \<Longrightarrow> keeps w (snd (with_arg ins i k w))"
  by (simp add: with_arg_def kp.refl)

lemma respond_keeps [simp]: "keeps w (snd (respond r s w')) = keeps w w'"
  "keeps w (snd (respond_json ins j w')) = keeps w w'"
  by (simp_all add: respond_def respond_json_def with_arg_def)

lemma Command_Exec_keeps:
  assumes p: "p < length (session_heap w)"
  shows "keeps w (snd (Command_Exec c env ins p a w))"
proof (cases c)
  case RequestSharingCommand
  have "keeps w (snd (fold (share_one env s url) args (False, w)))" for s url args
    using kp.fold_snd_rel [of "share_one env s url" "(False, w)", OF share_one_keeps] by simp
  then have f: "keeps w w1" if "fold (share_one env s url) args (False, w) = (err, w1)" for s url args err w1
    using that by (metis snd_conv)
  then show ?thesis
    by (auto simp: RequestSharingCommand RequestSharing_Exec_def Let_def intro!: then_broadcast dest: f split: prod.split)
next
  case RemoveShareCommand
  have "keeps w (snd (fold (remove_one env sid) args (False, w)))" for sid args
    using kp.fold_snd_rel [of "remove_one env sid" "(False, w)", OF remove_one_keeps] by simp
  then have f: "keeps w w1" if "fold (remove_one env sid) args (False, w) = (err, w1)" for sid args err w1
    using that by (metis snd_conv)
  then show ?thesis
    by (auto simp: RemoveShareCommand RemoveShare_Exec_def Let_def kp.refl intro!: with_arg_keeps
        then_broadcast dest: f split: prod.split)
next
  case SetPermissions
  have "keeps w (fold (permit_one env sid) args w)" for sid args
    by (rule kp.fold_rel [OF permit_one_keeps])
  then show ?thesis
    by (auto simp: SetPermissions SetPermissions_Exec_def Let_def kp.refl intro!: with_arg_keeps then_broadcast)
next
  case StopShareCommand
  have "keeps w w1" if "GetRdpSessionRoom w sid = Some r" and "StopShare env sid r w = (q, w1)" for sid r q w1
    using StopShare_keeps [OF that(1)] that(2) by (metis snd_conv)
  then show ?thesis
    by (auto simp: StopShareCommand StopShare_Exec_def Let_def kp.refl intro!: with_arg_keeps
        split: option.split outcome.split prod.split)
qed (use p in \<open>auto simp: CheckUser_Exec_def SearchUser_Exec_def DlpDownload_Exec_def DlpUpload_Exec_def
    LogDownload_Exec_def UploadCheck_Exec_def DownloadCheck_Exec_def ReportContext_Exec_def Let_def kp.refl
    file_event_def quota_event_def typed_session_def keeps_update_client
    intro!: with_arg_keeps then_emit split: option.split\<close>)

section \<open>The websocket handlers\<close>

lemma handleAppaegisCommand_keeps:
  assumes "typed_world w"
  shows "keeps w (snd (handleAppaegisCommand env a cmd key w))"
proof -
  have s: "p < length (session_heap w)" if "session_of w key = Some p" for p
    using typed_session_of [OF assms that] .
  have "keeps w w1" if "session_of w key = Some p" and "Command_Exec c env ins p a w = (r, w1)" for c ins p r w1
    using Command_Exec_keeps [OF s [OF that(1)], of c env ins a] that(2) by (metis snd_conv)
  then show ?thesis
    using s by (auto simp: handleAppaegisCommand_def Let_def kp.refl typed_session_def
        intro!: then_WriteMessage keeps_emit split: outcome.split option.split prod.split)
qed

lemma ws_message_keeps:
  assumes "typed_world w"
  shows "keeps w (snd (ws_message env a key data w))"
  using handleAppaegisCommand_keeps [OF assms, of env a data key]
  by (auto simp: ws_message_def kp.refl split: prod.split outcome.split)

lemma server_info_keeps:
  assumes "\<And>p. ses = Some p \<Longrightarrow> p < length (session_heap w)"
  shows "keeps w (snd (server_info ses ins w))"
  using assms
  by (auto simp: server_info_def Let_def kp.refl typed_session_def open_action_def update_session_def [of _ _ w]
      intro!: then_emit keeps_update_session [unfolded update_session_def] split: option.split)

end
