(* ===== verification/PolicyFeed.thy ===== *)
theory PolicyFeed
  imports SessionStores
begin

text \<open>
  The goroutine \<open>connectToAstraea\<close> of \<open>cmd/guac/guac.go\<close>, which dials the policy service and
  tells the connections what it hears, in steps as long as the lock of the channels is held
  or a send can wait.
\<close>

section \<open>The goroutine\<close>

text \<open>
  It dials; it reads requests; it has ids left of a request and holds no lock; or it is in
  \<open>BroadCast\<close>, holds the lock, and has channels left to send to before the other ids.
\<close>

datatype feed = Dialing | Reading | Telling "string list" | Sending "nat list" "string list"

datatype feed_event = DialFails | Dialed | ReadFails | Requested "(string \<times> string list) list" | Continues "string list \<Rightarrow> string list"

text \<open>
  What a step ends in: the goroutine goes on; it waits (the step is not taken); it panics,
  which ends the process; or \<open>logrus.Fatalf\<close> exits the process (the pause and the
  \<open>continue\<close> after it are never reached).
\<close>

datatype feed_result = Goes feed ChannelManagement | Waits | Crashes | Exits

fun connectToAstraea :: "feed_event \<Rightarrow> feed \<Rightarrow> ChannelManagement \<Rightarrow> feed_result" where
  "connectToAstraea DialFails Dialing c = Exits"
| "connectToAstraea Dialed Dialing c = Goes Reading c"
| "connectToAstraea ReadFails Reading c = Goes Dialing c"
| "connectToAstraea (Requested events) Reading c = Goes (Telling (concat (map snd events))) c"
| "connectToAstraea (Continues visit) (Telling []) c = Goes Reading c"
| "connectToAstraea (Continues visit) (Telling (i # is)) c =
     Goes (Sending (List.map_filter (map_of (list_of c i)) (visit (map_keys (list_of c i)))) is) c"
| "connectToAstraea (Continues visit) (Sending [] is) c = Goes (Telling is) c"
| "connectToAstraea (Continues visit) (Sending (ch # chs) is) c =
     (if ch_closed (chan_heap c ! ch) then Crashes
      else if ch_buf (chan_heap c ! ch) \<noteq> [] then Waits
      else Goes (Sending chs is) (put_op 1 ch c))"
| "connectToAstraea e f c = Waits"

fun lock_free :: "feed \<Rightarrow> bool" where
  "lock_free (Sending chs is) = False"
| "lock_free f = True"

text \<open>Steps of its own, one after the other.\<close>

fun feed_run :: "nat \<Rightarrow> (string list \<Rightarrow> string list) \<Rightarrow> feed \<Rightarrow> ChannelManagement \<Rightarrow> feed_result" where
  "feed_run 0 visit f c = Goes f c"
| "feed_run (Suc n) visit f c =
     (case connectToAstraea (Continues visit) f c of
        Goes f1 c1 \<Rightarrow> feed_run n visit f1 c1
      | r \<Rightarrow> r)"

section \<open>Undisturbed, it runs \<open>notify_request\<close>\<close>

lemma feed_run_add: "feed_run n visit f c = Goes f1 c1 \<Longrightarrow> feed_run (n + m) visit f c = feed_run m visit f1 c1"
proof (induction n arbitrary: f c)
  case (Suc n)
  then show ?case by (cases "connectToAstraea (Continues visit) f c") simp_all
qed simp

lemma sending_run:
  "send_chans 1 chs c = Some (Val (), c1) \<Longrightarrow> \<exists>n. feed_run n visit (Sending chs is) c = Goes (Telling is) c1"
proof (induction chs arbitrary: c)
  case Nil
  then show ?case by (intro exI [of _ 1]) simp
next
  case (Cons ch chs)
  from Cons.prems have o: "\<not> ch_closed (chan_heap c ! ch)" "ch_buf (chan_heap c ! ch) = []"
    "send_chans 1 chs (put_op 1 ch c) = Some (Val (), c1)" by (auto simp: put_op_def split: if_splits)
  from Cons.IH [OF o(3)] obtain n where "feed_run n visit (Sending chs is) (put_op 1 ch c) = Goes (Telling is) c1" by blast
  with o(1,2) show ?case by (intro exI [of _ "Suc n"]) simp
qed

lemma telling_run:
  "broadcast_ids visit is c = Some (Val (), c1) \<Longrightarrow> \<exists>n. feed_run n visit (Telling is) c = Goes Reading c1"
proof (induction "is" arbitrary: c)
  case Nil
  then show ?case by (intro exI [of _ 1]) simp
next
  case (Cons i "is")
  from Cons.prems obtain c0 where c0: "BroadCast visit i 1 c = Some (Val (), c0)" "broadcast_ids visit is c0 = Some (Val (), c1)"
    by (auto split: option.splits prod.splits outcome.splits)
  let ?chs = "List.map_filter (map_of (list_of c i)) (visit (map_keys (list_of c i)))"
  obtain n where n: "feed_run n visit (Sending ?chs is) c = Goes (Telling is) c0"
    using sending_run [of ?chs c c0 visit "is"] c0(1) by (auto simp: BroadCast_def)
  then have "feed_run (Suc n) visit (Telling (i # is)) c = Goes (Telling is) c0" by simp
  moreover obtain m where "feed_run m visit (Telling is) c0 = Goes Reading c1" using Cons.IH [OF c0(2)] by blast
  ultimately show ?case using feed_run_add by (metis (no_types))
qed

text \<open>A request that \<open>notify_request\<close> handles without waiting.\<close>

lemma feed_refines_notify:
  assumes "notify_request visit events c = Some (Val (), c1)"
  obtains n where "connectToAstraea (Requested events) Reading c = Goes (Telling (concat (map snd events))) c"
    and "feed_run n visit (Telling (concat (map snd events))) c = Goes Reading c1"
  using telling_run [of visit "concat (map snd events)" c c1] assms by (auto simp: notify_request_def)

section \<open>With the invariant of the channels\<close>

lemma cm_inv_buffer:
  assumes "cm_inv (c, os)"
  shows "cm_inv (c\<lparr>chan_heap := (chan_heap c)[ch := (chan_heap c ! ch)\<lparr>ch_buf := b\<rparr>]\<rparr>, os)"
proof -
  have "ch_closed ((chan_heap c)[ch := (chan_heap c ! ch)\<lparr>ch_buf := b\<rparr>] ! k) = ch_closed (chan_heap c ! k)" for k
    by (cases "k = ch"; cases "k < length (chan_heap c)") (simp_all add: list_update_beyond)
  with assms show ?thesis by (simp add: cm_inv_def)
qed

text \<open>The channels it still has to send to are those of open connections.\<close>

definition feed_ok :: "feed \<Rightarrow> open_conn set \<Rightarrow> bool" where
  "feed_ok f os \<longleftrightarrow> (\<forall>chs is. f = Sending chs is \<longrightarrow> set chs \<subseteq> oc_chan ` os)"

fun visits :: "feed_event \<Rightarrow> bool" where
  "visits (Continues visit) = is_order visit"
| "visits e = True"

lemma feed_step_ok:
  assumes "cm_inv (c, os)" and "feed_ok f os" and "visits e"
  shows "connectToAstraea e f c \<noteq> Crashes"
    and "connectToAstraea e f c = Goes f' c' \<Longrightarrow> cm_inv (c', os) \<and> feed_ok f' os"
    and "connectToAstraea e f c = Exits \<Longrightarrow> f = Dialing \<and> e = DialFails"
proof -
  have told: "set (List.map_filter (map_of (list_of c i)) (visit (map_keys (list_of c i)))) \<subseteq> oc_chan ` os"
    if "is_order visit" for visit i
    using told_channels(1) [OF assms(1) that refl, of i] by auto
  have op: "\<not> ch_closed (chan_heap c ! ch)" if "f = Sending (ch # chs) is" for ch chs "is"
    using assms(1,2) that by (auto simp: feed_ok_def dest: cm_invD(4))
  show "connectToAstraea e f c \<noteq> Crashes"
    using op by (cases "(e, f, c)" rule: connectToAstraea.cases) auto
  show "connectToAstraea e f c = Goes f' c' \<Longrightarrow> cm_inv (c', os) \<and> feed_ok f' os"
    using assms op told cm_inv_buffer [OF assms(1)]
    by (cases "(e, f, c)" rule: connectToAstraea.cases) (auto simp: feed_ok_def put_op_def split: if_splits)
  show "connectToAstraea e f c = Exits \<Longrightarrow> f = Dialing \<and> e = DialFails"
    by (cases "(e, f, c)" rule: connectToAstraea.cases) (auto split: if_splits)
qed

end
