(* ===== verification/Process.thy ===== *)
theory Process
  imports Frame PolicyFeed WsConnection ConnectProps HttpServer RoomLocks
begin

text \<open>
  The running program: the websocket connections, each in a goroutine that goes through
  \<open>ServeHTTP\<close> of \<open>pkg/ws_server.go\<close> and starts others, the HTTP tunnels with their timeout
  task, the goroutine of the policy service and those of the events, all in one state. A
  step is what one goroutine does between two points where others can run. A command or
  a room operation takes effect in one step; what it does to the maps in between, and meets
  there, is taken from \<open>RoomLocks\<close>.
\<close>

section \<open>State\<close>

text \<open>
  Where the handler of a connection is in \<open>ServeHTTP\<close>: after the upgrade; the share link was
  checked; the tunnel is there; \<open>OnConnect\<close> was called; the application was asked for; the channel is
  listed for the user, and then also for the application; the room
  is entered and the loops run; the room is left or the handler failed, and the deferred
  calls are left; the channel is removed; everything is closed.
\<close>

datatype ws_phase = Upgraded | Authorised | Tunnelled | Counted | Queried | Listed | Registered | Entered | Leaving
  | Unregistered | Closed

text \<open>
  \<open>cn_chan\<close> is the id of the channel and the channel. \<open>cn_con\<close> is what it entered a room
  with. The flags: the application may be shared; the loop from the browser was started; the policy
  goroutine was started; it has sent the first policy; the handler has panicked.
\<close>

record conn =
  cn_request :: connect_request
  cn_phase :: ws_phase
  cn_target :: "string \<times> string"
  cn_tunnel :: tunnel_info
  cn_chan :: "string \<times> nat"
  cn_con :: "ws_connection option"
  cn_sharing :: bool
  cn_relay :: bool
  cn_feeding :: bool
  cn_told :: bool
  cn_panicked :: bool

definition ws_request_of :: "connect_request \<Rightarrow> ws_request" where
  "ws_request_of r =
     (let q = cr_values r
      in \<lparr>shareSessionId = query_Get q ''shareSessionId'', userId = query_Get q ''userId'',
          appId = query_Get q ''appId'', clientIp = query_Get q ''clientIp''\<rparr>)"

abbreviation cn_req :: "conn \<Rightarrow> ws_request" where
  "cn_req c \<equiv> ws_request_of (cn_request c)"

definition no_tunnel :: tunnel_info where
  "no_tunnel = \<lparr>tun_UUID = [], tun_ConnectionID = [],
     tun_LoggingInfo = NewLoggingInfo [] [] [] [] [] [] False [] 0\<rparr>"

definition new_conn :: "connect_request \<Rightarrow> conn" where
  "new_conn r = \<lparr>cn_request = r, cn_phase = Upgraded, cn_target = ([], []), cn_tunnel = no_tunnel,
     cn_chan = ([], 0), cn_con = None, cn_sharing = False, cn_relay = False, cn_feeding = False, cn_told = False,
     cn_panicked = False\<rparr>"

text \<open>
  How the process ended: a panic nobody recovers from, \<open>logrus.Fatalf\<close>, the return of
  \<open>ListenAndServe\<close> and \<open>main\<close>, or the Go runtime when it finds two goroutines at one map, one of
  them writing.
\<close>

datatype status = Running | Crashed | Exited | Returned | FatalError

text \<open>\<open>ran\<close>: the indices in the trace of the started events that have run.\<close>

record process = server +
  conns :: "conn list"
  feed :: feed
  ran :: "nat set"
  http :: "http_world \<times> (string \<times> nat) list option"
  proc_status :: status

definition start_process :: "world \<Rightarrow> int \<Rightarrow> process" where
  "start_process w t =
     \<lparr>server_world = w, sessions = NewMemorySessionStore, channelManagement = NewChannelManagement,
      conns = [], feed = Dialing, ran = {}, http = (NewTunnelMap t, None), proc_status = Running\<rparr>"

definition put_conn :: "nat \<Rightarrow> conn \<Rightarrow> process \<Rightarrow> process" where
  "put_conn k c p = p\<lparr>conns := (conns p)[k := c]\<rparr>"

section \<open>A websocket connection, up to its loops\<close>

text \<open>An upgrade that fails leaves nothing behind.\<close>

definition ws_upgrade :: "bool \<Rightarrow> connect_request \<Rightarrow> process \<Rightarrow> process" where
  "ws_upgrade ok r p = (if ok then p\<lparr>conns := conns p @ [new_conn r]\<rparr> else p)"

definition ws_authorise :: "env \<Rightarrow> nat \<Rightarrow> process \<Rightarrow> process" where
  "ws_authorise env k p =
     (let c = conns p ! k
      in case share_target env (cn_req c) (server_world p) of
           None \<Rightarrow> put_conn k (c\<lparr>cn_phase := Closed\<rparr>) p
         | Some t \<Rightarrow> put_conn k (c\<lparr>cn_phase := Authorised, cn_target := t\<rparr>) p)"

definition ws_connect :: "env \<Rightarrow> connect_env \<Rightarrow> nat \<Rightarrow> process \<Rightarrow> process" where
  "ws_connect env cenv k p =
     (let c = conns p ! k; (r, w) = callback env cenv (cn_request c) (server_world p); p1 = p\<lparr>server_world := w\<rparr>
      in case r of
           Val t \<Rightarrow> put_conn k (c\<lparr>cn_phase := Tunnelled, cn_tunnel := t\<rparr>) p1
         | _ \<Rightarrow> put_conn k (c\<lparr>cn_phase := Closed\<rparr>) p1)"

definition ws_on_connect :: "nat \<Rightarrow> process \<Rightarrow> process" where
  "ws_on_connect k p =
     (let c = conns p ! k
      in put_conn k (c\<lparr>cn_phase := Counted\<rparr>)
           (p\<lparr>sessions := MemorySessionStore_Add (tun_ConnectionID (cn_tunnel c)) (sessions p)\<rparr>))"

text \<open>An application that is not found panics, with \<open>OnDisconnect\<close> and the tunnel left to be closed.\<close>

definition ws_query_app :: "env \<Rightarrow> nat \<Rightarrow> process \<Rightarrow> process" where
  "ws_query_app env k p =
     (let c = conns p ! k
      in case query_sharing env (appId (cn_req c)) of
           None \<Rightarrow> put_conn k (c\<lparr>cn_phase := Unregistered, cn_panicked := True\<rparr>) p
         | Some sharing \<Rightarrow> put_conn k (c\<lparr>cn_phase := Queried, cn_sharing := sharing\<rparr>) p)"

text \<open>A new channel, listed for the user; then it is listed for the application, and the goroutine
  that reads it is started.\<close>

definition ws_make_channel :: "string \<Rightarrow> nat \<Rightarrow> process \<Rightarrow> process" where
  "ws_make_channel i k p =
     (let c = conns p ! k
      in if has_channel (cn_req c) then
           let (ch, cm) = new_channel (userId (cn_req c)) i (channelManagement p)
           in put_conn k (c\<lparr>cn_phase := Listed, cn_chan := (i, ch)\<rparr>) (p\<lparr>channelManagement := cm\<rparr>)
         else put_conn k (c\<lparr>cn_phase := Registered\<rparr>) p)"

definition ws_add_channel :: "nat \<Rightarrow> process \<Rightarrow> process" where
  "ws_add_channel k p =
     (let c = conns p ! k
      in put_conn k (c\<lparr>cn_phase := Registered, cn_feeding := True\<rparr>)
           (p\<lparr>channelManagement :=
              ChannelManagement_Add (appId (cn_req c)) (fst (cn_chan c)) (snd (cn_chan c)) (channelManagement p)\<rparr>))"

text \<open>
  Entering the room. When \<open>JoinRoom\<close> has let the user in and there is no session data, the
  handler panics on it: \<open>cn_con\<close> then tells as what the user stays in the room.
\<close>

definition tenant_of :: "conn \<Rightarrow> string" where
  "tenant_of c = li_TenantId (tun_LoggingInfo (cn_tunnel c))"

definition ws_enter :: "env \<Rightarrow> nat \<Rightarrow> process \<Rightarrow> process" where
  "ws_enter env k p =
     (let c = conns p ! k; w = server_world p
      in case enter_room env (cn_req c) k (cn_target c) (cn_tunnel c) (cn_sharing c) w of
           (Val con, w1) \<Rightarrow>
             put_conn k (c\<lparr>cn_phase := Entered, cn_con := Some con, cn_relay := True\<rparr>)
               (p\<lparr>server_world := SendPermission (con_client con) (emit [RdpCount (tenant_of c) 1] w1)\<rparr>)
         | (Fail e, w1) \<Rightarrow> put_conn k (c\<lparr>cn_phase := Leaving\<rparr>) (p\<lparr>server_world := w1\<rparr>)
         | (Panic, w1) \<Rightarrow>
             put_conn k (c\<lparr>cn_phase := Leaving, cn_panicked := True,
                 cn_con := Some \<lparr>con_client = length (clients w), con_session = fst (cn_target c), con_ses = None,
                   con_user = userId (cn_req c), con_tunnel = cn_tunnel c\<rparr>\<rparr>) (p\<lparr>server_world := w1\<rparr>))"

section \<open>The loops\<close>

text \<open>
  A message of the browser, in the goroutine of \<open>wsToGuacd\<close>: nothing recovers from a panic
  there. The goroutine goes on until reading the websocket fails, and handles what it has read
  also when the connection was closed meanwhile.
\<close>

definition ws_receives :: "env \<Rightarrow> nat \<Rightarrow> byte list \<Rightarrow> process \<Rightarrow> process" where
  "ws_receives env k data p =
     (case cn_con (conns p ! k) of
        None \<Rightarrow> p
      | Some con \<Rightarrow>
          (case ws_message env (con_client con) (con_session con) data (server_world p) of
             (Panic, w) \<Rightarrow> p\<lparr>server_world := w, proc_status := Crashed\<rparr>
           | (_, w) \<Rightarrow> p\<lparr>server_world := w\<rparr>))"

text \<open>
  A panic in the handler's own goroutine is recovered by \<open>net/http\<close>, after the deferred
  calls; the first is \<open>DecRdpCount\<close>.
\<close>

definition ws_panics :: "nat \<Rightarrow> process \<Rightarrow> process" where
  "ws_panics k p =
     (let c = conns p ! k
      in put_conn k (c\<lparr>cn_phase := Leaving, cn_panicked := True\<rparr>)
           (p\<lparr>server_world := emit [RdpCount (tenant_of c) (- 1)] (server_world p)\<rparr>))"

definition ws_server_info :: "nat \<Rightarrow> byte list \<Rightarrow> process \<Rightarrow> process" where
  "ws_server_info k ins p =
     (case cn_con (conns p ! k) of
        None \<Rightarrow> p
      | Some con \<Rightarrow>
          (case server_info (con_ses con) ins (server_world p) of
             (Panic, w) \<Rightarrow> ws_panics k (p\<lparr>server_world := w\<rparr>)
           | (_, w) \<Rightarrow> p\<lparr>server_world := w\<rparr>))"

text \<open>What guacd sends reaches the browser.\<close>

definition ws_relays :: "nat \<Rightarrow> byte list \<Rightarrow> process \<Rightarrow> process" where
  "ws_relays k bs p = p\<lparr>server_world := emit [WsSend k bs] (server_world p)\<rparr>"

text \<open>The goroutine of \<open>BroadCastToWs\<close>; \<open>actions\<close> is the answer of the policy query.\<close>

definition ws_first_policy :: "string list option \<Rightarrow> nat \<Rightarrow> process \<Rightarrow> process" where
  "ws_first_policy actions k p =
     put_conn k ((conns p ! k)\<lparr>cn_told := True\<rparr>)
       (p\<lparr>server_world := BroadCastPolicy k (cn_sharing (conns p ! k)) actions (server_world p)\<rparr>)"

definition ws_policy :: "string list option \<Rightarrow> nat \<Rightarrow> process \<Rightarrow> process" where
  "ws_policy actions k p =
     (let sharing = cn_sharing (conns p ! k); ch = snd (cn_chan (conns p ! k)); cm = channelManagement p
      in case ch_buf (chan_heap cm ! ch) of
           [] \<Rightarrow> p
         | op # rest \<Rightarrow>
             p\<lparr>channelManagement := cm\<lparr>chan_heap := (chan_heap cm)[ch := (chan_heap cm ! ch)\<lparr>ch_buf := rest\<rparr>]\<rparr>,
               server_world := (if op = 1 then BroadCastPolicy k sharing actions (server_world p) else server_world p)\<rparr>)"

section \<open>Its end\<close>

definition ws_leave :: "env \<Rightarrow> nat \<Rightarrow> process \<Rightarrow> process" where
  "ws_leave env k p =
     (let c = conns p ! k
      in case cn_con c of
           None \<Rightarrow> p
         | Some con \<Rightarrow>
             let (r, w) = ws_close env con (server_world p)
             in put_conn k (c\<lparr>cn_phase := Leaving, cn_panicked := (r = Panic)\<rparr>) (p\<lparr>server_world := w\<rparr>))"

definition ws_remove_channel :: "nat \<Rightarrow> process \<Rightarrow> process" where
  "ws_remove_channel k p =
     (let c = conns p ! k
      in put_conn k (c\<lparr>cn_phase := Unregistered\<rparr>)
           (if has_channel (cn_req c) then
              p\<lparr>channelManagement := snd (ChannelManagement_Remove (appId (cn_req c)) (userId (cn_req c))
                  (fst (cn_chan c)) (channelManagement p))\<rparr>
            else p))"

definition ws_on_disconnect :: "nat \<Rightarrow> process \<Rightarrow> process" where
  "ws_on_disconnect k p =
     (let c = conns p ! k
      in put_conn k (c\<lparr>cn_phase := Closed\<rparr>)
           (p\<lparr>sessions := MemorySessionStore_Delete (tun_ConnectionID (cn_tunnel c)) (sessions p)\<rparr>))"

section \<open>The other goroutines\<close>

definition feed_moves :: "feed_event \<Rightarrow> process \<Rightarrow> process" where
  "feed_moves e p =
     (case connectToAstraea e (feed p) (channelManagement p) of
        Goes f cm \<Rightarrow> p\<lparr>feed := f, channelManagement := cm\<rparr>
      | Waits \<Rightarrow> p
      | Crashes \<Rightarrow> p\<lparr>proc_status := Crashed\<rparr>
      | Exits \<Rightarrow> p\<lparr>proc_status := Exited\<rparr>)"

text \<open>An event that was started runs; nothing recovers from a panic of \<open>logging.Log\<close>.\<close>

definition run_event :: "env \<Rightarrow> nat \<Rightarrow> process \<Rightarrow> process" where
  "run_event env i p =
     (let (r, w) = (case trace (server_world p) ! i of
                      GoSendEvent action a \<Rightarrow> SendEvent env action a (server_world p)
                    | GoSendBlockEvent b \<Rightarrow> sendBlockEvent env b (server_world p)
                    | _ \<Rightarrow> (Val (), server_world p))
      in p\<lparr>server_world := w, ran := insert i (ran p), proc_status := (if r = Panic then Crashed else proc_status p)\<rparr>)"

text \<open>A request \<open>connect\<close> of an HTTP client.\<close>

definition http_opens :: "env \<Rightarrow> connect_env \<Rightarrow> connect_request \<Rightarrow> process \<Rightarrow> process" where
  "http_opens env cenv req p =
     (case DemoDoConnect env cenv req (server_world p) of
        Some (Val t, w) \<Rightarrow>
          let h = fst (http p)
          in p\<lparr>server_world := w,
               http := (registerTunnel (length (tunnels h)) (h\<lparr>tunnels := tunnels h @ [t]\<rparr>), snd (http p))\<rparr>
      | Some (_, w) \<Rightarrow> p\<lparr>server_world := w\<rparr>
      | None \<Rightarrow> p)"

section \<open>What goroutines are in\<close>

text \<open>The handler of a connection, its loop from the browser, and an HTTP client that connects.\<close>

datatype goroutine = Handler nat | Relay nat | Client nat

definition at_phase :: "ws_phase \<Rightarrow> nat \<Rightarrow> process \<Rightarrow> bool" where
  "at_phase s k p \<longleftrightarrow> k < length (conns p) \<and> cn_phase (conns p ! k) = s"

definition channel_ids :: "process \<Rightarrow> string set" where
  "channel_ids p = (\<lambda>c. fst (cn_chan c)) ` set (conns p)"

text \<open>\<open>DemoDoConnect\<close> looks for a room of the user's own and may look up the one of the share link; the
  commands that change who is in a room.\<close>

definition connect_acc :: "nat list \<Rightarrow> bool \<Rightarrow> bool \<Rightarrow> access list" where
  "connect_acc rs found joins = GetRoomByAppIdAndCreator_acc rs found @ (if joins then [ReadMap RoomsMap] else [])"

inductive command_acc :: "access list \<Rightarrow> bool" where
  "command_acc (RemoveShare_acc users told)"
| "command_acc (SetPermissions_acc changes)"
| "command_acc (RequestSharing_acc invitees told)"
| "command_acc (StopShare_Exec_acc stopped)"

text \<open>What a goroutine may be in the middle of before the step that has its effect: with which
  accesses depends on what it finds.\<close>

inductive doing :: "process \<Rightarrow> goroutine \<Rightarrow> access list \<Rightarrow> bool" where
  checks_link: "at_phase Upgraded k p \<Longrightarrow> shareSessionId (cn_req (conns p ! k)) \<noteq> [] \<Longrightarrow>
    doing p (Handler k) (AuthShare_acc listed)"
| finds_own: "at_phase Upgraded k p \<Longrightarrow> shareSessionId (cn_req (conns p ! k)) = [] \<Longrightarrow>
    doing p (Handler k) (GetRoomByAppIdAndCreator_acc rs found)"
| connects: "at_phase Authorised k p \<Longrightarrow> doing p (Handler k) (connect_acc rs found joins)"
| opens: "at_phase Registered k p \<Longrightarrow> fst (cn_target (conns p ! k)) = [] \<Longrightarrow> doing p (Handler k) (NewRdpSessionRoom_acc r)"
| joins: "at_phase Registered k p \<Longrightarrow> fst (cn_target (conns p ! k)) \<noteq> [] \<Longrightarrow>
    doing p (Handler k) (JoinRoom_acc room m cs @ (if joined then [ReadMap RoomsMap] else []))"
| leaves: "at_phase Entered k p \<Longrightarrow> doing p (Handler k) (LeaveRoom_acc session room told closed)"
| commands: "k < length (conns p) \<Longrightarrow> cn_relay (conns p ! k) \<Longrightarrow> command_acc as \<Longrightarrow> doing p (Relay k) as"
| client: "doing p (Client n) (connect_acc rs found joins)"

section \<open>All steps\<close>

inductive moves :: "process \<Rightarrow> process \<Rightarrow> bool" where
  upgrade: "moves p (ws_upgrade ok r p)"
| authorise: "at_phase Upgraded k p \<Longrightarrow> moves p (ws_authorise env k p)"
| connect: "at_phase Authorised k p \<Longrightarrow> moves p (ws_connect env cenv k p)"
| on_connect: "at_phase Tunnelled k p \<Longrightarrow> moves p (ws_on_connect k p)"
| query_app: "at_phase Counted k p \<Longrightarrow> moves p (ws_query_app env k p)"
| make_channel: "at_phase Queried k p \<Longrightarrow> has_channel (cn_req (conns p ! k)) \<longrightarrow> lock_free (feed p) \<Longrightarrow>
    i \<notin> channel_ids p \<Longrightarrow> moves p (ws_make_channel i k p)"
| add_channel: "at_phase Listed k p \<Longrightarrow> has_channel (cn_req (conns p ! k)) \<Longrightarrow> lock_free (feed p) \<Longrightarrow> moves p (ws_add_channel k p)"
| enter: "at_phase Registered k p \<Longrightarrow> moves p (ws_enter env k p)" if "env_ok env"
| receives: "k < length (conns p) \<Longrightarrow> cn_relay (conns p ! k) \<Longrightarrow> moves p (ws_receives env k data p)" if "env_ok env"
| server_info: "at_phase Entered k p \<Longrightarrow> moves p (ws_server_info k ins p)"
| relays: "at_phase Entered k p \<Longrightarrow> moves p (ws_relays k bs p)"
| panics: "at_phase Entered k p \<Longrightarrow> moves p (ws_panics k p)"
| first_policy: "k < length (conns p) \<Longrightarrow> cn_feeding (conns p ! k) \<Longrightarrow> \<not> cn_told (conns p ! k) \<Longrightarrow>
    moves p (ws_first_policy actions k p)"
| policy: "k < length (conns p) \<Longrightarrow> cn_told (conns p ! k) \<Longrightarrow> moves p (ws_policy actions k p)"
| leave: "at_phase Entered k p \<Longrightarrow> moves p (ws_leave env k p)" if "env_ok env"
| remove_channel: "at_phase Leaving k p \<Longrightarrow> has_channel (cn_req (conns p ! k)) \<longrightarrow> lock_free (feed p) \<Longrightarrow>
    moves p (ws_remove_channel k p)"
| on_disconnect: "at_phase Unregistered k p \<Longrightarrow> moves p (ws_on_disconnect k p)"
| feed: "visits e \<Longrightarrow> moves p (feed_moves e p)"
| event: "i < length (trace (server_world p)) \<Longrightarrow> i \<notin> ran p \<Longrightarrow> moves p (run_event env i p)"
| http_connect: "moves p (http_opens env cenv req p)"
| http_step: "tmap_step (http p) h \<Longrightarrow> moves p (p\<lparr>http := h\<rparr>)"
| main_returns: "moves p (p\<lparr>proc_status := Returned\<rparr>)"
| maps_meet: "doing p g as \<Longrightarrow> doing p g' bs \<Longrightarrow> g \<noteq> g' \<Longrightarrow> meet as bs x \<Longrightarrow> moves p (p\<lparr>proc_status := FatalError\<rparr>)"

text \<open>A process that has ended takes no steps.\<close>

definition process_step :: "process \<Rightarrow> process \<Rightarrow> bool" where
  "process_step p p' \<longleftrightarrow> proc_status p = Running \<and> moves p p'"

definition process_start :: "process \<Rightarrow> bool" where
  "process_start p \<longleftrightarrow> (\<exists>w t. p = start_process w t \<and> fresh_world w \<and> session_data w = [] \<and> trace w = [])"

end
