(* ===== verification/ProcessInv.thy ===== *)
theory ProcessInv
  imports Process
begin

text \<open>
  Every step of the process of \<open>Process\<close> keeps its invariant: the world is well-typed and the
  members of the rooms are those of connections that entered, the channels and the goroutine of the
  policy service are in step, and the counters count the connections.
\<close>

section \<open>The world and the connections\<close>

text \<open>The connection stands for the client \<open>a\<close> of the user \<open>u\<close> in the room \<open>sid\<close>.\<close>

definition holds :: "conn \<Rightarrow> string \<Rightarrow> string \<Rightarrow> nat \<Rightarrow> bool" where
  "holds c sid u a \<longleftrightarrow> (\<exists>con. cn_con c = Some con \<and> con_session con = sid \<and> con_user con = u \<and> con_client con = a) \<and>
     (cn_phase c = Entered \<or> cn_panicked c)"

definition members_live :: "conn list \<Rightarrow> world \<Rightarrow> bool" where
  "members_live cs w \<longleftrightarrow> (\<forall>sid r u a. GetRdpSessionRoom w sid = Some r \<longrightarrow> map_of (Users r) u = Some a \<longrightarrow>
     (\<exists>k<length cs. holds (cs ! k) sid u a))"

definition early :: "ws_phase set" where
  "early = {Upgraded, Authorised, Tunnelled, Counted, Queried, Listed, Registered}"

definition typed_conn :: "world \<Rightarrow> conn \<Rightarrow> bool" where
  "typed_conn w c \<longleftrightarrow>
     (\<forall>con. cn_con c = Some con \<longrightarrow> con_client con < length (clients w) \<and> con_user con = userId (cn_req c) \<and>
        (\<forall>q. con_ses con = Some q \<longrightarrow> q < length (session_heap w))) \<and>
     (cn_relay c \<or> cn_phase c = Entered \<longrightarrow> cn_con c \<noteq> None) \<and>
     (cn_phase c \<in> early \<longrightarrow> cn_con c = None)"

definition world_inv :: "conn list \<Rightarrow> world \<Rightarrow> bool" where
  "world_inv cs w \<longleftrightarrow> rooms_inv w \<and> typed_world w \<and> (\<forall>c\<in>set cs. typed_conn w c) \<and> members_live cs w"

lemma typed_conn_mono: "typed_conn w c \<Longrightarrow> length (clients w) \<le> length (clients w') \<Longrightarrow>
    length (session_heap w) \<le> length (session_heap w') \<Longrightarrow> typed_conn w' c"
  unfolding typed_conn_def by (meson order_less_le_trans)

lemma members_live_fewer: "members_live cs w \<Longrightarrow> fewer_users w w' \<Longrightarrow> members_live cs w'"
  unfolding members_live_def fewer_users_def by blast

lemma world_inv_keeps: "world_inv cs w \<Longrightarrow> keeps w w' \<Longrightarrow> rooms_inv w' \<Longrightarrow> world_inv cs w'"
  by (auto simp: world_inv_def keeps_def intro: typed_conn_mono members_live_fewer keeps_typed [of w w', unfolded keeps_def])

lemma world_inv_emit:
  assumes "world_inv cs w" and "\<And>e. e \<in> set es \<Longrightarrow> typed_effect (length (session_heap w)) e"
  shows "world_inv cs (emit es w)"
  using assms by (auto simp: world_inv_def typed_world_def typed_conn_def members_live_def)

lemma world_inv_conn:
  assumes "world_inv cs w" and "k < length cs" and "typed_conn w c"
    and "\<And>sid u a. holds (cs ! k) sid u a \<Longrightarrow> holds c sid u a"
  shows "world_inv (cs[k := c]) w"
proof -
  have "members_live (cs[k := c]) w"
  proof -
    have "\<exists>j<length cs. holds (cs[k := c] ! j) sid u a" if "\<exists>j<length cs. holds (cs ! j) sid u a" for sid u a
    proof -
      from that obtain j where "j < length cs" "holds (cs ! j) sid u a" by blast
      with assms(2,4) show ?thesis by (cases "j = k") auto
    qed
    with assms(1) show ?thesis by (simp add: world_inv_def members_live_def)
  qed
  moreover have "\<forall>x\<in>set (cs[k := c]). typed_conn w x"
    using assms(1,3) set_update_subset_insert [of cs k c] by (auto simp: world_inv_def)
  ultimately show ?thesis using assms(1) by (simp add: world_inv_def)
qed

text \<open>What connecting does to the world.\<close>

definition dialled :: "world \<Rightarrow> world \<Rightarrow> bool" where
  "dialled w w' \<longleftrightarrow> rdpRooms w' = rdpRooms w \<and> clients w' = clients w \<and> trace w' = trace w \<and>
     length (session_heap w) \<le> length (session_heap w') \<and>
     (\<forall>k v. SessionData_Get w' k = Some v \<longrightarrow> SessionData_Get w k = Some v \<or> typed_value (length (session_heap w')) v)"

lemma dialled_refl [simp]: "dialled w w"
  by (simp add: dialled_def)

lemma DemoDoConnect_dialled:
  assumes "DemoDoConnect env cenv req w = Some (r, w')"
  shows "dialled w w'"
proof -
  have n: "dialled w w'" if "connect_new cenv req q w = Some (r, w')" for q
  proof (cases "new_session cenv req q")
    case (Some s)
    from connect_new_result [OF that Some] obtain addr where c: "rdpRooms w' = rdpRooms w" "clients w' = clients w"
      "trace w' = trace w" "session_of w' (new_uuid cenv) = Some (length (session_heap w))"
      "session_heap w' = session_heap w @ [s\<lparr>GuacdAddr := addr\<rparr>]"
      "\<And>k. k \<noteq> new_uuid cenv \<Longrightarrow> SessionData_Get w' k = SessionData_Get w k" by blast
    have new: "SessionData_Get w' (new_uuid cenv) = Some (SessionPtr (length (session_heap w)))"
      using c(4) by (simp add: session_of_def split: option.splits store_value.splits)
    have "SessionData_Get w k = Some v \<or> typed_value (length (session_heap w')) v" if v: "SessionData_Get w' k = Some v" for k v
    proof (cases "k = new_uuid cenv")
      case True
      with v new have "v = SessionPtr (length (session_heap w))" by simp
      with c(5) show ?thesis by (simp add: typed_value_def)
    next
      case False
      with c(6) v show ?thesis by simp
    qed
    with c show ?thesis by (simp add: dialled_def)
  qed (use that in \<open>simp add: connect_new_def\<close>)
  from assms show ?thesis
    by (auto simp: DemoDoConnect_def Let_def split: sum.splits if_splits dest: n connect_join_result)
qed

lemma callback_dialled: "dialled w (snd (callback env cenv req w))"
  by (auto simp: callback_def dest: DemoDoConnect_dialled split: option.split outcome.split prod.split)

lemma world_inv_dialled:
  assumes "world_inv cs w" and "dialled w w'"
  shows "world_inv cs w'"
proof -
  have "rooms_inv w'" using assms rooms_inv_cong [of w' w] by (simp add: world_inv_def dialled_def)
  moreover have "typed_world w'"
    unfolding typed_world_def
  proof (intro conjI allI impI ballI)
    have t: "typed_world w" and d: "length (session_heap w) \<le> length (session_heap w')"
      using assms by (simp_all add: world_inv_def dialled_def)
    show "typed_value (length (session_heap w')) v" if "SessionData_Get w' k = Some v" for k v
      using that t d assms(2) typed_value_mono unfolding dialled_def typed_world_def by blast
    show "typed_effect (length (session_heap w')) e" if "e \<in> set (trace w')" for e
      using that t d assms(2) typed_effect_mono unfolding dialled_def typed_world_def by metis
  qed
  moreover have "members_live cs w'"
    using assms by (simp add: world_inv_def dialled_def members_live_def GetRdpSessionRoom_def)
  ultimately show ?thesis using assms typed_conn_mono [of w _ w'] by (auto simp: world_inv_def dialled_def)
qed

section \<open>Entering and leaving a room\<close>

text \<open>The users of the rooms after \<open>w\<close>, or the one that was let in.\<close>

definition lets_in :: "world \<Rightarrow> world \<Rightarrow> string \<Rightarrow> string \<Rightarrow> nat \<Rightarrow> bool" where
  "lets_in w w' sid u a \<longleftrightarrow> (\<forall>sid' r' u' a'. GetRdpSessionRoom w' sid' = Some r' \<longrightarrow> map_of (Users r') u' = Some a' \<longrightarrow>
     (\<exists>r. GetRdpSessionRoom w sid' = Some r \<and> map_of (Users r) u' = Some a') \<or> (sid' = sid \<and> u' = u \<and> a' = a))"

definition grows :: "world \<Rightarrow> world \<Rightarrow> bool" where
  "grows w w' \<longleftrightarrow> length (clients w) \<le> length (clients w') \<and> session_heap w' = session_heap w \<and>
     SessionData_Get w' = SessionData_Get w \<and> emitted w w'"

lemma NewRdpSessionRoom_grows:
  assumes "NewRdpSessionRoom sid user ws cid share app info (emit [DbSaveActiveRdpSession x y, KvPut i j] w) = (a, w')"
  shows "grows w w' \<and> a = length (clients w) \<and> a < length (clients w') \<and> lets_in w w' sid user a"
  using assms
  by (auto simp: NewRdpSessionRoom_def alloc_client_def Let_def grows_def lets_in_def emitted_def rooms.get_put
      SessionData_Get_def fun_eq_iff split: if_splits)

lemma JoinRoom_grows:
  assumes "JoinRoom env sid user ws permissions w = (r, w')"
  shows "(\<forall>a. r = Val a \<longrightarrow> grows w w' \<and> a = length (clients w) \<and> a < length (clients w') \<and> lets_in w w' sid user a) \<and>
    (\<forall>e. r = Fail e \<longrightarrow> w' = w) \<and> r \<noteq> Panic"
proof (cases "GetRdpSessionRoom w sid")
  case (Some room)
  have typed: "typed_effect n e \<and> \<not> rdp_count e" if "e \<in> set (send_effects w0 ks us ins)" for n e w0 ks us ins
    using that by (auto simp: send_effects_def set_map_filter_keys)
  show ?thesis
    using assms Some
    by (auto simp: JoinRoom_def room_join_def alloc_client_def Let_def send_all_emit grows_def lets_in_def emitted_def
        rooms.get_put go_map_simps SessionData_Get_def fun_eq_iff dest: typed split: if_splits)
qed (use assms in \<open>auto simp: JoinRoom_def\<close>)

lemma grows_emit: "grows w w' \<Longrightarrow> (\<And>e. e \<in> set es \<Longrightarrow> typed_effect (length (session_heap w)) e \<and> \<not> rdp_count e) \<Longrightarrow>
    grows w (emit es w')"
  by (auto simp: grows_def emitted_def fun_eq_iff)

lemma lets_in_emit [simp]: "lets_in w (emit es w') = lets_in w w'"
  by (simp add: lets_in_def fun_eq_iff)

text \<open>The connection the handler goes on with, or what it leaves in the room when it panics.\<close>

fun entered_as :: "ws_request \<Rightarrow> string \<times> string \<Rightarrow> tunnel_info \<Rightarrow> world \<Rightarrow> (string, ws_connection) outcome \<Rightarrow> ws_connection option" where
  "entered_as req t tun w (Val con) = Some con"
| "entered_as req t tun w (Fail e) = None"
| "entered_as req t tun w Panic = Some \<lparr>con_client = length (clients w), con_session = fst t, con_ses = None,
     con_user = userId req, con_tunnel = tun\<rparr>"

lemma enter_room_grows:
  assumes "enter_room env req k t tun sharing w = (r, w')" and "typed_world w"
  shows "case entered_as req t tun w r of
      None \<Rightarrow> w' = w
    | Some con \<Rightarrow> grows w w' \<and> con_client con < length (clients w') \<and> con_tunnel con = tun \<and> con_user con = userId req \<and>
        (\<forall>q. con_ses con = Some q \<longrightarrow> q < length (session_heap w')) \<and>
        lets_in w w' (con_session con) (con_user con) (con_client con)"
proof -
  have s: "p < length (session_heap w)" if "session_of w k = Some p" for k p
    using typed_session_of [OF assms(2) that] .
  obtain share permissions where t: "t = (share, permissions)" by fastforce
  show ?thesis
  proof (cases "share = []")
    case True
    obtain a w2 where n: "NewRdpSessionRoom (tun_UUID tun) (userId req) k (tun_ConnectionID tun) sharing (appId req) (tun_LoggingInfo tun)
        (emit [DbSaveActiveRdpSession (tun_UUID tun) (userId req), KvPut (''guac-'' @ tun_UUID tun) (guac_ip env @ '':4567'')] w) = (a, w2)"
      by fastforce
    from NewRdpSessionRoom_grows [OF this] assms(1) s True show ?thesis
      by (auto simp: enter_room_def Let_def t n [simplified] grows_def)
  next
    case False
    obtain q w1 where j: "JoinRoom env share (userId req) k permissions w = (q, w1)" by fastforce
    note g = JoinRoom_grows [OF j]
    show ?thesis
    proof (cases q)
      case (Val a)
      with g have a: "grows w w1" "a = length (clients w)" "a < length (clients w1)" "lets_in w w1 share (userId req) a" by auto
      then have eq: "session_of w1 share = session_of w share" "session_heap w1 = session_heap w" by (simp_all add: grows_def session_of_def)
      show ?thesis
      proof (cases "session_of w share")
        case (Some p)
        from s [OF this] a have "grows w (emit [GoSendEvent ''join'' (join_action (ses_at w1 p) p req)] w1)"
          by (intro grows_emit) (simp_all add: typed_session_def join_action_def)
        with a assms(1) s False Val Some show ?thesis by (auto simp: enter_room_def Let_def t j eq)
      qed (use a assms(1) False Val in \<open>auto simp: enter_room_def Let_def t j eq\<close>)
    qed (use g assms(1) False in \<open>auto simp: enter_room_def Let_def t j\<close>)
  qed
qed

lemma world_inv_grows:
  assumes i: "world_inv cs w" and g: "grows w w'" and "rooms_inv w'" and l: "lets_in w w' sid u a"
    and k: "k < length cs" "holds c sid u a" "typed_conn w' c" "\<And>sid u a. \<not> holds (cs ! k) sid u a"
  shows "world_inv (cs[k := c]) w'"
proof -
  have "typed_world w'"
    using i g typed_effect_mono [of "length (session_heap w)" _ "length (session_heap w')"]
    by (auto simp: world_inv_def grows_def emitted_def typed_world_def)
  moreover have "\<forall>x\<in>set cs. typed_conn w' x"
    using i g typed_conn_mono [of w _ w'] by (auto simp: world_inv_def grows_def)
  then have "\<forall>x\<in>set (cs[k := c]). typed_conn w' x"
    using k(3) set_update_subset_insert [of cs k c] by auto
  moreover have "members_live (cs[k := c]) w'"
    unfolding members_live_def
  proof (intro allI impI)
    fix sid' r' u' a' assume "GetRdpSessionRoom w' sid' = Some r'" "map_of (Users r') u' = Some a'"
    with l i consider j where "j < length cs" "holds (cs ! j) sid' u' a'" | "sid' = sid" "u' = u" "a' = a"
      unfolding lets_in_def world_inv_def members_live_def by blast
    then show "\<exists>j<length (cs[k := c]). holds (cs[k := c] ! j) sid' u' a'"
    proof cases
      case (1 j)
      then have "j \<noteq> k" using k(4) by auto
      with 1 show ?thesis by (intro exI [of _ j]) simp
    qed (use k in \<open>intro exI [of _ k], simp\<close>)
  qed
  ultimately show ?thesis using assms(3) by (simp add: world_inv_def)
qed

text \<open>The one who leaves is in the room no more.\<close>

lemma LeaveRoom_removes:
  assumes "LeaveRoom env (Some p) sid user ip pip w = (q, w')" and "GetRdpSessionRoom w' sid = Some r'" and "rooms_inv w"
  shows "map_of (Users r') user = None"
proof (cases "GetRdpSessionRoom w sid")
  case None
  with assms(1,2) show ?thesis by (auto simp: LeaveRoom_def Let_def split: if_splits)
next
  case (Some r)
  let ?room = "room_leave user r"
  let ?w1 = "put_room sid ?room (if user \<noteq> Email (ses_at w p)
    then emit [LogAction (leave_action (ses_at w p) p user ip pip)] w else w)"
  have sid: "SessionId ?room = sid" using rooms_inv_room [OF assms(3) Some] by (simp add: room_ok_def)
  have "r' = ?room" if "w' = emit es ?w1" for es
    using that assms(2) by (simp add: rooms.get_put)
  moreover have False if "closeRoom env ?room (emit es ?w1) = (q, w')" for es
    using closeRoom_fields [OF that] assms(2) sid by (simp add: GetRdpSessionRoom_def go_map_simps)
  ultimately have "r' = ?room"
    using assms(1) unfolding LeaveRoom_eq [OF Some] Let_def by (auto split: if_splits)
  then show ?thesis by (simp add: room_leave_def go_map_simps)
qed

lemma ws_close_step:
  assumes i: "world_inv cs w" and k: "k < length cs" and c: "cn_con (cs ! k) = Some con" and e: "env_ok env"
    and x: "ws_close env con w = (r, w')"
  shows "world_inv (cs[k := (cs ! k)\<lparr>cn_phase := Leaving, cn_panicked := (r = Panic)\<rparr>]) w'"
proof -
  let ?info = "tun_LoggingInfo (con_tunnel con)"
  let ?c = "(cs ! k)\<lparr>cn_phase := Leaving, cn_panicked := (r = Panic)\<rparr>"
  obtain w1 where l: "LeaveRoom env (con_ses con) (con_session con) (con_user con) (li_ClientIp ?info)
      (li_ClientPrivateIp ?info) w = (r, w1)" and w': "w' = emit [RdpCount (li_TenantId ?info) (- 1)] w1"
    using x by (auto simp: ws_close_def Let_def split: prod.splits)
  have t: "typed_conn w (cs ! k)" and ri: "rooms_inv w" and ml: "members_live cs w" and tw: "typed_world w"
    using i k by (auto simp: world_inv_def)
  have "keeps w w1"
    using LeaveRoom_keeps [OF tw, of "con_ses con"] t c l by (metis snd_conv typed_conn_def)
  moreover have "rooms_inv w1" using LeaveRoom_inv [OF ri] l by (metis snd_conv)
  ultimately have i1: "world_inv cs w1" and fu: "fewer_users w w1"
    using world_inv_keeps [OF i] by (auto simp: keeps_def)
  have "typed_conn w1 ?c"
    using i1 k c by (auto simp: world_inv_def typed_conn_def early_def dest: bspec [OF _ nth_mem [OF k]])
  then have "\<forall>y\<in>set (cs[k := ?c]). typed_conn w1 y"
    using i1 set_update_subset_insert [of cs k ?c] by (auto simp: world_inv_def)
  moreover have "members_live (cs[k := ?c]) w1"
    unfolding members_live_def
  proof (intro allI impI)
    fix sid r' u a assume g: "GetRdpSessionRoom w1 sid = Some r'" "map_of (Users r') u = Some a"
    then obtain j where j: "j < length cs" "holds (cs ! j) sid u a"
      using i1 unfolding world_inv_def members_live_def by blast
    show "\<exists>j<length (cs[k := ?c]). holds (cs[k := ?c] ! j) sid u a"
    proof (cases "j = k")
      case True
      with j c have "con_session con = sid" "con_user con = u" by (auto simp: holds_def)
      with g l LeaveRoom_removes [of env _ sid u _ _ w r w1 r'] ri have "con_ses con = None"
        by (cases "con_ses con") auto
      with l have "r = Panic" by (simp add: LeaveRoom_def)
      with True j k show ?thesis by (intro exI [of _ k]) (auto simp: holds_def)
    qed (use j in \<open>intro exI [of _ j], simp\<close>)
  qed
  ultimately have "world_inv (cs[k := ?c]) w1" using i1 by (simp add: world_inv_def)
  then show ?thesis unfolding w' by (rule world_inv_emit) simp
qed

section \<open>The steps, for the world\<close>

lemma typed_conn_update:
  assumes "world_inv cs w" and "k < length cs"
  shows "typed_conn w (cs ! k)"
  using assms by (simp add: world_inv_def)

definition proc_world :: "process \<Rightarrow> bool" where
  "proc_world p \<longleftrightarrow> world_inv (conns p) (server_world p)"

text \<open>Nothing happened to the world and the connections, or only the phase of a connection changed.\<close>

lemma proc_world_cong: "conns p' = conns p \<Longrightarrow> server_world p' = server_world p \<Longrightarrow> proc_world p \<Longrightarrow> proc_world p'"
  by (simp add: proc_world_def)

lemma proc_world_keeps: "proc_world p \<Longrightarrow> keeps (server_world p) (server_world p') \<Longrightarrow> rooms_inv (server_world p') \<Longrightarrow>
    conns p' = conns p \<Longrightarrow> proc_world p'"
  unfolding proc_world_def using world_inv_keeps by metis

lemma proc_world_conn:
  assumes "proc_world p" and "k < length (conns p)" and "conns p' = (conns p)[k := c]" and "server_world p' = server_world p"
    and "cn_con c = cn_con (conns p ! k)" and "cn_relay c = cn_relay (conns p ! k)"
    and "cn_request c = cn_request (conns p ! k)"
    and "cn_panicked (conns p ! k) \<longrightarrow> cn_panicked c"
    and "cn_phase c \<noteq> Entered" and "cn_phase (conns p ! k) \<noteq> Entered"
    and "cn_phase c \<in> early \<Longrightarrow> cn_phase (conns p ! k) \<in> early"
  shows "proc_world p'"
proof -
  have "typed_conn (server_world p) (conns p ! k)"
    by (rule typed_conn_update [OF _ assms(2)]) (use assms(1) in \<open>simp add: proc_world_def\<close>)
  then have "typed_conn (server_world p) c" using assms(5-7,9-11) unfolding typed_conn_def by metis
  from world_inv_conn [OF _ assms(2) this] assms show ?thesis by (auto simp: proc_world_def holds_def)
qed

lemma emit_world: "proc_world p \<Longrightarrow> (\<And>e. e \<in> set es \<Longrightarrow> typed_effect (length (session_heap (server_world p))) e) \<Longrightarrow>
    proc_world (p\<lparr>server_world := emit es (server_world p)\<rparr>)"
  by (simp add: proc_world_def world_inv_emit)

lemma upgrade_world: "proc_world p \<Longrightarrow> proc_world (ws_upgrade ok r p)"
proof -
  have "members_live (cs @ [c]) w" if "members_live cs w" for cs c w
    unfolding members_live_def
  proof (intro allI impI)
    fix sid r u a assume "GetRdpSessionRoom w sid = Some r" "map_of (Users r) u = Some a"
    with that obtain k where "k < length cs" "holds (cs ! k) sid u a" unfolding members_live_def by blast
    then show "\<exists>k<length (cs @ [c]). holds ((cs @ [c]) ! k) sid u a" by (intro exI [of _ k]) (simp add: nth_append)
  qed
  then show "proc_world p \<Longrightarrow> proc_world (ws_upgrade ok r p)"
    by (auto simp: proc_world_def ws_upgrade_def world_inv_def typed_conn_def new_conn_def)
qed

text \<open>The same with a changed world, which keeps the invariant.\<close>

lemma world_update: "world_inv (conns p) w \<Longrightarrow> proc_world (p\<lparr>server_world := w\<rparr>)"
  by (simp add: proc_world_def)

lemmas conn_steps = ws_authorise_def ws_connect_def ws_on_connect_def ws_query_app_def ws_make_channel_def ws_add_channel_def ws_first_policy_def
  ws_remove_channel_def ws_on_disconnect_def put_conn_def at_phase_def early_def Let_def

lemma authorise_world: "proc_world p \<Longrightarrow> at_phase Upgraded k p \<Longrightarrow> proc_world (ws_authorise env k p)"
  by (auto simp: conn_steps split: option.split intro: proc_world_conn [where p = p and k = k])

lemma on_connect_world: "proc_world p \<Longrightarrow> at_phase Tunnelled k p \<Longrightarrow> proc_world (ws_on_connect k p)"
  by (auto simp: conn_steps intro: proc_world_conn [where p = p and k = k])

lemma query_app_world: "proc_world p \<Longrightarrow> at_phase Counted k p \<Longrightarrow> proc_world (ws_query_app env k p)"
  by (auto simp: conn_steps split: option.split intro: proc_world_conn [where p = p and k = k])

lemma make_channel_world: "proc_world p \<Longrightarrow> at_phase Queried k p \<Longrightarrow> proc_world (ws_make_channel i k p)"
  by (auto simp: conn_steps split: prod.split intro: proc_world_conn [where p = p and k = k])

lemma add_channel_world: "proc_world p \<Longrightarrow> at_phase Listed k p \<Longrightarrow> proc_world (ws_add_channel k p)"
  by (auto simp: conn_steps intro: proc_world_conn [where p = p and k = k])

lemma remove_channel_world: "proc_world p \<Longrightarrow> at_phase Leaving k p \<Longrightarrow> proc_world (ws_remove_channel k p)"
  by (auto simp: conn_steps intro: proc_world_conn [where p = p and k = k])

lemma on_disconnect_world: "proc_world p \<Longrightarrow> at_phase Unregistered k p \<Longrightarrow> proc_world (ws_on_disconnect k p)"
  by (auto simp: conn_steps intro: proc_world_conn [where p = p and k = k])

lemma connect_world:
  assumes "proc_world p" and "at_phase Authorised k p"
  shows "proc_world (ws_connect env cenv k p)"
proof -
  obtain r w where c: "callback env cenv (cn_request (conns p ! k)) (server_world p) = (r, w)" by fastforce
  have "dialled (server_world p) w" using callback_dialled [of "server_world p" env cenv] c by (metis snd_conv)
  then have "proc_world (p\<lparr>server_world := w\<rparr>)"
    using world_inv_dialled assms(1) by (simp add: proc_world_def)
  from proc_world_conn [OF this, of k] assms(2) c show ?thesis
    by (auto simp: conn_steps split: outcome.split)
qed

lemma ws_enter_world:
  assumes p: "proc_world p" and "at_phase Registered k p" and "env_ok env"
  shows "proc_world (ws_enter env k p)"
proof -
  let ?c = "conns p ! k" and ?w = "server_world p"
  have k: "k < length (conns p)" "cn_phase ?c = Registered" using assms(2) by (simp_all add: at_phase_def)
  have i: "world_inv (conns p) ?w" using p by (simp add: proc_world_def)
  then have tw: "typed_world ?w" and ri: "rooms_inv ?w" by (simp_all add: world_inv_def)
  have none: "cn_con ?c = None" "\<not> cn_relay ?c"
    using typed_conn_update [OF i k(1)] k(2) by (auto simp: typed_conn_def early_def)
  obtain r w1 where e: "enter_room env (cn_req ?c) k (cn_target ?c) (cn_tunnel ?c) (cn_sharing ?c) ?w = (r, w1)" by fastforce
  have ri1: "rooms_inv w1" using enter_room_inv [OF ri, of env "cn_req ?c" k "cn_target ?c" "cn_tunnel ?c" "cn_sharing ?c"] e by simp
  note g = enter_room_grows [OF e tw]
  have new: "world_inv ((conns p)[k := c]) w1"
    if "entered_as (cn_req ?c) (cn_target ?c) (cn_tunnel ?c) ?w r = Some con" and "cn_con c = Some con"
      and "cn_phase c = Entered \<or> cn_panicked c" and "cn_phase c \<notin> early" and "cn_request c = cn_request ?c" for c con
  proof (rule world_inv_grows [OF i _ ri1 _ k(1)])
    show "grows ?w w1" and "lets_in ?w w1 (con_session con) (con_user con) (con_client con)"
      using g unfolding that(1) option.case by blast+
    show "holds c (con_session con) (con_user con) (con_client con)" using that by (simp add: holds_def)
    show "typed_conn w1 c" using that g by (simp add: typed_conn_def)
    show "\<not> holds ?c sid u a" for sid u a using none by (simp add: holds_def)
  qed
  show ?thesis
  proof (cases r)
    case (Val con)
    let ?c' = "?c\<lparr>cn_phase := Entered, cn_con := Some con, cn_relay := True\<rparr>"
    have "world_inv ((conns p)[k := ?c']) w1" by (rule new) (simp_all add: Val early_def)
    then have "world_inv ((conns p)[k := ?c']) (emit [RdpCount (tenant_of ?c) 1] w1)" by (rule world_inv_emit) simp
    then have "world_inv ((conns p)[k := ?c']) (SendPermission (con_client con) (emit [RdpCount (tenant_of ?c) 1] w1))"
      unfolding SendPermission_def WriteMessage_def Let_def by (rule world_inv_emit) simp
    then show ?thesis by (simp add: proc_world_def ws_enter_def e Val put_conn_def Let_def)
  next
    case (Fail x)
    have "world_inv ((conns p)[k := ?c\<lparr>cn_phase := Leaving\<rparr>]) ?w"
      by (rule world_inv_conn [OF i k(1)])
        (use none typed_conn_update [OF i k(1)] in \<open>auto simp: typed_conn_def holds_def early_def\<close>)
    then show ?thesis using g by (simp add: proc_world_def ws_enter_def e Fail put_conn_def Let_def)
  next
    case Panic
    show ?thesis using new by (simp add: proc_world_def ws_enter_def e Panic put_conn_def Let_def early_def)
  qed
qed

lemma ws_panics_world:
  assumes p: "proc_world p" and "at_phase Entered k p"
  shows "proc_world (ws_panics k p)"
proof -
  have i: "world_inv (conns p) (server_world p)" and k: "k < length (conns p)" "cn_phase (conns p ! k) = Entered"
    using assms by (simp_all add: at_phase_def proc_world_def)
  have "world_inv ((conns p)[k := (conns p ! k)\<lparr>cn_phase := Leaving, cn_panicked := True\<rparr>]) (server_world p)"
    by (rule world_inv_conn [OF i k(1)])
      (use typed_conn_update [OF i k(1)] k(2) in \<open>auto simp: typed_conn_def holds_def early_def\<close>)
  from world_inv_emit [OF this, of "[RdpCount (tenant_of (conns p ! k)) (- 1)]"] show ?thesis
    by (simp add: proc_world_def ws_panics_def put_conn_def Let_def)
qed

lemma ws_receives_world:
  assumes p: "proc_world p" and "env_ok env"
  shows "proc_world (ws_receives env k data p)"
proof (cases "cn_con (conns p ! k)")
  case (Some con)
  have ri: "rooms_inv (server_world p)" and tw: "typed_world (server_world p)"
    using p by (simp_all add: proc_world_def world_inv_def)
  obtain r w where m: "ws_message env (con_client con) (con_session con) data (server_world p) = (r, w)" by fastforce
  have "keeps (server_world p) w" using ws_message_keeps [OF tw] m by (metis snd_conv)
  moreover have "rooms_inv w" using ws_message_inv [OF assms(2) ri] m by (metis snd_conv)
  ultimately have "world_inv (conns p) w" using p world_inv_keeps by (simp add: proc_world_def)
  then show ?thesis by (cases r) (simp_all add: ws_receives_def Some m proc_world_def)
qed (use p in \<open>simp add: ws_receives_def\<close>)

lemma ws_server_info_world:
  assumes p: "proc_world p" and at: "at_phase Entered k p"
  shows "proc_world (ws_server_info k ins p)"
proof (cases "cn_con (conns p ! k)")
  case (Some con)
  have i: "world_inv (conns p) (server_world p)" and k: "k < length (conns p)" and ri: "rooms_inv (server_world p)"
    using p at by (simp_all add: proc_world_def at_phase_def world_inv_def)
  obtain r w where m: "server_info (con_ses con) ins (server_world p) = (r, w)" by fastforce
  have "keeps (server_world p) w"
    using server_info_keeps [of "con_ses con"] typed_conn_update [OF i k] Some m by (metis snd_conv typed_conn_def)
  moreover have "rooms_inv w" using server_info_inv [OF ri] m by (metis snd_conv)
  ultimately have "proc_world (p\<lparr>server_world := w\<rparr>)" using i world_inv_keeps by (simp add: proc_world_def)
  with ws_panics_world [OF this, of k] at show ?thesis
    by (cases r) (simp_all add: ws_server_info_def Some m at_phase_def)
qed (use p in \<open>simp add: ws_server_info_def\<close>)

lemma ws_leave_world:
  assumes p: "proc_world p" and "at_phase Entered k p" and "env_ok env"
  shows "proc_world (ws_leave env k p)"
proof (cases "cn_con (conns p ! k)")
  case (Some con)
  obtain r w where "ws_close env con (server_world p) = (r, w)" by fastforce
  with ws_close_step [OF _ _ Some assms(3) this] assms Some show ?thesis
    by (simp add: proc_world_def at_phase_def ws_leave_def put_conn_def Let_def)
qed (use p in \<open>simp add: ws_leave_def\<close>)

lemma BroadCastPolicy_world:
  "proc_world p \<Longrightarrow> proc_world (p\<lparr>server_world := BroadCastPolicy k sharing actions (server_world p)\<rparr>)"
  by (auto simp: BroadCastPolicy_def intro: emit_world split: option.split)

lemma policy_world:
  assumes "proc_world p"
  shows "proc_world (ws_policy actions k p)"
  using BroadCastPolicy_world [OF assms, of k _ actions] assms
  by (auto simp: ws_policy_def Let_def proc_world_def split: list.split)

lemma first_policy_world:
  assumes "proc_world p" and "k < length (conns p)"
  shows "proc_world (ws_first_policy actions k p)"
proof -
  let ?sharing = "cn_sharing (conns p ! k)"
  have i: "world_inv (conns p) (BroadCastPolicy k ?sharing actions (server_world p))"
    using BroadCastPolicy_world [OF assms(1), of k ?sharing actions] by (simp add: proc_world_def)
  have "world_inv ((conns p)[k := (conns p ! k)\<lparr>cn_told := True\<rparr>]) (BroadCastPolicy k ?sharing actions (server_world p))"
    by (rule world_inv_conn [OF i assms(2)])
      (use typed_conn_update [OF i assms(2)] in \<open>auto simp: typed_conn_def holds_def\<close>)
  then show ?thesis by (simp add: proc_world_def ws_first_policy_def put_conn_def)
qed

text \<open>An event that was started has its session, so it is logged.\<close>

lemma SendEvent_typed:
  assumes "typed_session n (act_Session a)"
  shows "\<exists>a'. SendEvent env action a w = (Val (), emit [LogAction a'] w) \<and> act_Session a' = act_Session a"
  using assms by (auto simp: SendEvent_def Log_def typed_session_def Let_def split: option.split)

lemma sendBlockEvent_typed: "\<exists>a'. sendBlockEvent env b w = (Val (), emit [LogAction a'] w) \<and> act_Session a' = Some (be_Session b)"
  by (simp add: sendBlockEvent_def Log_def Let_def split: prod.split) (intro allI impI exI conjI, rule refl, simp)

lemma run_event_typed:
  assumes "typed_world (server_world p)" and "i < length (trace (server_world p))"
  obtains es where "run_event env i p = p\<lparr>server_world := emit es (server_world p), ran := insert i (ran p)\<rparr>"
    and "\<And>e. e \<in> set es \<Longrightarrow> typed_effect (length (session_heap (server_world p))) e \<and> \<not> rdp_count e"
proof -
  let ?w = "server_world p"
  have t: "typed_effect (length (session_heap ?w)) (trace ?w ! i)" using assms by (simp add: typed_world_def)
  have no: "run_event env i p = p\<lparr>server_world := emit [] ?w, ran := insert i (ran p)\<rparr>"
    if "\<not> (\<exists>k a. trace ?w ! i = GoSendEvent k a)" "\<not> (\<exists>b. trace ?w ! i = GoSendBlockEvent b)"
    using that by (auto simp: run_event_def emit_Nil split: effect.split)
  consider k a where "trace ?w ! i = GoSendEvent k a" | b where "trace ?w ! i = GoSendBlockEvent b"
    | "\<not> (\<exists>k a. trace ?w ! i = GoSendEvent k a)" "\<not> (\<exists>b. trace ?w ! i = GoSendBlockEvent b)" by blast
  then show thesis
  proof cases
    case (1 k a)
    with t SendEvent_typed [of "length (session_heap ?w)" a env k ?w] obtain a' where
      "SendEvent env k a ?w = (Val (), emit [LogAction a'] ?w)" "act_Session a' = act_Session a" by auto
    with 1 t that [of "[LogAction a']"] show thesis by (simp add: run_event_def)
  next
    case (2 b)
    with t sendBlockEvent_typed [of env b ?w] obtain a' where
      "sendBlockEvent env b ?w = (Val (), emit [LogAction a'] ?w)" "act_Session a' = Some (be_Session b)" by auto
    with 2 t that [of "[LogAction a']"] show thesis by (simp add: run_event_def typed_session_def)
  next
    case 3
    from that [OF no [OF this]] show thesis by simp
  qed
qed

lemma run_event_world:
  assumes "proc_world p" and "i < length (trace (server_world p))"
  shows "proc_world (run_event env i p)"
proof -
  have "typed_world (server_world p)" using assms(1) by (simp add: proc_world_def world_inv_def)
  from run_event_typed [OF this assms(2), of env] emit_world [OF assms(1)] show ?thesis
    by (metis proc_world_cong process.update_convs(3) process.select_convs(1) process.surjective server.select_convs(1))
qed

lemma feed_world: "proc_world p \<Longrightarrow> proc_world (feed_moves e p)"
  by (simp add: feed_moves_def proc_world_def split: feed_result.split)

lemma http_opens_world:
  assumes "proc_world p"
  shows "proc_world (http_opens env cenv req p)"
proof -
  have "world_inv (conns p) w" if "DemoDoConnect env cenv req (server_world p) = Some (r, w)" for r w
    using world_inv_dialled [OF _ DemoDoConnect_dialled [OF that]] assms by (simp add: proc_world_def)
  with assms show ?thesis
    by (auto simp: http_opens_def proc_world_def Let_def split: option.split outcome.split)
qed

lemma moves_world: "moves p p' \<Longrightarrow> proc_world p \<Longrightarrow> proc_world p'"
proof (induction rule: moves.induct)
  case (relays k p bs)
  then show ?case unfolding ws_relays_def by (intro emit_world) simp_all
qed (simp_all add: upgrade_world authorise_world connect_world on_connect_world query_app_world
    make_channel_world add_channel_world ws_enter_world
    ws_receives_world ws_server_info_world ws_panics_world first_policy_world policy_world ws_leave_world
    remove_channel_world on_disconnect_world feed_world run_event_world http_opens_world
    proc_world_cong [where p' = "p\<lparr>http := h\<rparr>" for p h] proc_world_cong [where p' = "p\<lparr>proc_status := st\<rparr>" for p st])

end
