(* ===== verification/ProcessCounts.thy ===== *)
theory ProcessCounts
  imports ProcessInv
begin

text \<open>
  The channels and the counters of the process of \<open>Process\<close>: the channel lists hold the
  registered connections, what the policy goroutine has left to send to is open, the session
  store counts the connections, and the gauge \<open>active_rdp_count\<close> those in a room.
\<close>

section \<open>The channels\<close>

definition in_channel :: "conn \<Rightarrow> bool" where
  "in_channel c \<longleftrightarrow> has_channel (cn_req c) \<and> cn_phase c \<in> {Listed, Registered, Entered, Leaving}"

text \<open>Between the two steps of registering, the channel is told of the user only.\<close>

definition open_channel :: "conn \<Rightarrow> open_conn" where
  "open_channel c =
     \<lparr>oc_app = (if cn_phase c = Listed then userId (cn_req c) else appId (cn_req c)), oc_user = userId (cn_req c),
      oc_id = fst (cn_chan c), oc_chan = snd (cn_chan c)\<rparr>"

definition open_channels :: "conn list \<Rightarrow> open_conn set" where
  "open_channels cs = {open_channel (cs ! k) |k. k < length cs \<and> in_channel (cs ! k)}"

definition channels_inv :: "conn list \<Rightarrow> feed \<Rightarrow> ChannelManagement \<Rightarrow> bool" where
  "channels_inv cs f cm \<longleftrightarrow> cm_inv (cm, open_channels cs) \<and> feed_ok f (open_channels cs) \<and>
     (\<forall>j<length cs. \<forall>k<length cs. in_channel (cs ! j) \<longrightarrow> in_channel (cs ! k) \<longrightarrow>
        fst (cn_chan (cs ! j)) = fst (cn_chan (cs ! k)) \<longrightarrow> j = k)"

definition proc_channels :: "process \<Rightarrow> bool" where
  "proc_channels p \<longleftrightarrow> channels_inv (conns p) (feed p) (channelManagement p)"

lemma open_channels_append: "\<not> in_channel c \<Longrightarrow> open_channels (cs @ [c]) = open_channels cs"
  unfolding open_channels_def by (auto simp: nth_append less_Suc_eq)

lemma open_channels_same:
  assumes "k < length cs" and "in_channel c = in_channel (cs ! k)" and "in_channel c \<Longrightarrow> open_channel c = open_channel (cs ! k)"
  shows "open_channels (cs[k := c]) = open_channels cs"
proof -
  have "in_channel (cs[k := c] ! j) = in_channel (cs ! j)"
    and "in_channel (cs ! j) \<Longrightarrow> open_channel (cs[k := c] ! j) = open_channel (cs ! j)" for j
    using assms by (cases "j = k"; simp)+
  then show ?thesis unfolding open_channels_def by (simp cong: conj_cong) (metis (no_types, lifting))
qed

lemma open_channels_new:
  assumes "k < length cs" and "\<not> in_channel (cs ! k)" and "in_channel c"
  shows "open_channels (cs[k := c]) = insert (open_channel c) (open_channels cs)"
proof -
  have o: "j \<noteq> k" if "in_channel (cs ! j)" for j using that assms(2) by auto
  show ?thesis
  proof (intro set_eqI iffI)
    fix x assume "x \<in> open_channels (cs[k := c])"
    then obtain j where "x = open_channel (cs[k := c] ! j)" "j < length cs" "in_channel (cs[k := c] ! j)"
      by (auto simp: open_channels_def)
    then show "x \<in> insert (open_channel c) (open_channels cs)"
      using assms(1) by (cases "j = k") (auto simp: open_channels_def)
  next
    fix x assume "x \<in> insert (open_channel c) (open_channels cs)"
    then consider "x = open_channel c" | j where "x = open_channel (cs ! j)" "j < length cs" "in_channel (cs ! j)"
      by (auto simp: open_channels_def)
    then show "x \<in> open_channels (cs[k := c])"
    proof cases
      case 1
      with assms(1,3) show ?thesis unfolding open_channels_def by (auto intro!: exI [of _ k])
    next
      case (2 j)
      with o [OF 2(3)] show ?thesis unfolding open_channels_def by (auto intro!: exI [of _ j])
    qed
  qed
qed

lemma open_channels_gone:
  assumes "k < length cs" and "in_channel (cs ! k)" and "\<not> in_channel c"
    and u: "\<forall>i<length cs. \<forall>j<length cs. in_channel (cs ! i) \<longrightarrow> in_channel (cs ! j) \<longrightarrow>
        fst (cn_chan (cs ! i)) = fst (cn_chan (cs ! j)) \<longrightarrow> i = j"
  shows "open_channels (cs[k := c]) = open_channels cs - {open_channel (cs ! k)}"
proof -
  have n: "open_channel (cs ! j) \<noteq> open_channel (cs ! k)" if "j < length cs" "in_channel (cs ! j)" "j \<noteq> k" for j
    using u assms(1,2) that by (auto simp: open_channel_def)
  show ?thesis
  proof (intro set_eqI iffI)
    fix x assume "x \<in> open_channels (cs[k := c])"
    then obtain j where "x = open_channel (cs[k := c] ! j)" "j < length cs" "in_channel (cs[k := c] ! j)"
      by (auto simp: open_channels_def)
    with assms(1,3) n show "x \<in> open_channels cs - {open_channel (cs ! k)}"
      by (cases "j = k") (auto simp: open_channels_def)
  next
    fix x assume "x \<in> open_channels cs - {open_channel (cs ! k)}"
    then obtain j where j: "x = open_channel (cs ! j)" "j < length cs" "in_channel (cs ! j)" "j \<noteq> k"
      by (auto simp: open_channels_def)
    then show "x \<in> open_channels (cs[k := c])" unfolding open_channels_def by (auto intro!: exI [of _ j])
  qed
qed

lemma channels_same:
  assumes "channels_inv cs f cm" and "k < length cs" and "in_channel c = in_channel (cs ! k)"
    and "in_channel c \<Longrightarrow> open_channel c = open_channel (cs ! k)"
  shows "channels_inv (cs[k := c]) f cm"
proof -
  have "in_channel (cs[k := c] ! j) = in_channel (cs ! j)"
    and "in_channel (cs ! j) \<Longrightarrow> fst (cn_chan (cs[k := c] ! j)) = fst (cn_chan (cs ! j))" for j
    using assms(2-4) by (cases "j = k"; simp add: open_channel_def)+
  with assms open_channels_same [OF assms(2-4)] show ?thesis by (simp add: channels_inv_def)
qed

lemma channels_added:
  assumes i: "channels_inv cs f cm" and k: "k < length cs" "\<not> in_channel (cs ! k)" "in_channel c"
    and "new_channel (userId (cn_req c)) i cm = (ch, cm')" and l: "cn_phase c = Listed"
    and "cn_chan c = (i, ch)" and n: "\<forall>c\<in>set cs. fst (cn_chan c) \<noteq> i"
  shows "channels_inv (cs[k := c]) f cm'"
proof -
  have "\<forall>x\<in>open_channels cs. oc_id x \<noteq> i" using n by (auto simp: open_channels_def open_channel_def)
  with new_channel_inv [OF _ this assms(5)] i have "cm_inv (cm', open_channels (cs[k := c]))"
    using open_channels_new [OF k] assms(7) l by (simp add: channels_inv_def open_channel_def)
  moreover have "feed_ok f (open_channels (cs[k := c]))"
    using i open_channels_new [OF k] by (auto simp: channels_inv_def feed_ok_def)
  moreover have "x = y" if "x < length cs" "y < length cs" "in_channel (cs[k := c] ! x)" "in_channel (cs[k := c] ! y)"
      "fst (cn_chan (cs[k := c] ! x)) = fst (cn_chan (cs[k := c] ! y))" for x y
    using that i n k assms(7) unfolding channels_inv_def
    by (cases "x = k"; cases "y = k") (auto dest: nth_mem)
  ultimately show ?thesis by (simp add: channels_inv_def)
qed

text \<open>The channel is listed for the application too.\<close>

lemma channels_listed:
  assumes i: "channels_inv cs f cm" and k: "k < length cs" "in_channel (cs ! k)" "cn_phase (cs ! k) = Listed" and f: "lock_free f"
    and c: "in_channel c" "cn_phase c \<noteq> Listed" "cn_request c = cn_request (cs ! k)" "cn_chan c = cn_chan (cs ! k)"
  shows "channels_inv (cs[k := c]) f
    (ChannelManagement_Add (appId (cn_req (cs ! k))) (fst (cn_chan (cs ! k))) (snd (cn_chan (cs ! k))) cm)"
proof -
  let ?x = "open_channel (cs ! k)" and ?c0 = "c\<lparr>cn_phase := Closed\<rparr>"
  have u: "\<forall>i<length cs. \<forall>j<length cs. in_channel (cs ! i) \<longrightarrow> in_channel (cs ! j) \<longrightarrow>
      fst (cn_chan (cs ! i)) = fst (cn_chan (cs ! j)) \<longrightarrow> i = j" using i by (simp add: channels_inv_def)
  have g: "open_channels (cs[k := ?c0]) = open_channels cs - {?x}"
    by (rule open_channels_gone [OF k(1,2) _ u]) (simp add: in_channel_def)
  have "open_channels (cs[k := ?c0, k := c]) = insert (open_channel c) (open_channels (cs[k := ?c0]))"
    by (rule open_channels_new) (use k(1) c(1) in \<open>simp_all add: in_channel_def\<close>)
  moreover have "open_channel c = ?x\<lparr>oc_app := appId (cn_req (cs ! k))\<rparr>" using c by (simp add: open_channel_def)
  ultimately have o: "open_channels (cs[k := c]) = insert (?x\<lparr>oc_app := appId (cn_req (cs ! k))\<rparr>) (open_channels cs - {?x})"
    using g by simp
  have "?x \<in> open_channels cs" using k by (auto simp: open_channels_def)
  from Add_inv [OF _ this, of cm "appId (cn_req (cs ! k))"] i k(3)
  have "cm_inv (ChannelManagement_Add (appId (cn_req (cs ! k))) (fst (cn_chan (cs ! k))) (snd (cn_chan (cs ! k))) cm, open_channels (cs[k := c]))"
    unfolding o by (simp add: channels_inv_def open_channel_def)
  moreover have "feed_ok f (open_channels (cs[k := c]))" using f by (cases f) (simp_all add: feed_ok_def)
  moreover have "in_channel (cs[k := c] ! j) = in_channel (cs ! j)" "fst (cn_chan (cs[k := c] ! j)) = fst (cn_chan (cs ! j))" for j
    using k(1,2) c by (cases "j = k"; simp)+
  ultimately show ?thesis using u by (simp add: channels_inv_def)
qed

lemma channels_removed:
  assumes i: "channels_inv cs f cm" and k: "k < length cs" "in_channel (cs ! k)" "\<not> in_channel c" and f: "lock_free f"
    and l: "cn_phase (cs ! k) \<noteq> Listed"
    and r: "ChannelManagement_Remove (appId (cn_req (cs ! k))) (userId (cn_req (cs ! k))) (fst (cn_chan (cs ! k))) cm = (q, cm')"
  shows "channels_inv (cs[k := c]) f cm'"
proof -
  have u: "\<forall>i<length cs. \<forall>j<length cs. in_channel (cs ! i) \<longrightarrow> in_channel (cs ! j) \<longrightarrow>
      fst (cn_chan (cs ! i)) = fst (cn_chan (cs ! j)) \<longrightarrow> i = j" using i by (simp add: channels_inv_def)
  note g = open_channels_gone [OF k u]
  have "open_channel (cs ! k) \<in> open_channels cs" using k by (auto simp: open_channels_def)
  from Remove_inv [OF _ this, of cm q cm'] i r have "cm_inv (cm', open_channels (cs[k := c]))"
    using l by (auto simp: channels_inv_def g open_channel_def)
  moreover have "feed_ok f (open_channels (cs[k := c]))" using f by (cases f) (simp_all add: feed_ok_def)
  moreover have "x = y" if "x < length cs" "y < length cs" "in_channel (cs[k := c] ! x)" "in_channel (cs[k := c] ! y)"
      "fst (cn_chan (cs[k := c] ! x)) = fst (cn_chan (cs[k := c] ! y))" for x y
  proof -
    have "x \<noteq> k" "y \<noteq> k" using that(3,4) k by auto
    with that have "in_channel (cs ! x)" "in_channel (cs ! y)" "fst (cn_chan (cs ! x)) = fst (cn_chan (cs ! y))" by simp_all
    with u that(1,2) show ?thesis by simp
  qed
  ultimately show ?thesis by (simp add: channels_inv_def)
qed

lemma proc_channels_updates [simp]:
  "proc_channels (p\<lparr>server_world := w\<rparr>) = proc_channels p" "proc_channels (p\<lparr>sessions := s\<rparr>) = proc_channels p"
  "proc_channels (p\<lparr>ran := r\<rparr>) = proc_channels p" "proc_channels (p\<lparr>http := h\<rparr>) = proc_channels p"
  "proc_channels (p\<lparr>proc_status := st\<rparr>) = proc_channels p"
  by (simp_all add: proc_channels_def)

lemma put_conn_channels:
  assumes "proc_channels p" and "k < length (conns p)" and "in_channel c = in_channel (conns p ! k)"
    and "in_channel c \<Longrightarrow> open_channel c = open_channel (conns p ! k)"
  shows "proc_channels (put_conn k c p)"
proof -
  have "conns (put_conn k c p) = (conns p)[k := c]" "feed (put_conn k c p) = feed p"
    "channelManagement (put_conn k c p) = channelManagement p" by (simp_all add: put_conn_def)
  with channels_same [OF assms(1) [unfolded proc_channels_def] assms(2-4)] show ?thesis by (simp only: proc_channels_def)
qed

lemma ws_upgrade_channels: "proc_channels p \<Longrightarrow> proc_channels (ws_upgrade ok r p)"
proof -
  assume p: "proc_channels p"
  have n: "\<not> in_channel (new_conn r)" by (simp add: in_channel_def new_conn_def)
  have "channels_inv (conns p @ [new_conn r]) (feed p) (channelManagement p)"
    using p n unfolding proc_channels_def channels_inv_def open_channels_append [OF n]
    by (auto simp: nth_append less_Suc_eq split: if_splits)
  with p show ?thesis by (simp add: proc_channels_def ws_upgrade_def)
qed

lemma make_channel_channels:
  assumes "proc_channels p" and "at_phase Queried k p" and "i \<notin> channel_ids p"
  shows "proc_channels (ws_make_channel i k p)"
proof (cases "has_channel (cn_req (conns p ! k))")
  case True
  obtain ch cm where r: "new_channel (userId (cn_req (conns p ! k))) i (channelManagement p) = (ch, cm)"
    by fastforce
  have "channels_inv ((conns p)[k := (conns p ! k)\<lparr>cn_phase := Listed, cn_chan := (i, ch)\<rparr>]) (feed p) cm"
    by (rule channels_added [OF assms(1) [unfolded proc_channels_def], where i = i and ch = ch])
      (use assms(2,3) True r in \<open>auto simp: at_phase_def in_channel_def channel_ids_def\<close>)
  with True r show ?thesis by (simp add: ws_make_channel_def put_conn_def proc_channels_def Let_def)
next
  case False
  then show ?thesis using assms
    by (simp add: ws_make_channel_def Let_def at_phase_def in_channel_def open_channel_def put_conn_channels)
qed

lemma add_channel_channels:
  assumes "proc_channels p" and "at_phase Listed k p" and "lock_free (feed p)" and "has_channel (cn_req (conns p ! k))"
  shows "proc_channels (ws_add_channel k p)"
proof -
  have "channels_inv ((conns p)[k := (conns p ! k)\<lparr>cn_phase := Registered, cn_feeding := True\<rparr>]) (feed p)
      (ChannelManagement_Add (appId (cn_req (conns p ! k))) (fst (cn_chan (conns p ! k))) (snd (cn_chan (conns p ! k))) (channelManagement p))"
    by (rule channels_listed [OF assms(1) [unfolded proc_channels_def]])
      (use assms(2-4) in \<open>auto simp: at_phase_def in_channel_def\<close>)
  then show ?thesis by (simp add: ws_add_channel_def put_conn_def proc_channels_def Let_def)
qed

lemma remove_channel_channels:
  assumes "proc_channels p" and "at_phase Leaving k p" and "has_channel (cn_req (conns p ! k)) \<longrightarrow> lock_free (feed p)"
  shows "proc_channels (ws_remove_channel k p)"
proof (cases "has_channel (cn_req (conns p ! k))")
  case True
  obtain q cm where r: "ChannelManagement_Remove (appId (cn_req (conns p ! k))) (userId (cn_req (conns p ! k)))
      (fst (cn_chan (conns p ! k))) (channelManagement p) = (q, cm)" by fastforce
  have "channels_inv ((conns p)[k := (conns p ! k)\<lparr>cn_phase := Unregistered\<rparr>]) (feed p) cm"
    by (rule channels_removed [OF assms(1) [unfolded proc_channels_def] _ _ _ _ _ r])
      (use assms(2,3) True in \<open>auto simp: at_phase_def in_channel_def\<close>)
  with True r show ?thesis by (simp add: ws_remove_channel_def put_conn_def proc_channels_def Let_def)
next
  case False
  then show ?thesis using assms
    by (simp add: ws_remove_channel_def Let_def at_phase_def in_channel_def open_channel_def put_conn_channels)
qed

lemma feed_channels:
  assumes "proc_channels p" and "visits e"
  shows "proc_channels (feed_moves e p)"
proof -
  have i: "cm_inv (channelManagement p, open_channels (conns p))" and f: "feed_ok (feed p) (open_channels (conns p))"
    using assms(1) by (simp_all add: proc_channels_def channels_inv_def)
  note s = feed_step_ok(2) [OF i f assms(2)]
  show ?thesis
    using assms(1) s by (auto simp: feed_moves_def proc_channels_def channels_inv_def split: feed_result.split)
qed

lemma policy_channels: "proc_channels p \<Longrightarrow> proc_channels (ws_policy actions k p)"
  using cm_inv_buffer [of "channelManagement p" "open_channels (conns p)"]
  by (auto simp: ws_policy_def Let_def proc_channels_def channels_inv_def split: list.split)

lemmas conn_frames = ws_authorise_def ws_connect_def ws_on_connect_def ws_query_app_def ws_enter_def ws_panics_def ws_server_info_def
  ws_receives_def ws_relays_def ws_leave_def ws_on_disconnect_def ws_first_policy_def run_event_def http_opens_def
  at_phase_def Let_def in_channel_def open_channel_def put_conn_channels

lemma moves_channels: "moves p p' \<Longrightarrow> proc_channels p \<Longrightarrow> proc_channels p'"
proof (induction rule: moves.induct)
  case (upgrade p ok r) then show ?case by (simp add: ws_upgrade_channels)
next
  case (make_channel k p i) then show ?case by (simp add: make_channel_channels)
next
  case (add_channel k p) then show ?case by (simp add: add_channel_channels)
next
  case (remove_channel k p) then show ?case by (simp add: remove_channel_channels)
next
  case (feed e p) then show ?case by (simp add: feed_channels)
next
  case (policy k p actions) then show ?case by (simp add: policy_channels)
qed (simp_all add: conn_frames split: option.split outcome.split prod.split)

section \<open>The counters\<close>

text \<open>The gauge \<open>active_rdp_count\<close> of a tenant (\<open>pkg/metrics.go\<close>) after the effects.\<close>

fun rdpCount :: "string \<Rightarrow> effect list \<Rightarrow> int" where
  "rdpCount t [] = 0"
| "rdpCount t (RdpCount t' d # es) = (if t' = t then d else 0) + rdpCount t es"
| "rdpCount t (e # es) = rdpCount t es"

lemma rdpCount_append [simp]: "rdpCount t (es @ es') = rdpCount t es + rdpCount t es'"
  by (induction t es rule: rdpCount.induct) simp_all

lemma rdpCount_none: "\<forall>e\<in>set es. \<not> rdp_count e \<Longrightarrow> rdpCount t es = 0"
  by (induction t es rule: rdpCount.induct) simp_all

lemma emitted_count: "emitted w w' \<Longrightarrow> rdpCount t (trace w') = rdpCount t (trace w)"
  by (auto simp: emitted_def intro!: rdpCount_none)

definition is_counted :: "conn \<Rightarrow> bool" where
  "is_counted c \<longleftrightarrow> cn_phase c \<in> {Counted, Queried, Listed, Registered, Entered, Leaving, Unregistered}"

definition counted_ids :: "conn list \<Rightarrow> string multiset" where
  "counted_ids cs = mset (map (\<lambda>c. tun_ConnectionID (cn_tunnel c)) (filter is_counted cs))"

definition in_room :: "string \<Rightarrow> conn \<Rightarrow> bool" where
  "in_room t c \<longleftrightarrow> cn_phase c = Entered \<and> tenant_of c = t"

definition counts_inv :: "conn list \<Rightarrow> session_store \<Rightarrow> effect list \<Rightarrow> bool" where
  "counts_inv cs s es \<longleftrightarrow> (length cs < 2 ^ 63 - 1 \<longrightarrow> stores s (counted_ids cs)) \<and>
     (\<forall>t. rdpCount t es = int (length (filter (in_room t) cs))) \<and>
     (\<forall>c\<in>set cs. \<forall>con. cn_con c = Some con \<longrightarrow> con_tunnel con = cn_tunnel c)"

definition proc_counts :: "process \<Rightarrow> bool" where
  "proc_counts p \<longleftrightarrow> counts_inv (conns p) (sessions p) (trace (server_world p))"

lemma mset_filter_update:
  assumes "k < length cs"
  shows "mset (map f (filter P (cs[k := c]))) =
    (mset (map f (filter P cs)) - (if P (cs ! k) then {#f (cs ! k)#} else {#})) + (if P c then {#f c#} else {#})"
proof -
  have a: "cs = take k cs @ cs ! k # drop (Suc k) cs" using assms by (simp add: id_take_nth_drop)
  have b: "cs[k := c] = take k cs @ c # drop (Suc k) cs" using assms by (simp add: upd_conv_take_nth_drop)
  have "mset (map f (filter P cs)) = mset (map f (filter P (take k cs))) + mset (map f (filter P (drop (Suc k) cs))) +
      (if P (cs ! k) then {#f (cs ! k)#} else {#})"
    by (subst a) simp
  then show ?thesis unfolding b by simp
qed

lemma length_filter_update:
  assumes "k < length cs"
  shows "int (length (filter P (cs[k := c]))) =
    int (length (filter P cs)) - (if P (cs ! k) then 1 else 0) + (if P c then 1 else 0)"
proof -
  have a: "cs = take k cs @ cs ! k # drop (Suc k) cs" using assms by (simp add: id_take_nth_drop)
  have b: "cs[k := c] = take k cs @ c # drop (Suc k) cs" using assms by (simp add: upd_conv_take_nth_drop)
  have "length (filter P cs) = length (filter P (take k cs)) + length (filter P (drop (Suc k) cs)) + (if P (cs ! k) then 1 else 0)"
    by (subst a) simp
  then show ?thesis unfolding b by simp
qed

lemma size_counted: "size (counted_ids cs) \<le> length cs"
  using length_filter_le [of is_counted cs] by (metis counted_ids_def length_map size_mset)

text \<open>A connection changes and is counted as before; the effects count nothing.\<close>

lemma counts_same:
  assumes "counts_inv cs s es" and "k < length cs" and "is_counted c = is_counted (cs ! k)"
    and "is_counted c \<Longrightarrow> cn_tunnel c = cn_tunnel (cs ! k)" and "\<And>con. cn_con c = Some con \<Longrightarrow> con_tunnel con = cn_tunnel c"
    and "\<And>t. rdpCount t es' = (if in_room t c then 1 else 0) - (if in_room t (cs ! k) then 1 else 0)"
  shows "counts_inv (cs[k := c]) s (es @ es')"
proof -
  have "counted_ids (cs[k := c]) = counted_ids cs"
  proof (cases "is_counted (cs ! k)")
    case True
    then have "tun_ConnectionID (cn_tunnel (cs ! k)) \<in># counted_ids cs"
      using assms(2) by (force simp: counted_ids_def)
    with True assms(2-4) mset_filter_update [of k cs "\<lambda>c. tun_ConnectionID (cn_tunnel c)" is_counted c]
    show ?thesis by (simp add: counted_ids_def)
  qed (use assms(2,3) mset_filter_update [of k cs "\<lambda>c. tun_ConnectionID (cn_tunnel c)" is_counted c] in
      \<open>simp add: counted_ids_def\<close>)
  moreover have "rdpCount t (es @ es') = int (length (filter (in_room t) (cs[k := c])))" for t
    using assms(1) assms(6) [of t] length_filter_update [OF assms(2), of "in_room t" c] by (simp add: counts_inv_def)
  moreover have "\<forall>x\<in>set (cs[k := c]). \<forall>con. cn_con x = Some con \<longrightarrow> con_tunnel con = cn_tunnel x"
    using assms(1,5) set_update_subset_insert [of cs k c] by (auto simp: counts_inv_def)
  ultimately show ?thesis using assms(1) by (simp add: counts_inv_def)
qed

text \<open>A connection begins or ceases to be counted in the session store.\<close>

lemma counts_opened:
  assumes "counts_inv cs s es" and "k < length cs" and "\<not> is_counted (cs ! k)" and "is_counted c"
    and "\<And>con. cn_con c = Some con \<Longrightarrow> con_tunnel con = cn_tunnel c" and "cn_phase c \<noteq> Entered"
  shows "counts_inv (cs[k := c]) (MemorySessionStore_Add (tun_ConnectionID (cn_tunnel c)) s) es"
proof -
  have ids: "counted_ids (cs[k := c]) = add_mset (tun_ConnectionID (cn_tunnel c)) (counted_ids cs)"
    using mset_filter_update [OF assms(2), of "\<lambda>c. tun_ConnectionID (cn_tunnel c)" is_counted c] assms(3,4)
    by (simp add: counted_ids_def)
  have "stores (MemorySessionStore_Add (tun_ConnectionID (cn_tunnel c)) s) (counted_ids (cs[k := c]))"
    if "length cs < 2 ^ 63 - 1"
    using stores_step [of s "counted_ids cs" "Opens (tun_ConnectionID (cn_tunnel c))"] that assms(1) size_counted [of cs]
    by (simp add: ids counts_inv_def)
  moreover have "cn_phase (cs ! k) \<noteq> Entered" using assms(3) by (auto simp: is_counted_def)
  then have "length (filter (in_room t) (cs[k := c])) = length (filter (in_room t) cs)" for t
    using length_filter_update [OF assms(2), of "in_room t" c] assms(6) by (simp add: in_room_def)
  moreover have "\<forall>x\<in>set (cs[k := c]). \<forall>con. cn_con x = Some con \<longrightarrow> con_tunnel con = cn_tunnel x"
    using assms(1,5) set_update_subset_insert [of cs k c] by (auto simp: counts_inv_def)
  ultimately show ?thesis using assms(1) by (simp add: counts_inv_def)
qed

lemma counts_ended:
  assumes "counts_inv cs s es" and "k < length cs" and "is_counted (cs ! k)" and "\<not> is_counted c"
    and "\<And>con. cn_con c = Some con \<Longrightarrow> con_tunnel con = cn_tunnel c" and "cn_phase (cs ! k) \<noteq> Entered"
  shows "counts_inv (cs[k := c]) (MemorySessionStore_Delete (tun_ConnectionID (cn_tunnel (cs ! k))) s) es"
proof -
  have ids: "counted_ids (cs[k := c]) = counted_ids cs - {#tun_ConnectionID (cn_tunnel (cs ! k))#}"
    using mset_filter_update [OF assms(2), of "\<lambda>c. tun_ConnectionID (cn_tunnel c)" is_counted c] assms(3,4)
    by (simp add: counted_ids_def)
  have "stores (MemorySessionStore_Delete (tun_ConnectionID (cn_tunnel (cs ! k))) s) (counted_ids (cs[k := c]))"
    if "length cs < 2 ^ 63 - 1"
    using stores_step [of s "counted_ids cs" "Ends (tun_ConnectionID (cn_tunnel (cs ! k)))"] that assms(1) size_counted [of cs]
    by (simp add: ids counts_inv_def)
  moreover have "cn_phase c \<noteq> Entered" using assms(4) by (auto simp: is_counted_def)
  then have "length (filter (in_room t) (cs[k := c])) = length (filter (in_room t) cs)" for t
    using length_filter_update [OF assms(2), of "in_room t" c] assms(6) by (simp add: in_room_def)
  moreover have "\<forall>x\<in>set (cs[k := c]). \<forall>con. cn_con x = Some con \<longrightarrow> con_tunnel con = cn_tunnel x"
    using assms(1,5) set_update_subset_insert [of cs k c] by (auto simp: counts_inv_def)
  ultimately show ?thesis using assms(1) by (simp add: counts_inv_def)
qed

lemma counts_quiet: "counts_inv cs s es \<Longrightarrow> (\<And>t. rdpCount t es' = 0) \<Longrightarrow> counts_inv cs s (es @ es')"
  by (simp add: counts_inv_def)

lemma put_conn_counts:
  assumes "proc_counts p" and "k < length (conns p)" and "is_counted c = is_counted (conns p ! k)"
    and "is_counted c \<Longrightarrow> cn_tunnel c = cn_tunnel (conns p ! k)" and "\<And>con. cn_con c = Some con \<Longrightarrow> con_tunnel con = cn_tunnel c"
    and "conns p' = (conns p)[k := c]" and "sessions p' = sessions p" and "trace (server_world p') = trace (server_world p) @ es'"
    and "\<And>t. rdpCount t es' = (if in_room t c then 1 else 0) - (if in_room t (conns p ! k) then 1 else 0)"
  shows "proc_counts p'"
  using counts_same [OF assms(1) [unfolded proc_counts_def] assms(2-5,9)] unfolding proc_counts_def assms(6-8) .

lemma quiet_counts:
  assumes "proc_counts p" and "conns p' = conns p" and "sessions p' = sessions p" and "emitted (server_world p) (server_world p')"
  shows "proc_counts p'"
proof -
  obtain es where "trace (server_world p') = trace (server_world p) @ es" "\<forall>e\<in>set es. \<not> rdp_count e"
    using assms(4) by (auto simp: emitted_def)
  with assms(1-3) show ?thesis
    unfolding proc_counts_def by (auto intro: counts_quiet rdpCount_none)
qed

lemma con_tunnel_of: "proc_counts p \<Longrightarrow> k < length (conns p) \<Longrightarrow> cn_con (conns p ! k) = Some con \<Longrightarrow>
    con_tunnel con = cn_tunnel (conns p ! k)"
  by (auto simp: proc_counts_def counts_inv_def)

lemma emitted_refl [simp]: "emitted w w"
  by (simp add: emitted_def)

lemma upgrade_counts: "proc_counts p \<Longrightarrow> proc_counts (ws_upgrade ok r p)"
proof -
  assume p: "proc_counts p"
  have n: "\<not> is_counted (new_conn r)" "\<not> in_room t (new_conn r)" "cn_con (new_conn r) = None" for t
    by (simp_all add: is_counted_def in_room_def new_conn_def)
  with p show ?thesis
    by (auto simp: proc_counts_def counts_inv_def ws_upgrade_def counted_ids_def)
qed

lemma phase_counts:
  assumes "proc_counts p" and "k < length (conns p)" and "conns p' = (conns p)[k := c]"
    and "is_counted c = is_counted (conns p ! k)"
    and "cn_tunnel c = cn_tunnel (conns p ! k)" and "cn_con c = cn_con (conns p ! k)"
    and "cn_phase c = Entered \<longleftrightarrow> cn_phase (conns p ! k) = Entered"
    and "sessions p' = sessions p" and "trace (server_world p') = trace (server_world p)"
  shows "proc_counts p'"
  by (rule put_conn_counts [OF assms(1,2,4) assms(5) _ assms(3,8), where es' = "[]"])
    (use assms con_tunnel_of [OF assms(1,2)] in \<open>simp_all add: in_room_def tenant_of_def\<close>)

lemma authorise_counts: "proc_counts p \<Longrightarrow> at_phase Upgraded k p \<Longrightarrow> proc_counts (ws_authorise env k p)"
  by (auto simp: ws_authorise_def put_conn_def at_phase_def Let_def is_counted_def split: option.split
      intro: phase_counts [where p = p and k = k])

lemma query_app_counts: "proc_counts p \<Longrightarrow> at_phase Counted k p \<Longrightarrow> proc_counts (ws_query_app env k p)"
  by (auto simp: ws_query_app_def put_conn_def at_phase_def Let_def is_counted_def split: option.split
      intro: phase_counts [where p = p and k = k])

lemma make_channel_counts: "proc_counts p \<Longrightarrow> at_phase Queried k p \<Longrightarrow> proc_counts (ws_make_channel i k p)"
  by (auto simp: ws_make_channel_def put_conn_def at_phase_def Let_def is_counted_def split: prod.split
      intro: phase_counts [where p = p and k = k])

lemma add_channel_counts: "proc_counts p \<Longrightarrow> at_phase Listed k p \<Longrightarrow> proc_counts (ws_add_channel k p)"
  by (auto simp: ws_add_channel_def put_conn_def at_phase_def Let_def is_counted_def
      intro: phase_counts [where p = p and k = k])

lemma remove_channel_counts: "proc_counts p \<Longrightarrow> at_phase Leaving k p \<Longrightarrow> proc_counts (ws_remove_channel k p)"
  by (auto simp: ws_remove_channel_def put_conn_def at_phase_def Let_def is_counted_def
      intro: phase_counts [where p = p and k = k])

lemma connect_counts:
  assumes "proc_counts p" and "proc_world p" and at: "at_phase Authorised k p"
  shows "proc_counts (ws_connect env cenv k p)"
proof -
  have k: "k < length (conns p)" "cn_phase (conns p ! k) = Authorised" using at by (simp_all add: at_phase_def)
  have n: "cn_con (conns p ! k) = None"
    using assms(2) typed_conn_update [of "conns p" "server_world p" k] k
    by (auto simp: proc_world_def typed_conn_def early_def)
  obtain r w where c: "callback env cenv (cn_request (conns p ! k)) (server_world p) = (r, w)" by fastforce
  have t: "trace w = trace (server_world p)"
    using callback_dialled [of "server_world p" env cenv "cn_request (conns p ! k)"] c by (simp add: dialled_def)
  let ?c = "case r of Val t \<Rightarrow> (conns p ! k)\<lparr>cn_phase := Tunnelled, cn_tunnel := t\<rparr>
    | _ \<Rightarrow> (conns p ! k)\<lparr>cn_phase := Closed\<rparr>"
  have f: "cn_con ?c = None" "\<not> is_counted ?c" "\<not> in_room u ?c" "\<not> is_counted (conns p ! k)" "\<not> in_room u (conns p ! k)" for u
    using k(2) n by (simp_all add: is_counted_def in_room_def split: outcome.split)
  have "ws_connect env cenv k p = put_conn k ?c (p\<lparr>server_world := w\<rparr>)"
    by (cases r) (simp_all add: ws_connect_def c Let_def)
  then show ?thesis
    using put_conn_counts [OF assms(1) k(1), of ?c "ws_connect env cenv k p" "[]"] f t by (simp add: put_conn_def)
qed

lemma on_connect_counts:
  assumes "proc_counts p" and "at_phase Tunnelled k p"
  shows "proc_counts (ws_on_connect k p)"
proof -
  have k: "k < length (conns p)" "cn_phase (conns p ! k) = Tunnelled" using assms(2) by (simp_all add: at_phase_def)
  have "counts_inv ((conns p)[k := (conns p ! k)\<lparr>cn_phase := Counted\<rparr>])
      (MemorySessionStore_Add (tun_ConnectionID (cn_tunnel ((conns p ! k)\<lparr>cn_phase := Counted\<rparr>))) (sessions p)) (trace (server_world p))"
    by (rule counts_opened [OF assms(1) [unfolded proc_counts_def] k(1)])
      (use k con_tunnel_of [OF assms(1) k(1)] in \<open>auto simp: is_counted_def\<close>)
  then show ?thesis by (simp add: proc_counts_def ws_on_connect_def put_conn_def Let_def)
qed

lemma on_disconnect_counts:
  assumes "proc_counts p" and "at_phase Unregistered k p"
  shows "proc_counts (ws_on_disconnect k p)"
proof -
  have k: "k < length (conns p)" "cn_phase (conns p ! k) = Unregistered" using assms(2) by (simp_all add: at_phase_def)
  have "counts_inv ((conns p)[k := (conns p ! k)\<lparr>cn_phase := Closed\<rparr>])
      (MemorySessionStore_Delete (tun_ConnectionID (cn_tunnel (conns p ! k))) (sessions p)) (trace (server_world p))"
    by (rule counts_ended [OF assms(1) [unfolded proc_counts_def] k(1)])
      (use k con_tunnel_of [OF assms(1) k(1)] in \<open>auto simp: is_counted_def\<close>)
  then show ?thesis by (simp add: proc_counts_def ws_on_disconnect_def put_conn_def Let_def)
qed

lemma enter_counts:
  assumes "proc_counts p" and "proc_world p" and at: "at_phase Registered k p"
  shows "proc_counts (ws_enter env k p)"
proof -
  let ?c = "conns p ! k" and ?w = "server_world p"
  have k: "k < length (conns p)" "cn_phase ?c = Registered" using at by (simp_all add: at_phase_def)
  have i: "world_inv (conns p) ?w" using assms(2) by (simp add: proc_world_def)
  then have tw: "typed_world ?w" by (simp add: world_inv_def)
  have n: "cn_con ?c = None" using typed_conn_update [OF i k(1)] k(2) by (auto simp: typed_conn_def early_def)
  obtain r w1 where e: "enter_room env (cn_req ?c) k (cn_target ?c) (cn_tunnel ?c) (cn_sharing ?c) ?w = (r, w1)" by fastforce
  note g = enter_room_grows [OF e tw]
  have none: "\<not> in_room t ?c" for t using k(2) by (simp add: in_room_def)
  show ?thesis
  proof (cases r)
    case (Val con)
    then have "emitted ?w w1" and tun: "con_tunnel con = cn_tunnel ?c" using g by (simp_all add: grows_def)
    then obtain es where es: "trace w1 = trace ?w @ es" "\<forall>e\<in>set es. \<not> rdp_count e" by (auto simp: emitted_def)
    let ?w2 = "SendPermission (con_client con) (emit [RdpCount (tenant_of ?c) 1] w1)"
    obtain ws bs where x: "trace ?w2 = trace ?w @ es @ [RdpCount (tenant_of ?c) 1, WsSend ws bs]"
      by (auto simp: SendPermission_def WriteMessage_def Let_def es(1))
    have "ws_enter env k p = put_conn k (?c\<lparr>cn_phase := Entered, cn_con := Some con, cn_relay := True\<rparr>) (p\<lparr>server_world := ?w2\<rparr>)"
      by (simp add: ws_enter_def e Val Let_def)
    then show ?thesis
      using put_conn_counts [OF assms(1) k(1), of "?c\<lparr>cn_phase := Entered, cn_con := Some con, cn_relay := True\<rparr>"
          "ws_enter env k p" "es @ [RdpCount (tenant_of ?c) 1, WsSend ws bs]"] k(2) x tun none rdpCount_none [OF es(2)]
      by (simp add: put_conn_def is_counted_def in_room_def tenant_of_def)
  next
    case (Fail y)
    then show ?thesis using g
      by (auto simp: ws_enter_def e put_conn_def Let_def is_counted_def k
          intro!: phase_counts [OF assms(1) k(1)])
  next
    case Panic
    then have "emitted ?w w1" using g by (simp add: grows_def)
    then obtain es where es: "trace w1 = trace ?w @ es" "\<forall>e\<in>set es. \<not> rdp_count e" by (auto simp: emitted_def)
    let ?con = "\<lparr>con_client = length (clients ?w), con_session = fst (cn_target ?c), con_ses = None,
                   con_user = userId (cn_req ?c), con_tunnel = cn_tunnel ?c\<rparr>"
    have "ws_enter env k p = put_conn k (?c\<lparr>cn_phase := Leaving, cn_panicked := True, cn_con := Some ?con\<rparr>) (p\<lparr>server_world := w1\<rparr>)"
      by (simp add: ws_enter_def e Panic Let_def)
    then show ?thesis
      using put_conn_counts [OF assms(1) k(1), of "?c\<lparr>cn_phase := Leaving, cn_panicked := True, cn_con := Some ?con\<rparr>"
          "ws_enter env k p" es] k(2) es(1) none rdpCount_none [OF es(2)]
      by (simp add: put_conn_def is_counted_def in_room_def)
  qed
qed

lemma panics_counts:
  assumes "proc_counts p" and at: "at_phase Entered k p"
  shows "proc_counts (ws_panics k p)"
proof -
  have k: "k < length (conns p)" "cn_phase (conns p ! k) = Entered" using at by (simp_all add: at_phase_def)
  show ?thesis
    by (rule put_conn_counts [OF assms(1) k(1), where es' = "[RdpCount (tenant_of (conns p ! k)) (- 1)]"
          and c = "(conns p ! k)\<lparr>cn_phase := Leaving, cn_panicked := True\<rparr>"])
      (use k con_tunnel_of [OF assms(1) k(1)] in \<open>simp_all add: ws_panics_def put_conn_def Let_def is_counted_def in_room_def\<close>)
qed

lemma receives_counts:
  assumes "proc_counts p" and "proc_world p"
  shows "proc_counts (ws_receives env k data p)"
proof (cases "cn_con (conns p ! k)")
  case (Some con)
  obtain r w where m: "ws_message env (con_client con) (con_session con) data (server_world p) = (r, w)" by fastforce
  have "typed_world (server_world p)" using assms(2) by (simp add: proc_world_def world_inv_def)
  from ws_message_keeps [OF this] m have "emitted (server_world p) w" by (metis keeps_def snd_conv)
  then show ?thesis
    by (cases r) (auto simp: ws_receives_def Some m intro!: quiet_counts [OF assms(1)])
qed (use assms in \<open>simp add: ws_receives_def\<close>)

lemma server_info_counts:
  assumes "proc_counts p" and "proc_world p" and at: "at_phase Entered k p"
  shows "proc_counts (ws_server_info k ins p)"
proof (cases "cn_con (conns p ! k)")
  case (Some con)
  have i: "world_inv (conns p) (server_world p)" and k: "k < length (conns p)"
    using assms by (simp_all add: proc_world_def at_phase_def)
  obtain r w where m: "server_info (con_ses con) ins (server_world p) = (r, w)" by fastforce
  have "keeps (server_world p) w"
    using server_info_keeps [of "con_ses con"] typed_conn_update [OF i k] Some m by (metis snd_conv typed_conn_def)
  then have "proc_counts (p\<lparr>server_world := w\<rparr>)" by (auto simp: keeps_def intro: quiet_counts [OF assms(1)])
  with panics_counts [OF this, of k] at show ?thesis
    by (cases r) (simp_all add: ws_server_info_def Some m at_phase_def)
qed (use assms in \<open>simp add: ws_server_info_def\<close>)

lemma leave_counts:
  assumes "proc_counts p" and "proc_world p" and at: "at_phase Entered k p"
  shows "proc_counts (ws_leave env k p)"
proof (cases "cn_con (conns p ! k)")
  case (Some con)
  let ?c = "conns p ! k" and ?info = "tun_LoggingInfo (con_tunnel con)"
  have i: "world_inv (conns p) (server_world p)" and k: "k < length (conns p)" "cn_phase ?c = Entered"
    using assms by (simp_all add: proc_world_def at_phase_def)
  obtain r w1 where l: "LeaveRoom env (con_ses con) (con_session con) (con_user con) (li_ClientIp ?info)
      (li_ClientPrivateIp ?info) (server_world p) = (r, w1)" by fastforce
  have "typed_world (server_world p)" using i by (simp add: world_inv_def)
  then have "emitted (server_world p) w1"
    using LeaveRoom_keeps [of _ "con_ses con"] typed_conn_update [OF i k(1)] Some l by (metis keeps_def snd_conv typed_conn_def)
  then obtain es where es: "trace w1 = trace (server_world p) @ es" "\<forall>e\<in>set es. \<not> rdp_count e" by (auto simp: emitted_def)
  have tun: "con_tunnel con = cn_tunnel ?c" by (rule con_tunnel_of [OF assms(1) k(1) Some])
  show ?thesis
    by (rule put_conn_counts [OF assms(1) k(1), where es' = "es @ [RdpCount (tenant_of ?c) (- 1)]"
          and c = "?c\<lparr>cn_phase := Leaving, cn_panicked := (r = Panic)\<rparr>"])
      (use k tun es rdpCount_none [OF es(2)] Some in
        \<open>simp_all add: ws_leave_def ws_close_def l [unfolded tun] put_conn_def Let_def is_counted_def in_room_def tenant_of_def\<close>)
qed (use assms in \<open>simp add: ws_leave_def\<close>)

lemma BroadCastPolicy_emitted: "emitted w (BroadCastPolicy k sharing actions w)"
  by (auto simp: BroadCastPolicy_def emitted_def split: option.split)

lemma policy_counts: "proc_counts p \<Longrightarrow> proc_counts (ws_policy actions k p)"
  by (rule quiet_counts [where p = p])
    (simp_all add: ws_policy_def Let_def BroadCastPolicy_emitted split: list.split)

lemma first_policy_counts:
  assumes "proc_counts p" and "k < length (conns p)"
  shows "proc_counts (ws_first_policy actions k p)"
proof -
  let ?sharing = "cn_sharing (conns p ! k)"
  obtain es where es: "trace (BroadCastPolicy k ?sharing actions (server_world p)) = trace (server_world p) @ es"
    "\<forall>e\<in>set es. \<not> rdp_count e" using BroadCastPolicy_emitted [of "server_world p" k ?sharing actions] by (auto simp: emitted_def)
  show ?thesis
    by (rule put_conn_counts [OF assms, where es' = es and c = "(conns p ! k)\<lparr>cn_told := True\<rparr>"])
      (use con_tunnel_of [OF assms] es rdpCount_none [OF es(2)] in
        \<open>simp_all add: ws_first_policy_def put_conn_def is_counted_def in_room_def tenant_of_def\<close>)
qed

lemma run_event_counts:
  assumes "proc_counts p" and "proc_world p" and "i < length (trace (server_world p))"
  shows "proc_counts (run_event env i p)"
proof -
  have "typed_world (server_world p)" using assms(2) by (simp add: proc_world_def world_inv_def)
  from run_event_typed [OF this assms(3), of env] obtain es where
    r: "run_event env i p = p\<lparr>server_world := emit es (server_world p), ran := insert i (ran p)\<rparr>"
    and es: "\<And>e. e \<in> set es \<Longrightarrow> typed_effect (length (session_heap (server_world p))) e \<and> \<not> rdp_count e" by metis
  show ?thesis unfolding r
    by (rule quiet_counts [OF assms(1)]) (use es in \<open>auto simp: emitted_def\<close>)
qed

lemma http_opens_counts: "proc_counts p \<Longrightarrow> proc_counts (http_opens env cenv req p)"
  by (rule quiet_counts [where p = p])
    (auto simp: http_opens_def Let_def emitted_def dialled_def dest: DemoDoConnect_dialled split: option.split outcome.split)

lemma moves_counts: "moves p p' \<Longrightarrow> proc_world p \<Longrightarrow> proc_counts p \<Longrightarrow> proc_counts p'"
proof (induction rule: moves.induct)
  case (relays k p bs)
  show ?case by (rule quiet_counts [OF relays(3)]) (simp_all add: ws_relays_def emitted_def)
next
  case (feed e p)
  show ?case by (rule quiet_counts [OF feed(3)]) (simp_all add: feed_moves_def split: feed_result.split)
next
  case (http_step p h)
  show ?case by (rule quiet_counts [OF http_step(3)]) simp_all
next
  case (main_returns p)
  show ?case by (rule quiet_counts [OF main_returns(2)]) simp_all
next
  case (maps_meet p g as g' bs x)
  show ?case by (rule quiet_counts [OF maps_meet(6)]) simp_all
qed (simp_all add: upgrade_counts authorise_counts connect_counts on_connect_counts query_app_counts make_channel_counts
    add_channel_counts enter_counts
    receives_counts server_info_counts panics_counts first_policy_counts policy_counts leave_counts
    remove_channel_counts on_disconnect_counts run_event_counts http_opens_counts)

section \<open>The HTTP tunnels\<close>

lemma moves_http:
  assumes "moves p p'" and "task_inv (http p)"
  shows "task_inv (http p')"
  using assms
proof (induction rule: moves.induct)
  case (http_connect p env cenv req)
  have "task_inv (registerTunnel (length (tunnels h)) (h\<lparr>tunnels := tunnels h @ [t]\<rparr>), ids)" if "http p = (h, ids)" for t h ids
  proof -
    have "tmap_step (h, ids) (h\<lparr>tunnels := tunnels h @ [t]\<rparr>, ids)" by (rule connected)
    from tmap.inv_step [OF _ this] have i: "task_inv (h\<lparr>tunnels := tunnels h @ [t]\<rparr>, ids)"
      using http_connect that by simp
    show ?thesis unfolding registerTunnel_def by (rule tmap.inv_step [OF i put]) simp
  qed
  with http_connect show ?case
    by (cases "http p") (auto simp: http_opens_def Let_def split: option.split outcome.split)
next
  case (http_step p h) then show ?case using tmap.inv_step by simp
qed (auto simp: ws_upgrade_def conn_frames ws_make_channel_def ws_add_channel_def ws_remove_channel_def ws_policy_def feed_moves_def
    put_conn_def split: option.split outcome.split prod.split list.split feed_result.split)

section \<open>All of it\<close>

definition process_inv :: "process \<Rightarrow> bool" where
  "process_inv p \<longleftrightarrow> proc_world p \<and> proc_channels p \<and> proc_counts p \<and> task_inv (http p)"

interpretation process: invariant_machine process_start process_step process_inv
proof
  show "process_inv p" if "process_start p" for p
  proof -
    from that obtain w t where p: "p = start_process w t" "fresh_world w" "session_data w = []" "trace w = []"
      unfolding process_start_def by blast
    have "rooms_inv w" using p(2) by (rule gateway.inv_start)
    then have "proc_world p"
      using p(2-4) by (simp add: p(1) start_process_def proc_world_def world_inv_def typed_world_def members_live_def
          session_of_def SessionData_Get_def fresh_world_def GetRdpSessionRoom_def)
    moreover have "cm_inv (NewChannelManagement, {})" by (rule channels.inv_start) (simp add: cm_start_def)
    then have "proc_channels p"
      by (simp add: p(1) start_process_def proc_channels_def channels_inv_def open_channels_def feed_ok_def)
    moreover have "proc_counts p"
      using p(4) by (simp add: p(1) start_process_def proc_counts_def counts_inv_def stores_def counted_ids_def NewMemorySessionStore_def)
    moreover have "task_inv (http p)" using tmap.inv_start [of "http p"] by (auto simp: p(1) start_process_def tmap_start_def)
    ultimately show ?thesis by (simp add: process_inv_def)
  qed
  show "process_inv p'" if "process_inv p" and "process_step p p'" for p p'
    using that unfolding process_inv_def process_step_def by (blast intro: moves_world moves_channels moves_counts moves_http)
qed

end
