(* ===== verification/ProcessProps.thy ===== *)
theory ProcessProps
  imports ProcessCounts
begin

text \<open>
  What holds in every state the process reaches, whatever its goroutines do and whatever the
  services answer: who is in a room, what the pointers point to, what the counters show.
\<close>

section \<open>A run\<close>

text \<open>A deployment whose guacd answers, and the request of a host.\<close>

definition live_connect :: connect_env where
  "live_connect = demo_connect\<lparr>net_dial := \<lambda>a. Inr (demo_conn [Arrive ''4.args;5.ready,3.$id;'' None])\<rparr>"

definition host_request :: connect_request where
  "host_request = demo_request [(''appId'', [''app'']), (''userId'', [''host''])]"

lemma host_req: "ws_request_of host_request = \<lparr>shareSessionId = [], userId = ''host'', appId = ''app'', clientIp = []\<rparr>"
  by (simp add: ws_request_of_def host_request_def demo_request_def query_Get_def Let_def)

lemma live_dials: "\<exists>s. dial_guacd live_connect config info addr w = Some (Val (NewSimpleTunnel s ''n'' info), w)"
proof -
  have b: "ins_bytes ''args'' [] = ''4.args;''" "ins_bytes ''ready'' [''$id''] = ''5.ready,3.$id;''" by code_simp+
  have sm: "small_ascii ''args'' []" "small_ascii ''ready'' [''$id'']"
    by (simp_all add: small_ascii_def b is_ascii_def ord_def MaxGuacMessage_def)
  let ?s = "NewStream (demo_conn [Arrive ''4.args;5.ready,3.$id;'' None]) (15 * 1000000000)"
  have h: "\<exists>s. Handshake config ?s = Some (Val (), s)" for config
    using Handshake_succeeds [of ?s "[]" "''$id''" "[]" "[]" config] sm by (auto simp: at_rest_def unread_def b)
  obtain s where "Handshake config ?s = Some (Val (), s)" using h by blast
  then show ?thesis by (auto simp: dial_guacd_def live_connect_def demo_connect_def)
qed

lemma host_connects:
  obtains t w where "callback demo_env live_connect host_request empty_world = (Val t, w)"
    and "session_of w (tun_UUID t) \<noteq> None" and "tun_UUID t = ''n''" and "rdpRooms w = []"
proof -
  let ?q = "[(''appId'', [''app'']), (''userId'', [''host''])]"
  have target: "connect_target demo_env ?q empty_world = []"
    by (simp add: connect_target_def query_Get_def GetRoomByAppIdAndCreator_def empty_world_def room_ids_def
        demo_env_def map_filter_simps)
  obtain s where s: "new_session live_connect host_request ?q = Some s"
    by (simp add: new_session_def live_connect_def demo_connect_def)
  have q: "connect_query live_connect host_request = Inr ?q" by (simp add: host_request_def)
  have "\<exists>t w. DemoDoConnect demo_env live_connect host_request empty_world = Some (Val t, w)"
  proof -
    have a: "guacd_address live_connect = Val ''127.0.0.1:4822''"
      by (simp add: guacd_address_def live_connect_def demo_connect_def)
    show ?thesis using live_dials by (simp add: DemoDoConnect_def q target connect_new_def s a Let_def) blast
  qed
  then obtain t w where t: "DemoDoConnect demo_env live_connect host_request empty_world = Some (Val t, w)" by blast
  then have "connect_new live_connect host_request ?q empty_world = Some (Val t, w)"
    by (simp add: DemoDoConnect_def q target)
  from connect_new_result [OF this s] have "session_of w (tun_UUID (tunnel_info_of t)) \<noteq> None"
    "tun_UUID (tunnel_info_of t) = ''n''" "rdpRooms w = []"
    by (simp_all add: tunnel_info_of_def live_connect_def demo_connect_def empty_world_def)
  then show thesis using that [of "tunnel_info_of t" w] t by (simp add: callback_def)
qed

lemma step_to: "reach process_start process_step p \<Longrightarrow> proc_status p = Running \<Longrightarrow> moves p p' \<Longrightarrow>
    reach process_start process_step p'"
  by (rule reach_step) (auto simp: process_step_def)

text \<open>The host has opened a session, and its loops run.\<close>

definition hosted :: "process \<Rightarrow> ws_connection \<Rightarrow> RdpSessionRoom \<Rightarrow> bool" where
  "hosted p con r \<longleftrightarrow> reach process_start process_step p \<and> proc_status p = Running \<and> feed p = Dialing \<and>
     length (conns p) = 1 \<and> at_phase Entered 0 p \<and> cn_request (conns p ! 0) = host_request \<and>
     cn_con (conns p ! 0) = Some con \<and> cn_relay (conns p ! 0) \<and>
     session_of (server_world p) (con_session con) \<noteq> None \<and>
     GetRdpSessionRoom (server_world p) (con_session con) = Some r \<and> map_of (Users r) ''host'' = Some (con_client con) \<and>
     con_session con = ''n'' \<and> Creator r = ''host'' \<and> map_keys (Users r) = [''host''] \<and> room_ids (server_world p) = [''n''] \<and>
     chan_heap (channelManagement p) = [\<lparr>ch_buf = [], ch_closed = False\<rparr>] \<and> cn_chan (conns p ! 0) = (''i'', 0) \<and>
     list_of (channelManagement p) ''app'' = [(''i'', 0)]"

lemma host_process:
  obtains p con r where "hosted p con r"
proof -
  obtain t w where c: "callback demo_env live_connect host_request empty_world = (Val t, w)"
    and s: "session_of w (tun_UUID t) \<noteq> None" and n: "tun_UUID t = ''n''" "rdpRooms w = []" by (rule host_connects)
  define p0 where "p0 = start_process empty_world 0"
  have w0: "server_world p0 = empty_world" "conns p0 = []" "proc_status p0 = Running" "feed p0 = Dialing"
    by (simp_all add: p0_def start_process_def)
  have r0: "reach process_start process_step p0"
    by (rule reach_start) (auto simp: process_start_def p0_def fresh_world_def empty_world_def)
  define c1 where "c1 = new_conn host_request"
  have c1: "cn_phase c1 = Upgraded" "cn_request c1 = host_request" "cn_con c1 = None" "\<not> cn_relay c1"
    by (simp_all add: c1_def new_conn_def)
  have target: "share_target demo_env (ws_request_of host_request) empty_world = Some ([], [])"
    by (simp add: host_req share_target_def GetRoomByAppIdAndCreator_def empty_world_def room_ids_def demo_env_def map_filter_simps)
  define p1 where "p1 = p0\<lparr>conns := [c1]\<rparr>"
  have r1: "reach process_start process_step p1"
    by (rule step_to [OF r0]) (use w0 upgrade [of p0 True host_request] in \<open>simp_all add: p1_def c1_def ws_upgrade_def\<close>)
  define c2 where "c2 = c1\<lparr>cn_phase := Authorised, cn_target := ([], [])\<rparr>"
  define p2 where "p2 = p0\<lparr>conns := [c2]\<rparr>"
  have r2: "reach process_start process_step p2"
    by (rule step_to [OF r1])
      (use w0 c1 target authorise [of 0 p1 demo_env] in \<open>simp_all add: p1_def p2_def c2_def ws_authorise_def put_conn_def at_phase_def\<close>)
  define c3 where "c3 = c2\<lparr>cn_phase := Tunnelled, cn_tunnel := t\<rparr>"
  define p3 where "p3 = p0\<lparr>server_world := w, conns := [c3]\<rparr>"
  have "ws_connect demo_env live_connect 0 p2 = p3"
    by (simp add: ws_connect_def Let_def p2_def w0 c2_def c1 c p3_def c3_def put_conn_def)
  then have r3: "reach process_start process_step p3"
    using step_to [OF r2 _ connect [of 0 p2 demo_env live_connect]] w0 by (simp add: p2_def c2_def at_phase_def)
  define p4 where "p4 = ws_on_connect 0 p3"
  have r4: "reach process_start process_step p4"
    unfolding p4_def by (rule step_to [OF r3 _ on_connect]) (use w0 in \<open>simp_all add: p3_def c3_def at_phase_def\<close>)
  define c4 where "c4 = c3\<lparr>cn_phase := Counted\<rparr>"
  have p4: "conns p4 = [c4]" "server_world p4 = w" "proc_status p4 = Running" "feed p4 = Dialing"
    using w0 by (simp_all add: p4_def ws_on_connect_def put_conn_def p3_def c4_def Let_def)
  let ?req = "ws_request_of host_request"
  define q4 where "q4 = ws_query_app demo_env 0 p4"
  have s4: "reach process_start process_step q4"
    unfolding q4_def by (rule step_to [OF r4 _ query_app]) (use p4 in \<open>simp_all add: at_phase_def c4_def\<close>)
  have "query_sharing demo_env (appId ?req) = Some True" by (simp add: query_sharing_def host_req demo_env_def)
  then have q4: "q4 = p4\<lparr>conns := [c4\<lparr>cn_phase := Queried, cn_sharing := True\<rparr>]\<rparr>"
    using p4 by (simp add: q4_def ws_query_app_def put_conn_def Let_def c4_def c3_def c2_def c1)
  define h4 where "h4 = ws_make_channel ''i'' 0 q4"
  have t4: "reach process_start process_step h4"
    unfolding h4_def
    by (rule step_to [OF s4 _ make_channel])
      (use p4 q4 in \<open>simp_all add: at_phase_def channel_ids_def c4_def c3_def c2_def c1_def new_conn_def\<close>)
  define p5 where "p5 = ws_add_channel 0 h4"
  have h: "has_channel ?req" by (simp add: has_channel_def host_req)
  have cm0: "channelManagement p4 = NewChannelManagement"
    by (simp add: p4_def ws_on_connect_def put_conn_def Let_def p3_def p0_def start_process_def)
  have f4: "cn_request c4 = host_request" "cn_target c4 = ([], [])" "cn_tunnel c4 = t"
    by (simp_all add: c4_def c3_def c2_def c1)
  obtain cm where reg: "register_channel (appId ?req) (userId ?req) ''i'' (channelManagement p4) = (0, cm)"
    and cm: "chan_heap cm = [\<lparr>ch_buf = [], ch_closed = False\<rparr>]" "list_of cm ''app'' = [(''i'', 0)]"
    by (auto simp: cm0 register_channel_def NewChannelManagement_def host_req list_of_Add) (simp add: list_of_def)
  obtain cm1 where make: "new_channel (userId ?req) ''i'' (channelManagement p4) = (0, cm1)"
    and cm1: "ChannelManagement_Add (appId ?req) ''i'' 0 cm1 = cm"
    using reg by (auto simp: register_channel_steps split: prod.splits)
  define c5 where "c5 = c4\<lparr>cn_phase := Registered, cn_sharing := True, cn_chan := (''i'', 0), cn_feeding := True\<rparr>"
  have c5: "cn_phase c5 = Registered" "cn_request c5 = host_request" "cn_target c5 = ([], [])" "cn_tunnel c5 = t" "cn_sharing c5"
    by (simp_all add: c5_def f4)
  have h4: "h4 = p4\<lparr>conns := [c4\<lparr>cn_phase := Listed, cn_sharing := True, cn_chan := (''i'', 0)\<rparr>], channelManagement := cm1\<rparr>"
    by (simp add: h4_def ws_make_channel_def q4 f4 h make put_conn_def Let_def)
  have r5: "reach process_start process_step p5"
    unfolding p5_def
    by (rule step_to [OF t4 _ add_channel]) (use p4 h in \<open>simp_all add: h4 at_phase_def f4\<close>)
  have p5: "conns p5 = [c5]" "server_world p5 = w" "proc_status p5 = Running" "feed p5 = Dialing"
    "channelManagement p5 = cm"
    using p4 by (simp_all add: p5_def ws_add_channel_def h4 f4 cm1 put_conn_def Let_def c5_def)
  obtain a w2 where new: "NewRdpSessionRoom (tun_UUID t) (userId ?req) 0 (tun_ConnectionID t) True (appId ?req) (tun_LoggingInfo t)
      (emit [DbSaveActiveRdpSession (tun_UUID t) (userId ?req), KvPut (''guac-'' @ tun_UUID t) (guac_ip demo_env @ '':4567'')] w) = (a, w2)"
    by fastforce
  then have w2: "session_of w2 = session_of w" "\<exists>r. GetRdpSessionRoom w2 (tun_UUID t) = Some r \<and> map_of (Users r) (userId ?req) = Some a \<and>
      Creator r = ''host'' \<and> map_keys (Users r) = [''host'']" "room_ids w2 = [''n'']"
    using n by (auto simp: NewRdpSessionRoom_def alloc_client_def Let_def rooms.get_put session_of_def SessionData_Get_def
        fun_eq_iff host_req room_ids_def put_room_def emit_def GetRdpSessionRoom_def)
  define con where "con = \<lparr>con_client = a, con_session = tun_UUID t, con_ses = session_of w (tun_UUID t),
    con_user = userId ?req, con_tunnel = t\<rparr>"
  have e: "enter_room demo_env ?req 0 ([], []) t True w = (Val con, w2)"
    using new by (simp add: enter_room_def Let_def con_def)
  define p6 where "p6 = ws_enter demo_env 0 p5"
  have r6: "reach process_start process_step p6"
    unfolding p6_def by (rule step_to [OF r5 _ enter]) (use c5 p5 in \<open>simp_all add: at_phase_def\<close>)
  have p6: "conns p6 = [c5\<lparr>cn_phase := Entered, cn_con := Some con, cn_relay := True\<rparr>]" "proc_status p6 = Running"
    "feed p6 = Dialing" "channelManagement p6 = cm" "session_of (server_world p6) = session_of w2" "GetRdpSessionRoom (server_world p6) = GetRdpSessionRoom w2"
    "room_ids (server_world p6) = room_ids w2"
    using c5 p5 e by (simp_all add: p6_def ws_enter_def put_conn_def Let_def SendPermission_def WriteMessage_def fun_eq_iff room_ids_def)
  from w2(2) obtain r where "GetRdpSessionRoom w2 (tun_UUID t) = Some r \<and> map_of (Users r) (userId ?req) = Some a \<and>
      Creator r = ''host'' \<and> map_keys (Users r) = [''host'']" by (rule exE)
  then have "hosted p6 con r"
    using r6 p6 c5 w2(1,3) s cm n(1) by (simp add: hosted_def con_def host_req at_phase_def c5_def)
  then show ?thesis by (rule that)
qed

section \<open>Rooms and connections\<close>

lemma reach_world: "reach process_start process_step p \<Longrightarrow> world_inv (conns p) (server_world p)"
  using process.reach_inv [of p] by (simp add: process_inv_def proc_world_def)

text \<open>Every connection has a client of its own.\<close>

definition own_clients :: "conn list \<Rightarrow> bool" where
  "own_clients cs \<longleftrightarrow> (\<forall>j<length cs. \<forall>k<length cs. \<forall>c d. cn_con (cs ! j) = Some c \<longrightarrow> cn_con (cs ! k) = Some d \<longrightarrow>
     con_client c = con_client d \<longrightarrow> j = k)"

definition same_con :: "conn \<Rightarrow> conn \<Rightarrow> bool" where
  "same_con c c' \<longleftrightarrow> cn_con c' = cn_con c"

lemma moves_same_con:
  assumes "moves p p'" and "j < length (conns p')"
  shows "cn_con (conns p' ! j) = None \<or> (j < length (conns p) \<and> same_con (conns p ! j) (conns p' ! j)) \<or>
    (\<exists>env. at_phase Registered j p \<and> p' = ws_enter env j p)"
  using assms
proof (induction rule: moves.induct)
  case (upgrade p ok r)
  then show ?case
    by (auto simp: ws_upgrade_def nth_append new_conn_def same_con_def less_Suc_eq split: if_splits)
next
  case (enter env k p)
  show ?case
  proof (cases "j = k")
    case True
    with enter show ?thesis by blast
  next
    case False
    with enter show ?thesis
      by (auto simp: ws_enter_def put_conn_def same_con_def Let_def split: prod.splits outcome.splits)
  qed
qed (auto simp: conn_frames ws_make_channel_def ws_add_channel_def ws_remove_channel_def ws_policy_def feed_moves_def put_conn_def
    same_con_def nth_list_update split: if_splits option.splits outcome.splits prod.splits list.splits feed_result.splits)

text \<open>The client one enters with is new.\<close>

lemma enter_new_client:
  assumes "enter_room env req k t tun sharing w = (r, w')" and "entered_as req t tun w r = Some con"
  shows "con_client con = length (clients w)"
proof (cases t)
  case (Pair share permissions)
  show ?thesis
  proof (cases "share = []")
    case True
    then show ?thesis using assms by (auto simp: Pair enter_room_def NewRdpSessionRoom_def alloc_client_def Let_def)
  next
    case False
    obtain q w1 where j: "JoinRoom env share (userId req) k permissions w = (q, w1)" by fastforce
    note g = JoinRoom_grows [OF j]
    show ?thesis
      using assms False j g by (cases q) (auto simp: Pair enter_room_def Let_def split: option.splits)
  qed
qed

lemma entered_client:
  assumes "at_phase Registered k p" and "cn_con (conns p ! k) = None" and "cn_con (conns (ws_enter env k p) ! k) = Some con"
  shows "con_client con = length (clients (server_world p))"
proof -
  let ?c = "conns p ! k" and ?w = "server_world p"
  have k: "k < length (conns p)" using assms(1) by (simp add: at_phase_def)
  obtain r w1 where e: "enter_room env (cn_req ?c) k (cn_target ?c) (cn_tunnel ?c) (cn_sharing ?c) ?w = (r, w1)" by fastforce
  have "entered_as (cn_req ?c) (cn_target ?c) (cn_tunnel ?c) ?w r = Some con"
    using assms(2,3) k e by (cases r) (simp_all add: ws_enter_def put_conn_def Let_def)
  from enter_new_client [OF e this] show ?thesis .
qed

lemma own_clients_step:
  assumes "process_inv p" and "own_clients (conns p)" and m: "moves p p'"
  shows "own_clients (conns p')"
  unfolding own_clients_def
proof (intro allI impI)
  fix j k c d
  assume l: "j < length (conns p')" "k < length (conns p')" and
    s: "cn_con (conns p' ! j) = Some c" "cn_con (conns p' ! k) = Some d" and e: "con_client c = con_client d"
  have i: "world_inv (conns p) (server_world p)" using assms(1) by (simp add: process_inv_def proc_world_def)
  have new: "con_client x = length (clients (server_world p))"
    if "at_phase Registered n p" "p' = ws_enter env n p" "cn_con (conns p' ! n) = Some x" for env n x
  proof -
    have "n < length (conns p)" "cn_phase (conns p ! n) = Registered" using that(1) by (simp_all add: at_phase_def)
    with typed_conn_update [OF i] have "cn_con (conns p ! n) = None" by (auto simp: typed_conn_def early_def)
    from entered_client [OF that(1) this] that(2,3) show ?thesis by simp
  qed
  have old: "con_client x < length (clients (server_world p))" if "n < length (conns p)" "cn_con (conns p ! n) = Some x" for n x
    using typed_conn_update [OF i that(1)] that(2) by (simp add: typed_conn_def)
  have cases: "(n < length (conns p) \<and> cn_con (conns p ! n) = Some x) \<or> (\<exists>env. at_phase Registered n p \<and> p' = ws_enter env n p)"
    if "n < length (conns p')" "cn_con (conns p' ! n) = Some x" for n x
    using moves_same_con [OF m that(1)] that(2) by (auto simp: same_con_def)
  have same: "n = n'" if "at_phase Registered n p" "p' = ws_enter env n p" "at_phase Registered n' p" "p' = ws_enter env' n' p"
      "cn_con (conns p' ! n) = Some x" for n n' env env' x
  proof (rule ccontr)
    assume "n \<noteq> n'"
    have n: "n < length (conns p)" "cn_phase (conns p ! n) = Registered" using that(1) by (simp_all add: at_phase_def)
    then have "cn_con (conns p ! n) = None" using typed_conn_update [OF i] by (auto simp: typed_conn_def early_def)
    moreover have "conns p' ! n = conns p ! n"
      using \<open>n \<noteq> n'\<close> that(4) by (auto simp: ws_enter_def put_conn_def Let_def split: prod.split outcome.split)
    ultimately show False using that(5) by simp
  qed
  show "j = k"
    using cases [OF l(1) s(1)] cases [OF l(2) s(2)]
  proof (elim disjE exE conjE)
    show "j = k" if "j < length (conns p)" "cn_con (conns p ! j) = Some c" "k < length (conns p)" "cn_con (conns p ! k) = Some d"
      using assms(2) that e unfolding own_clients_def by blast
  next
    fix env assume "j < length (conns p)" "cn_con (conns p ! j) = Some c" and r: "at_phase Registered k p" "p' = ws_enter env k p"
    from old [OF this(1,2)] new [OF r s(2)] e show "j = k" by simp
  next
    fix env assume r: "at_phase Registered j p" "p' = ws_enter env j p" and "k < length (conns p)" "cn_con (conns p ! k) = Some d"
    from old [OF this(3,4)] new [OF r s(1)] e show "j = k" by simp
  next
    fix env env' assume "at_phase Registered j p" "p' = ws_enter env j p" "at_phase Registered k p" "p' = ws_enter env' k p"
    from same [OF this s(1)] show "j = k" .
  qed
qed

lemma reach_own_clients: "reach process_start process_step p \<Longrightarrow> own_clients (conns p)"
proof (induction rule: reach.induct)
  case (reach_start p)
  then show ?case by (auto simp: process_start_def start_process_def own_clients_def)
next
  case (reach_step p p')
  from own_clients_step [OF process.reach_inv [OF reach_step(1)] reach_step(3)] reach_step(2) show ?case
    by (simp add: process_step_def)
qed

text \<open>C2: whoever is listed in a room entered it, as that user, over a connection whose handler is still
  in its loops or has panicked, and no two entries are of the same client. So a connection that
  has left, or never entered, without a panic is in no room, whatever else failed. (A panic skips
  leaving: the user stays listed, also when the connection is closed, \<open>panicked_member_stays\<close>.)\<close>

theorem members_are_connected:
  assumes "reach process_start process_step p"
    and "GetRdpSessionRoom (server_world p) sid = Some r" and "map_of (Users r) u = Some a"
  shows "(\<exists>k con. k < length (conns p) \<and> cn_con (conns p ! k) = Some con \<and> con_session con = sid \<and> con_client con = a \<and>
      userId (cn_req (conns p ! k)) = u \<and> (cn_phase (conns p ! k) = Entered \<or> cn_panicked (conns p ! k))) \<and>
    (\<forall>k con. k < length (conns p) \<longrightarrow> cn_con (conns p ! k) = Some con \<longrightarrow> con_client con = a \<longrightarrow>
      cn_phase (conns p ! k) = Entered \<or> cn_panicked (conns p ! k)) \<and>
    (\<forall>sid' r' u'. GetRdpSessionRoom (server_world p) sid' = Some r' \<longrightarrow> map_of (Users r') u' = Some a \<longrightarrow> sid' = sid \<and> u' = u)"
proof (intro conjI)
  have i: "world_inv (conns p) (server_world p)" by (rule reach_world [OF assms(1)])
  then have "members_live (conns p) (server_world p)" by (simp add: world_inv_def)
  with assms(2,3) obtain k where k: "k < length (conns p)" "holds (conns p ! k) sid u a"
    unfolding members_live_def by blast
  with typed_conn_update [OF i k(1)]
  show "\<exists>k con. k < length (conns p) \<and> cn_con (conns p ! k) = Some con \<and> con_session con = sid \<and> con_client con = a \<and>
      userId (cn_req (conns p ! k)) = u \<and> (cn_phase (conns p ! k) = Entered \<or> cn_panicked (conns p ! k))"
    by (auto simp: holds_def typed_conn_def)
  show "\<forall>k con. k < length (conns p) \<longrightarrow> cn_con (conns p ! k) = Some con \<longrightarrow> con_client con = a \<longrightarrow>
      cn_phase (conns p ! k) = Entered \<or> cn_panicked (conns p ! k)"
  proof (intro allI impI)
    fix j con assume j: "j < length (conns p)" "cn_con (conns p ! j) = Some con" "con_client con = a"
    from k(2) obtain con' where "cn_con (conns p ! k) = Some con'" "con_client con' = a"
      "cn_phase (conns p ! k) = Entered \<or> cn_panicked (conns p ! k)" by (auto simp: holds_def)
    moreover from this(1,2) j k(1) reach_own_clients [OF assms(1)] have "j = k" unfolding own_clients_def by blast
    ultimately show "cn_phase (conns p ! j) = Entered \<or> cn_panicked (conns p ! j)" by simp
  qed
  have "rooms_inv (server_world p)" using i by (simp add: world_inv_def)
  with rooms_inv_unique [OF this assms(2,3)]
  show "\<forall>sid' r' u'. GetRdpSessionRoom (server_world p) sid' = Some r' \<longrightarrow> map_of (Users r') u' = Some a \<longrightarrow> sid' = sid \<and> u' = u"
    by blast
qed

lemma members_are_connected_witness:
  "\<exists>p sid r a. reach process_start process_step p \<and> GetRdpSessionRoom (server_world p) sid = Some r \<and>
     map_of (Users r) ''host'' = Some a \<and> (\<exists>k<length (conns p). userId (cn_req (conns p ! k)) = ''host'')"
proof -
  obtain p con r where "hosted p con r" by (rule host_process)
  then have p: "reach process_start process_step p"
    "GetRdpSessionRoom (server_world p) (con_session con) = Some r" "map_of (Users r) ''host'' = Some (con_client con)"
    unfolding hosted_def by blast+
  with members_are_connected [OF p] show ?thesis by blast
qed

text \<open>The host's handler panics: the deferred calls run, and the host stays in the room.\<close>

lemma panicked_member_stays:
  "\<exists>p con r. reach process_start process_step p \<and> at_phase Closed 0 p \<and> cn_con (conns p ! 0) = Some con \<and>
     GetRdpSessionRoom (server_world p) (con_session con) = Some r \<and> map_of (Users r) ''host'' = Some (con_client con)"
proof -
  obtain p con r where "hosted p con r" by (rule host_process)
  then have h: "reach process_start process_step p" "proc_status p = Running" "feed p = Dialing" "length (conns p) = 1"
    "at_phase Entered 0 p" "cn_con (conns p ! 0) = Some con"
    "GetRdpSessionRoom (server_world p) (con_session con) = Some r" "map_of (Users r) ''host'' = Some (con_client con)"
    unfolding hosted_def by blast+
  let ?p1 = "ws_panics 0 p"
  let ?p2 = "ws_remove_channel 0 ?p1"
  let ?p3 = "ws_on_disconnect 0 ?p2"
  have r1: "reach process_start process_step ?p1" by (rule step_to [OF h(1,2) panics [OF h(5)]])
  have len: "0 < length (conns p)" "conns p \<noteq> []" using h(4) by auto
  have a1: "at_phase Leaving 0 ?p1" "proc_status ?p1 = Running" "feed ?p1 = Dialing"
    using h len by (simp_all add: ws_panics_def put_conn_def at_phase_def Let_def)
  have r2: "reach process_start process_step ?p2" by (rule step_to [OF r1 a1(2) remove_channel [OF a1(1)]]) (simp add: a1(3))
  have a2: "at_phase Unregistered 0 ?p2" "proc_status ?p2 = Running"
    using h len by (simp_all add: ws_remove_channel_def ws_panics_def put_conn_def at_phase_def Let_def)
  have "reach process_start process_step ?p3" by (rule step_to [OF r2 a2(2) on_disconnect [OF a2(1)]])
  moreover have "at_phase Closed 0 ?p3" "cn_con (conns ?p3 ! 0) = Some con"
    "GetRdpSessionRoom (server_world ?p3) (con_session con) = Some r"
    using h(6,7) len
    by (simp_all add: ws_on_disconnect_def ws_remove_channel_def ws_panics_def put_conn_def at_phase_def Let_def)
  ultimately show ?thesis using h(8) by blast
qed

section \<open>Pointers\<close>

text \<open>C11: no pointer in the state is nil where a session is needed, or of something that was not
  allocated: what the session store holds (always a session), the sessions of the connections, the
  clients of rooms and connections, the sessions in what was logged and in the events whose
  goroutines were started, the tunnels and their handles; and every channel in the lists exists
  and is open. (A registered tunnel may be closed.) So no event that was started panics, the
  policy goroutine never sends on a closed channel, and removing a channel never closes one twice.\<close>

theorem process_typed:
  assumes "reach process_start process_step p"
  shows "(\<forall>k v. SessionData_Get (server_world p) k = Some v \<longrightarrow> (\<exists>q<length (session_heap (server_world p)). v = SessionPtr q)) \<and>
    (\<forall>sid r u a. GetRdpSessionRoom (server_world p) sid = Some r \<longrightarrow> map_of (Users r) u = Some a \<longrightarrow>
       a < length (clients (server_world p))) \<and>
    (\<forall>e\<in>set (trace (server_world p)). typed_effect (length (session_heap (server_world p))) e) \<and>
    (\<forall>c\<in>set (conns p). \<forall>con. cn_con c = Some con \<longrightarrow> con_client con < length (clients (server_world p)) \<and>
       (\<forall>q. con_ses con = Some q \<longrightarrow> q < length (session_heap (server_world p)))) \<and>
    (\<forall>key i ch. map_of (list_of (channelManagement p) key) i = Some ch \<longrightarrow>
       ch < length (chan_heap (channelManagement p)) \<and> \<not> ch_closed (chan_heap (channelManagement p) ! ch)) \<and>
    (\<forall>u h. map_of (tunnelMap (fst (http p))) u = Some h \<longrightarrow> h < length (handles (fst (http p))) \<and>
       Tunnel (handles (fst (http p)) ! h) < length (tunnels (fst (http p)))) \<and>
    (\<forall>env i. i < length (trace (server_world p)) \<longrightarrow> proc_status (run_event env i p) = proc_status p) \<and>
    (\<forall>e. visits e \<longrightarrow> connectToAstraea e (feed p) (channelManagement p) \<noteq> Crashes) \<and>
    (\<forall>app user i. fst (ChannelManagement_Remove app user i (channelManagement p)) = Val ())"
proof -
  have inv: "process_inv p" by (rule process.reach_inv [OF assms])
  then have i: "world_inv (conns p) (server_world p)" and c: "cm_inv (channelManagement p, open_channels (conns p))"
    and f: "feed_ok (feed p) (open_channels (conns p))" and t: "task_inv (http p)"
    by (simp_all add: process_inv_def proc_world_def proc_channels_def channels_inv_def)
  have ri: "rooms_inv (server_world p)" and tw: "typed_world (server_world p)" using i by (simp_all add: world_inv_def)
  have ch: "ch < length (chan_heap (channelManagement p)) \<and> \<not> ch_closed (chan_heap (channelManagement p) ! ch)"
    if "map_of (list_of (channelManagement p) key) i = Some ch" for key i ch
    using that cm_invD(3,4) [OF c] unfolding cm_invD(2) [OF c] by blast
  moreover have "h < length (handles (fst (http p))) \<and> Tunnel (handles (fst (http p)) ! h) < length (tunnels (fst (http p)))"
    if "map_of (tunnelMap (fst (http p))) u = Some h" for u h
    using that t tmap_ok_handle [of "fst (http p)" u h] by (simp add: task_inv_def)
  moreover have "\<forall>c\<in>set (conns p). typed_conn (server_world p) c" using i by (simp add: world_inv_def)
  moreover have "proc_status (run_event env j p) = proc_status p" if "j < length (trace (server_world p))" for env j
    by (rule run_event_typed [OF tw that, of env]) simp
  moreover have "connectToAstraea e (feed p) (channelManagement p) \<noteq> Crashes" if "visits e" for e
    by (rule feed_step_ok(1) [OF c f that])
  moreover have "fst (ChannelManagement_Remove app user j (channelManagement p)) = Val ()" for app user j
    using ch [of app j] by (simp add: ChannelManagement_Remove_def close_chan_def split: option.split)
  ultimately show ?thesis using rooms_inv_addr [OF ri] tw unfolding typed_world_def typed_conn_def typed_value_def by simp
qed

lemma process_typed_witness:
  "\<exists>p (con :: ws_connection) r. reach process_start process_step p \<and> GetRdpSessionRoom (server_world p) (con_session con) = Some r \<and>
     map_of (Users r) ''host'' = Some (con_client con) \<and> con_client con < length (clients (server_world p))"
proof -
  obtain p con r where "hosted p con r" by (rule host_process)
  then have p: "reach process_start process_step p"
    "GetRdpSessionRoom (server_world p) (con_session con) = Some r" "map_of (Users r) ''host'' = Some (con_client con)"
    unfolding hosted_def by blast+
  have "con_client con < length (clients (server_world p))"
    using conjunct1 [OF conjunct2 [OF process_typed [OF p(1)]]] p(2,3) by blast
  with p show ?thesis by blast
qed

section \<open>Counters\<close>

text \<open>C8: the session store counts, for every connection to guacd, the websockets between
  \<open>OnConnect\<close> and \<open>OnDisconnect\<close>, and the gauge \<open>active_rdp_count\<close> of a tenant shows how many of
  its connections are in a room: however connections fail, are refused, panic or end.\<close>

theorem process_counts:
  assumes "reach process_start process_step p" and "length (conns p) < 2 ^ 63 - 1"
  shows "MemorySessionStore_Get (sessions p) i =
      int (length (filter (\<lambda>c. is_counted c \<and> tun_ConnectionID (cn_tunnel c) = i) (conns p))) \<and>
    rdpCount t (trace (server_world p)) = int (length (filter (\<lambda>c. cn_phase c = Entered \<and> tenant_of c = t) (conns p)))"
proof -
  have "counts_inv (conns p) (sessions p) (trace (server_world p))"
    using process.reach_inv [OF assms(1)] by (simp add: process_inv_def proc_counts_def)
  then have "stores (sessions p) (counted_ids (conns p))"
    and g: "rdpCount t (trace (server_world p)) = int (length (filter (in_room t) (conns p)))"
    using assms(2) by (simp_all add: counts_inv_def)
  from stores_Get [OF this(1), of i] have "MemorySessionStore_Get (sessions p) i =
      int (count (mset (map (\<lambda>c. tun_ConnectionID (cn_tunnel c)) (filter is_counted (conns p)))) i)"
    by (simp add: counted_ids_def)
  also have "count (mset (map (\<lambda>c. tun_ConnectionID (cn_tunnel c)) (filter is_counted cs))) i =
      length (filter (\<lambda>c. is_counted c \<and> tun_ConnectionID (cn_tunnel c) = i) cs)" for cs
    by (induction cs) auto
  finally show ?thesis using g by (simp add: in_room_def [abs_def])
qed

lemma process_counts_witness:
  "\<exists>p. reach process_start process_step p \<and>
     rdpCount [] (trace (server_world p)) + (if length (conns p) = 1 \<and> tenant_of (conns p ! 0) = [] then 0 else 1) = 1"
proof -
  obtain p con r where "hosted p con r" by (rule host_process)
  then have p: "reach process_start process_step p" "length (conns p) = 1" "at_phase Entered 0 p"
    by (simp_all add: hosted_def)
  then obtain c where c: "conns p = [c]" "cn_phase c = Entered" by (auto simp: at_phase_def length_Suc_conv)
  have "rdpCount [] (trace (server_world p)) = (if tenant_of c = [] then 1 else 0)"
    using process_counts [OF p(1), of _ "[]"] by (simp add: c)
  with p c show ?thesis by (intro exI [of _ p]) simp
qed

end
