(* ===== verification/Admission.thy ===== *)
theory Admission
  imports ProcessProps
begin

text \<open>
  Who gets into a room of the process of \<open>Process\<close>: the check of a share link
  (\<open>ServeHTTP\<close> of \<open>pkg/ws_server.go\<close>) and the entering of the room are two steps, with
  the connecting to guacd and any number of steps of others between them.
\<close>

section \<open>Runs with given answers\<close>

text \<open>A step in which a share link, when one is checked, is checked with answers of the set \<open>E\<close>.\<close>

definition step_by :: "env set \<Rightarrow> process \<Rightarrow> process \<Rightarrow> bool" where
  "step_by E p p' \<longleftrightarrow> process_step p p' \<and>
     (\<forall>k. at_phase Upgraded k p \<longrightarrow> at_phase Authorised k p' \<longrightarrow> (\<exists>env\<in>E. p' = ws_authorise env k p))"

text \<open>Here or earlier the user created the room, or passed the check of a link to it.\<close>

definition allowed :: "env set \<Rightarrow> world \<Rightarrow> string \<Rightarrow> string \<Rightarrow> bool" where
  "allowed E w sid u \<longleftrightarrow> (\<exists>r. GetRdpSessionRoom w sid = Some r \<and> Creator r = u) \<or> (\<exists>env\<in>E. fst (AuthShare env w u sid))"

lemma AuthShare_listed: "fst (AuthShare env w u sid) \<Longrightarrow>
    \<exists>r. GetRdpSessionRoom w sid = Some r \<and> db_invitee env u sid \<noteq> None \<and> map_of (Users r) u = None"
  by (simp add: AuthShare_def split: option.splits if_splits)

definition was_allowed :: "env set \<Rightarrow> process \<Rightarrow> string \<Rightarrow> string \<Rightarrow> bool" where
  "was_allowed E p sid u \<longleftrightarrow>
     (\<exists>q. reach process_start (step_by E) q \<and> (step_by E)\<^sup>*\<^sup>* q p \<and> allowed E (server_world q) sid u)"

lemma reach_by: "reach process_start (step_by E) p \<Longrightarrow> reach process_start process_step p"
  by (induction rule: reach.induct) (auto simp: step_by_def intro: reach_start reach_step)

lemma was_allowed_now: "reach process_start (step_by E) p \<Longrightarrow> allowed E (server_world p) sid u \<Longrightarrow> was_allowed E p sid u"
  unfolding was_allowed_def by blast

lemma was_allowed_step: "was_allowed E p sid u \<Longrightarrow> step_by E p p' \<Longrightarrow> was_allowed E p' sid u"
  unfolding was_allowed_def by (meson rtranclp.rtrancl_into_rtrancl)

section \<open>What a step does to the members and the targets\<close>

lemma fewer_users_same: "(\<And>sid. GetRdpSessionRoom w' sid = GetRdpSessionRoom w sid) \<Longrightarrow> fewer_users w w'"
  by (simp add: fewer_users_def)

lemma receives_users:
  assumes "proc_world p"
  shows "fewer_users (server_world p) (server_world (ws_receives env k data p))"
proof (cases "cn_con (conns p ! k)")
  case (Some con)
  obtain r w where m: "ws_message env (con_client con) (con_session con) data (server_world p) = (r, w)" by fastforce
  have "typed_world (server_world p)" using assms by (simp add: proc_world_def world_inv_def)
  from ws_message_keeps [OF this] m have "fewer_users (server_world p) w" by (metis keeps_def snd_conv)
  then show ?thesis by (cases r) (simp_all add: ws_receives_def Some m)
qed (simp add: ws_receives_def fewer_users_same)

lemma server_info_users:
  assumes "proc_world p" and "at_phase Entered k p"
  shows "fewer_users (server_world p) (server_world (ws_server_info k ins p))"
proof (cases "cn_con (conns p ! k)")
  case (Some con)
  have i: "world_inv (conns p) (server_world p)" and k: "k < length (conns p)"
    using assms by (simp_all add: proc_world_def at_phase_def)
  obtain r w where m: "server_info (con_ses con) ins (server_world p) = (r, w)" by fastforce
  have "fewer_users (server_world p) w"
    using server_info_keeps [of "con_ses con"] typed_conn_update [OF i k] Some m by (metis keeps_def snd_conv typed_conn_def)
  then show ?thesis
    by (cases r) (simp_all add: ws_server_info_def Some m ws_panics_def put_conn_def Let_def fewer_users_def)
qed (simp add: ws_server_info_def fewer_users_same)

lemma leave_users:
  assumes "proc_world p" and "at_phase Entered k p"
  shows "fewer_users (server_world p) (server_world (ws_leave env k p))"
proof (cases "cn_con (conns p ! k)")
  case (Some con)
  let ?info = "tun_LoggingInfo (con_tunnel con)"
  have i: "world_inv (conns p) (server_world p)" and k: "k < length (conns p)"
    using assms by (simp_all add: proc_world_def at_phase_def)
  obtain r w where l: "LeaveRoom env (con_ses con) (con_session con) (con_user con) (li_ClientIp ?info)
      (li_ClientPrivateIp ?info) (server_world p) = (r, w)" by fastforce
  have "typed_world (server_world p)" using i by (simp add: world_inv_def)
  then have "fewer_users (server_world p) w"
    using LeaveRoom_keeps [of _ "con_ses con"] typed_conn_update [OF i k] Some l by (metis keeps_def snd_conv typed_conn_def)
  then show ?thesis by (simp add: ws_leave_def Some ws_close_def l put_conn_def Let_def fewer_users_def)
qed (simp add: ws_leave_def fewer_users_same)

lemma connect_users: "fewer_users (server_world p) (server_world (ws_connect env cenv k p))"
proof -
  obtain r w where c: "callback env cenv (cn_request (conns p ! k)) (server_world p) = (r, w)" by fastforce
  have "dialled (server_world p) w" using callback_dialled [of "server_world p" env cenv] c by (metis snd_conv)
  then have "fewer_users (server_world p) w" by (intro fewer_users_same) (simp add: dialled_def GetRdpSessionRoom_def)
  then show ?thesis by (cases r) (simp_all add: ws_connect_def c put_conn_def Let_def)
qed

lemma http_users: "fewer_users (server_world p) (server_world (http_opens env cenv req p))"
proof (cases "DemoDoConnect env cenv req (server_world p)")
  case (Some x)
  then obtain r w where x: "x = (r, w)" "dialled (server_world p) w" using DemoDoConnect_dialled by (cases x) blast
  then have "fewer_users (server_world p) w" by (intro fewer_users_same) (simp add: dialled_def GetRdpSessionRoom_def)
  then show ?thesis by (cases r) (simp_all add: http_opens_def Some x(1) Let_def)
qed (simp add: http_opens_def fewer_users_same)

lemma event_users: "fewer_users (server_world p) (server_world (run_event env i p))"
  by (rule fewer_users_same)
    (auto simp: run_event_def SendEvent_def sendBlockEvent_def Log_def Let_def split: effect.split option.split prod.split)

lemma policy_users: "fewer_users (server_world p) (server_world (ws_policy actions k p))"
  "fewer_users (server_world p) (server_world (ws_first_policy actions k p))"
  by (rule fewer_users_same, auto simp: ws_policy_def ws_first_policy_def BroadCastPolicy_def put_conn_def Let_def
      split: list.split option.split)+

lemma quiet_users: "fewer_users w w" "fewer_users w (emit es w)"
  by (simp_all add: fewer_users_def)

lemma quiet_worlds: "server_world (ws_upgrade ok r p) = server_world p" "server_world (ws_authorise env k p) = server_world p"
  "server_world (ws_on_connect k p) = server_world p" "server_world (ws_query_app env k p) = server_world p"
  "server_world (ws_make_channel i k p) = server_world p" "server_world (ws_add_channel k p) = server_world p"
  "server_world (ws_remove_channel k p) = server_world p" "server_world (ws_on_disconnect k p) = server_world p"
  "server_world (feed_moves e p) = server_world p"
  by (simp_all add: conn_steps ws_upgrade_def feed_moves_def split: option.split prod.split feed_result.split)

text \<open>Only entering a room adds a user to one.\<close>

lemma moves_users:
  assumes "moves p p'" and "proc_world p"
  shows "fewer_users (server_world p) (server_world p') \<or> (\<exists>env k. at_phase Registered k p \<and> p' = ws_enter env k p)"
  using assms
proof (induction rule: moves.induct)
  case (enter env k p)
  then show ?case by blast
qed (simp_all add: receives_users server_info_users leave_users connect_users http_users event_users policy_users
    quiet_users quiet_worlds ws_relays_def ws_panics_def put_conn_def Let_def)

text \<open>Only the check of a share link sets the target of a connection; the request never changes.\<close>

definition same_target :: "conn \<Rightarrow> conn \<Rightarrow> bool" where
  "same_target c c' \<longleftrightarrow> cn_target c' = cn_target c \<and> cn_request c' = cn_request c"

lemma target_put:
  assumes "same_target (conns p ! k) c" and "conns p' = (conns p)[k := c]"
  shows "j < length (conns p') \<Longrightarrow> same_target (conns p ! j) (conns p' ! j)"
  using assms by (cases "j = k") (simp_all add: same_target_def)

lemma moves_targets:
  assumes "moves p p'" and "j < length (conns p')"
  shows "fst (cn_target (conns p' ! j)) = [] \<or> j < length (conns p) \<and>
    (same_target (conns p ! j) (conns p' ! j) \<or> (at_phase Upgraded j p \<and> at_phase Authorised j p'))"
  using assms
proof (induction rule: moves.induct)
  case (upgrade p ok r)
  then show ?case
    by (auto simp: ws_upgrade_def nth_append new_conn_def same_target_def less_Suc_eq split: if_splits)
next
  case (authorise k p env)
  then show ?case
    by (cases "j = k") (auto simp: ws_authorise_def put_conn_def at_phase_def same_target_def Let_def split: option.splits)
qed (auto simp: conn_frames ws_make_channel_def ws_add_channel_def ws_remove_channel_def ws_policy_def feed_moves_def put_conn_def same_target_def
    nth_list_update split: if_splits option.splits outcome.splits prod.splits list.splits feed_result.splits)

section \<open>The invariant\<close>

definition admission_inv :: "env set \<Rightarrow> process \<Rightarrow> bool" where
  "admission_inv E p \<longleftrightarrow> reach process_start (step_by E) p \<and>
     (\<forall>c\<in>set (conns p). fst (cn_target c) \<noteq> [] \<longrightarrow> was_allowed E p (fst (cn_target c)) (userId (cn_req c))) \<and>
     (\<forall>sid r u a. GetRdpSessionRoom (server_world p) sid = Some r \<longrightarrow> map_of (Users r) u = Some a \<longrightarrow> was_allowed E p sid u)"

lemma reach_rooms: "reach process_start (step_by E) p \<Longrightarrow> rooms_inv (server_world p)"
  using reach_world [OF reach_by] by (simp add: world_inv_def)

lemma share_target_allowed:
  assumes "share_target env req w = Some t" and "fst t \<noteq> []" and "env \<in> E" and "rooms_inv w"
  shows "allowed E w (fst t) (userId req)"
proof (cases "shareSessionId req = []")
  case True
  then obtain r where r: "GetRoomByAppIdAndCreator env w (appId req) (userId req) = Some r" "fst t = SessionId r"
    using assms(1,2) by (auto simp: share_target_def split: option.splits)
  then have c: "Creator r = userId req"
    and m: "r \<in> set (List.map_filter (GetRdpSessionRoom w) (order env FindRoom (room_ids w)))"
    by (auto simp: GetRoomByAppIdAndCreator_def find_Some_iff)
  then obtain sid where "GetRdpSessionRoom w sid = Some r" by (auto simp: set_map_filter_keys)
  with rooms_inv_room [OF assms(4) this] c r(2) show ?thesis by (auto simp: allowed_def room_ok_def)
next
  case False
  then have "fst t = shareSessionId req" and "fst (AuthShare env w (userId req) (shareSessionId req))"
    using assms(1) by (auto simp: share_target_def split: prod.splits if_splits)
  with assms(3) show ?thesis unfolding allowed_def by auto
qed

text \<open>Whoever enters opened the room, or joins the room of the target.\<close>

lemma enter_room_allowed:
  assumes "enter_room env req k t tun sharing w = (r, w')" and "entered_as req t tun w r = Some con"
  shows "con_user con = userId req \<and> ((con_session con = fst t \<and> fst t \<noteq> []) \<or>
    (\<exists>r. GetRdpSessionRoom w' (con_session con) = Some r \<and> Creator r = userId req))"
proof (cases t)
  case (Pair share permissions)
  show ?thesis
  proof (cases "share = []")
    case True
    then show ?thesis using assms
      by (auto simp: Pair enter_room_def NewRdpSessionRoom_def alloc_client_def Let_def rooms.get_put)
  next
    case False
    then show ?thesis using assms
      by (auto simp: Pair enter_room_def Let_def split: prod.splits outcome.splits option.splits)
  qed
qed

lemma target_allowed:
  assumes i: "admission_inv E p" and s: "step_by E p p'" and "j < length (conns p')" and t: "fst (cn_target (conns p' ! j)) \<noteq> []"
  shows "was_allowed E p' (fst (cn_target (conns p' ! j))) (userId (cn_req (conns p' ! j)))"
proof -
  have r: "reach process_start (step_by E) p" using i by (simp add: admission_inv_def)
  have "moves p p'" using s by (simp add: step_by_def process_step_def)
  from moves_targets [OF this assms(3)] t consider
    "j < length (conns p)" "same_target (conns p ! j) (conns p' ! j)"
    | "at_phase Upgraded j p" "at_phase Authorised j p'" by blast
  then show ?thesis
  proof cases
    case 1
    with i t show ?thesis by (auto simp: admission_inv_def same_target_def intro: was_allowed_step [OF _ s])
  next
    case 2
    with s obtain env where env: "env \<in> E" "p' = ws_authorise env j p" unfolding step_by_def by blast
    have j: "j < length (conns p)" using 2(1) by (simp add: at_phase_def)
    show ?thesis
    proof (cases "share_target env (cn_req (conns p ! j)) (server_world p)")
      case (Some t')
      with env j have c: "cn_target (conns p' ! j) = t'" "cn_request (conns p' ! j) = cn_request (conns p ! j)"
        by (simp_all add: ws_authorise_def put_conn_def Let_def)
      from share_target_allowed [OF Some _ env(1) reach_rooms [OF r]] t c
      have "allowed E (server_world p) (fst t') (userId (cn_req (conns p ! j)))" by simp
      from was_allowed_step [OF was_allowed_now [OF r this] s] c show ?thesis by simp
    qed (use 2 env j in \<open>simp add: ws_authorise_def put_conn_def at_phase_def Let_def\<close>)
  qed
qed

lemma entered_allowed:
  assumes i: "admission_inv E p" and s: "step_by E p p'" and at: "at_phase Registered k p" "p' = ws_enter env k p"
    and g: "GetRdpSessionRoom (server_world p') sid = Some rm" "map_of (Users rm) u = Some a"
    and no: "\<not> (\<exists>r. GetRdpSessionRoom (server_world p) sid = Some r \<and> map_of (Users r) u = Some a)"
  shows "was_allowed E p' sid u"
proof -
  let ?c = "conns p ! k"
  have r: "reach process_start (step_by E) p" using i by (simp add: admission_inv_def)
  have k: "k < length (conns p)" using at(1) by (simp add: at_phase_def)
  have tw: "typed_world (server_world p)" using reach_world [OF reach_by [OF r]] by (simp add: world_inv_def)
  obtain x w1 where e: "enter_room env (cn_req ?c) k (cn_target ?c) (cn_tunnel ?c) (cn_sharing ?c) (server_world p) = (x, w1)" by fastforce
  note l = enter_room_grows [OF e tw]
  have p': "GetRdpSessionRoom (server_world p') = GetRdpSessionRoom w1"
    unfolding at(2) by (cases x) (simp_all add: ws_enter_def e put_conn_def Let_def SendPermission_def WriteMessage_def fun_eq_iff)
  with g(1) have g1: "GetRdpSessionRoom w1 sid = Some rm" by simp
  obtain con where con: "entered_as (cn_req ?c) (cn_target ?c) (cn_tunnel ?c) (server_world p) x = Some con"
    using l g1 g(2) no by (cases "entered_as (cn_req ?c) (cn_target ?c) (cn_tunnel ?c) (server_world p) x") auto
  from l [unfolded con option.case] have "lets_in (server_world p) w1 (con_session con) (con_user con) (con_client con)" by blast
  with g1 g(2) no have eq: "sid = con_session con" "u = con_user con" unfolding lets_in_def by blast+
  note how = enter_room_allowed [OF e con]
  from how consider "con_session con = fst (cn_target ?c)" "fst (cn_target ?c) \<noteq> []"
    | rm where "GetRdpSessionRoom w1 (con_session con) = Some rm" "Creator rm = userId (cn_req ?c)" by blast
  then show ?thesis
  proof cases
    case 1
    with i k eq how show ?thesis by (auto simp: admission_inv_def intro: was_allowed_step [OF _ s])
  next
    case (2 rm)
    then have "allowed E (server_world p') sid u" using eq p' how by (simp add: allowed_def)
    then show ?thesis by (rule was_allowed_now [OF reach_step [of process_start "step_by E", OF r s]])
  qed
qed

interpretation admission: invariant_machine process_start "step_by E" "admission_inv E" for E
proof
  show "admission_inv E p" if "process_start p" for p
  proof -
    have "reach process_start (step_by E) p" using that by (rule reach_start)
    moreover have "conns p = []" "rdpRooms (server_world p) = []"
      using that by (auto simp: process_start_def start_process_def fresh_world_def)
    ultimately show ?thesis by (simp add: admission_inv_def GetRdpSessionRoom_def)
  qed
  fix p p' assume i: "admission_inv E p" and s: "step_by E p p'"
  have r: "reach process_start (step_by E) p" and r': "reach process_start (step_by E) p'"
    using i s by (auto simp: admission_inv_def intro: reach_step)
  have m: "moves p p'" and w: "proc_world p"
    using s reach_world [OF reach_by [OF r]] by (simp_all add: step_by_def process_step_def proc_world_def)
  have "was_allowed E p' sid u"
    if g: "GetRdpSessionRoom (server_world p') sid = Some rm" "map_of (Users rm) u = Some a" for sid rm u a
  proof (cases "\<exists>r. GetRdpSessionRoom (server_world p) sid = Some r \<and> map_of (Users r) u = Some a")
    case True
    with i show ?thesis by (auto simp: admission_inv_def intro: was_allowed_step [OF _ s])
  next
    case False
    with moves_users [OF m w] g obtain env k where "at_phase Registered k p" "p' = ws_enter env k p"
      unfolding fewer_users_def by blast
    from entered_allowed [OF i s this g False] show ?thesis .
  qed
  with target_allowed [OF i s] r' show "admission_inv E p'" unfolding admission_inv_def by (auto simp: in_set_conv_nth)
qed

text \<open>With all answers, these are the steps of the process.\<close>

lemma step_by_UNIV: "step_by UNIV p p' = process_step p p'"
proof -
  have "\<exists>env. p' = ws_authorise env k p" if "moves p p'" and "at_phase Upgraded k p" "at_phase Authorised k p'" for k
    using that
  proof cases
    case (authorise j env)
    have "j = k"
      using that(2,3) authorise(1) by (rule_tac ccontr) (auto simp: ws_authorise_def put_conn_def at_phase_def Let_def split: option.splits)
    with authorise show ?thesis by blast
  qed (auto simp: conn_frames ws_upgrade_def ws_make_channel_def ws_add_channel_def ws_remove_channel_def ws_policy_def feed_moves_def put_conn_def
    nth_append nth_list_update split: if_splits option.splits outcome.splits prod.splits list.splits feed_result.splits)
  then show ?thesis by (auto simp: step_by_def process_step_def)
qed

section \<open>A run with a guest\<close>

definition guest_request :: connect_request where
  "guest_request = demo_request [(''userId'', [''eve'']), (''shareSessionId'', [''n''])]"

lemma guest_req: "ws_request_of guest_request = \<lparr>shareSessionId = ''n'', userId = ''eve'', appId = [], clientIp = []\<rparr>"
  by (simp add: ws_request_of_def guest_request_def demo_request_def query_Get_def Let_def)

lemma guest_connects:
  assumes "hosted p con r"
  shows "share_target demo_env (ws_request_of guest_request) (server_world p) = Some (''n'', ''keyboard'') \<and>
    (\<exists>t. callback demo_env live_connect guest_request (server_world p) = (Val t, server_world p))"
proof
  let ?w = "server_world p" and ?q = "[(''userId'', [''eve'']), (''shareSessionId'', [''n''])]"
  have r: "GetRdpSessionRoom ?w ''n'' = Some r" and k: "map_keys (Users r) = [''host'']" and c: "Creator r = ''host''"
    and ids: "room_ids ?w = [''n'']" and ses: "session_of ?w ''n'' \<noteq> None"
    using assms by (auto simp: hosted_def)
  have "''eve'' \<notin> set (map_keys (Users r))" by (simp add: k)
  then have "map_of (Users r) ''eve'' = None" using map_key_mem [of "Users r" "''eve''"] by fastforce
  then show "share_target demo_env (ws_request_of guest_request) ?w = Some (''n'', ''keyboard'')"
    by (simp add: guest_req share_target_def AuthShare_def r demo_env_def)
  have target: "connect_target demo_env ?q ?w = ''n''"
    by (simp add: connect_target_def query_Get_def GetRoomByAppIdAndCreator_def ids r c demo_env_def map_filter_simps)
  obtain v where v: "SessionData_Get ?w ''n'' = Some (SessionPtr v)"
    using ses by (auto simp: session_of_def split: option.splits store_value.splits)
  have q: "connect_query live_connect guest_request = Inr ?q" by (simp add: guest_request_def)
  obtain t where "DemoDoConnect demo_env live_connect guest_request ?w = Some (Val t, ?w)"
    using live_dials by (simp add: DemoDoConnect_def q target connect_join_def v r Let_def) blast
  then show "\<exists>t. callback demo_env live_connect guest_request ?w = (Val t, ?w)" by (simp add: callback_def)
qed

lemma guest_process:
  obtains p r a where "reach process_start process_step p" and "GetRdpSessionRoom (server_world p) ''n'' = Some r"
    and "map_of (Users r) ''eve'' = Some a" and "Creator r = ''host''"
proof -
  obtain p0 con r where h: "hosted p0 con r" by (rule host_process)
  then have p0: "reach process_start process_step p0" "proc_status p0 = Running" "length (conns p0) = 1"
    "GetRdpSessionRoom (server_world p0) ''n'' = Some r" "Creator r = ''host''" "cn_chan (conns p0 ! 0) = (''i'', 0)"
    "session_of (server_world p0) ''n'' \<noteq> None"
    by (auto simp: hosted_def)
  then obtain c0 where c0: "conns p0 = [c0]" by (auto simp: length_Suc_conv)
  let ?w = "server_world p0" and ?req = "ws_request_of guest_request"
  from guest_connects [OF h] obtain t where target: "share_target demo_env ?req ?w = Some (''n'', ''keyboard'')"
    and t: "callback demo_env live_connect guest_request ?w = (Val t, ?w)" by blast
  define c1 where "c1 = new_conn guest_request"
  define c2 where "c2 = c1\<lparr>cn_phase := Authorised, cn_target := (''n'', ''keyboard'')\<rparr>"
  define c3 where "c3 = c2\<lparr>cn_phase := Tunnelled, cn_tunnel := t\<rparr>"
  define c4 where "c4 = c3\<lparr>cn_phase := Counted\<rparr>"
  define q4 where "q4 = c4\<lparr>cn_phase := Queried\<rparr>"
  define c5 where "c5 = q4\<lparr>cn_phase := Registered\<rparr>"
  note cs = c1_def c2_def c3_def c4_def q4_def c5_def new_conn_def
  have nc: "\<not> has_channel ?req" by (simp add: has_channel_def guest_req)
  define p4 where "p4 = p0\<lparr>conns := [c0, c4], sessions := MemorySessionStore_Add (tun_ConnectionID t) (sessions p0)\<rparr>"
  have "reach process_start process_step (p0\<lparr>conns := [c0, c1]\<rparr>)"
    by (rule step_to [OF p0(1,2)])
      (use upgrade [of p0 True guest_request] c0 in \<open>simp add: ws_upgrade_def c1_def\<close>)
  moreover have "ws_authorise demo_env 1 (p0\<lparr>conns := [c0, c1]\<rparr>) = p0\<lparr>conns := [c0, c2]\<rparr>"
    using target by (simp add: ws_authorise_def put_conn_def cs Let_def)
  ultimately have "reach process_start process_step (p0\<lparr>conns := [c0, c2]\<rparr>)"
    using step_to [OF _ _ authorise [of 1 "p0\<lparr>conns := [c0, c1]\<rparr>" demo_env]] p0(2) by (simp add: at_phase_def c1_def new_conn_def)
  moreover have "ws_connect demo_env live_connect 1 (p0\<lparr>conns := [c0, c2]\<rparr>) = p0\<lparr>conns := [c0, c3]\<rparr>"
    using t by (simp add: ws_connect_def put_conn_def cs Let_def)
  ultimately have "reach process_start process_step (p0\<lparr>conns := [c0, c3]\<rparr>)"
    using step_to [OF _ _ connect [of 1 "p0\<lparr>conns := [c0, c2]\<rparr>" demo_env live_connect]] p0(2) by (simp add: at_phase_def c2_def)
  moreover have "ws_on_connect 1 (p0\<lparr>conns := [c0, c3]\<rparr>) = p4"
    by (simp add: ws_on_connect_def put_conn_def cs p4_def Let_def)
  ultimately have r4: "reach process_start process_step p4"
    using step_to [OF _ _ on_connect [of 1 "p0\<lparr>conns := [c0, c3]\<rparr>"]] p0(2) by (simp add: at_phase_def c3_def)
  let ?q = "p4\<lparr>conns := [c0, q4]\<rparr>"
  have "ws_query_app demo_env 1 p4 = ?q"
    by (simp add: ws_query_app_def query_sharing_def guest_req put_conn_def cs p4_def Let_def)
  then have rq: "reach process_start process_step ?q"
    using step_to [OF r4 _ query_app [of 1 p4 demo_env]] p0(2) by (simp add: at_phase_def p4_def c4_def)
  have "''x'' \<notin> channel_ids ?q" using p0(6) c0 by (simp add: channel_ids_def p4_def cs)
  moreover have "ws_make_channel ''x'' 1 ?q = p4\<lparr>conns := [c0, c5]\<rparr>"
    using nc by (simp add: ws_make_channel_def put_conn_def cs p4_def Let_def)
  ultimately have r5: "reach process_start process_step (p4\<lparr>conns := [c0, c5]\<rparr>)"
    using step_to [OF rq _ make_channel [of 1 ?q "''x''"]] nc p0(2) by (simp add: at_phase_def p4_def cs)
  let ?p = "ws_enter demo_env 1 (p4\<lparr>conns := [c0, c5]\<rparr>)"
  have "reach process_start process_step ?p"
    by (rule step_to [OF r5 _ enter]) (use p0(2) in \<open>simp_all add: at_phase_def p4_def c5_def\<close>)
  moreover obtain a r' where "GetRdpSessionRoom (server_world ?p) ''n'' = Some r'" "map_of (Users r') ''eve'' = Some a"
    "Creator r' = ''host''"
    using p0(4,5,7)
    by (auto simp: ws_enter_def p4_def cs guest_req enter_room_def JoinRoom_def room_join_def alloc_client_def Let_def put_conn_def
        send_all_emit SendPermission_def WriteMessage_def rooms.get_put go_map_simps
        split: option.splits)
  ultimately show ?thesis by (rule that)
qed

section \<open>Who is in a room\<close>

text \<open>C3: nobody gets into a room uninvited: whoever is in a room, in a run in which the database
  answers about share links as in \<open>E\<close>, opened a room with that session id or passed, at an
  earlier moment, the check of a link to it, for which the database listed them as an
  invitee, the room was there and they were not in it.\<close>

theorem members_were_admitted:
  assumes "reach process_start (step_by E) p"
    and "GetRdpSessionRoom (server_world p) sid = Some r" and "map_of (Users r) u = Some a"
  shows "\<exists>q. reach process_start (step_by E) q \<and> (step_by E)\<^sup>*\<^sup>* q p \<and>
    (\<exists>r0. GetRdpSessionRoom (server_world q) sid = Some r0 \<and>
      (Creator r0 = u \<or> (\<exists>env\<in>E. db_invitee env u sid \<noteq> None \<and> map_of (Users r0) u = None)))"
proof -
  have "was_allowed E p sid u" using admission.reach_inv [OF assms(1)] assms(2,3) by (auto simp: admission_inv_def)
  then obtain q where q: "reach process_start (step_by E) q" "(step_by E)\<^sup>*\<^sup>* q p" "allowed E (server_world q) sid u"
    unfolding was_allowed_def by blast
  from q(3) have "\<exists>r0. GetRdpSessionRoom (server_world q) sid = Some r0 \<and>
      (Creator r0 = u \<or> (\<exists>env\<in>E. db_invitee env u sid \<noteq> None \<and> map_of (Users r0) u = None))"
    unfolding allowed_def using AuthShare_listed by blast
  with q show ?thesis by blast
qed

lemma members_were_admitted_witness:
  "\<exists>p r a (env :: env) q r0. reach process_start process_step p \<and> GetRdpSessionRoom (server_world p) ''n'' = Some r \<and>
     map_of (Users r) ''eve'' = Some a \<and> Creator r \<noteq> ''eve'' \<and> reach process_start process_step q \<and>
     GetRdpSessionRoom (server_world q) ''n'' = Some r0 \<and> (Creator r0 = ''eve'' \<or> db_invitee env ''eve'' ''n'' \<noteq> None)"
proof -
  obtain p r a where p: "reach process_start process_step p" "GetRdpSessionRoom (server_world p) ''n'' = Some r"
    "map_of (Users r) ''eve'' = Some a" and c: "Creator r = ''host''" by (rule guest_process)
  have u: "step_by UNIV = process_step" by (simp add: fun_eq_iff step_by_UNIV)
  have "reach process_start (step_by UNIV) p" using p(1) by (simp only: u)
  from members_were_admitted [OF this p(2,3), unfolded u] obtain q r0 where q: "reach process_start process_step q"
    "GetRdpSessionRoom (server_world q) ''n'' = Some r0"
    and e: "Creator r0 = ''eve'' \<or> (\<exists>env\<in>(UNIV :: env set). db_invitee env ''eve'' ''n'' \<noteq> None \<and> map_of (Users r0) ''eve'' = None)"
    by (elim exE conjE) (rule that)
  from e obtain env :: env where "Creator r0 = ''eve'' \<or> db_invitee env ''eve'' ''n'' \<noteq> None" by blast
  moreover have "Creator r \<noteq> ''eve''" by (simp add: c)
  ultimately show ?thesis using p q by (intro exI conjI)
qed

end
