(* ===== verification/ProcessEnds.thy ===== *)
theory ProcessEnds
  imports ProcessProps
begin

text \<open>
  What ends the process, and what stops it for everybody: the messages whose commands panic in
  a goroutine of their own, the policy service that cannot be reached, two goroutines that meet
  at a map of the rooms, the return of \<open>main\<close>; and the connection that does not read its channel.
\<close>

section \<open>What ends the process\<close>










text \<open>The runtime does end it: a host leaves, which closes the room, while an HTTP client connects.\<close>

lemma fatal_error_happens:
  "\<exists>p p'. reach process_start process_step p \<and> process_step p p' \<and> proc_status p' = FatalError"
proof -
  obtain p con r where h: "hosted p con r" by (rule host_process)
  then have p: "reach process_start process_step p" "proc_status p = Running" "at_phase Entered 0 p" by (simp_all add: hosted_def)
  let ?as = "LeaveRoom_acc (Some False) (Some 0) [] (Some ([], True))" and ?bs = "connect_acc [] False False"
  have "doing p (Handler 0) ?as" "doing p (Client 0) ?bs" using p(3) by (auto intro: doing.intros)
  moreover have "meet ?as ?bs RoomsMap"
    by (simp add: meet_def LeaveRoom_acc_def leave_acc_def closeRoom_acc_def connect_acc_def GetRoomByAppIdAndCreator_acc_def)
  ultimately have "process_step p (p\<lparr>proc_status := FatalError\<rparr>)"
    using p(2) maps_meet [of p "Handler 0" ?as "Client 0" ?bs RoomsMap] by (simp add: process_step_def)
  with p(1) show ?thesis by (intro exI [of _ p] exI [of _ "p\<lparr>proc_status := FatalError\<rparr>"]) simp
qed

text \<open>Any participant, a viewer too, ends the process for everybody with one message: an
  \<open>AACMD\<close> instruction with a request id and nothing else.\<close>

theorem one_message_crashes:
  assumes "proc_status p = Running" and "env_ok env" and "k < length (conns p)" and "cn_relay (conns p ! k)"
    and "cn_con (conns p ! k) = Some con"
    and "session_of (server_world p) (con_session con) \<noteq> None"
  shows "process_step p (ws_receives env k (ins_bytes ''AACMD'' [''1'']) p) \<and>
    proc_status (ws_receives env k (ins_bytes ''AACMD'' [''1'']) p) = Crashed"
proof
  let ?d = "ins_bytes ''AACMD'' [''1'']"
  show "process_step p (ws_receives env k ?d p)"
    using assms(1) moves.receives [OF assms(2-4), of ?d] by (simp add: process_step_def)
  have b: "?d = ''5.AACMD,1.1;''" by code_simp
  have "Parse (?d @ []) = Val (NewInstruction ''AACMD'' [''1''])"
    by (rule Parse_ins_bytes) (simp_all add: is_ascii_def)
  then have "Parse ?d = Val (NewInstruction ''AACMD'' [''1''])" by simp
  from handleAppaegisCommand_parsed [OF this] assms(6)
  have "handleAppaegisCommand env a ?d (con_session con) (server_world p) = (Panic, server_world p)" for a
    by (auto simp: NewInstruction_def)
  then have "ws_message env (con_client con) (con_session con) ?d (server_world p) = (Panic, server_world p)"
    by (simp add: ws_message_def b internalOpcodeIns_def appaegisCmdOpcodeIns_def)
  then show "proc_status (ws_receives env k ?d p) = Crashed"
    by (simp add: ws_receives_def assms(5))
qed

lemma one_message_crashes_witness:
  "\<exists>p p'. reach process_start process_step p \<and> process_step p p' \<and> proc_status p' = Crashed"
proof -
  obtain p con r where h: "hosted p con r" by (rule host_process)
  then have "proc_status p = Running" "0 < length (conns p)" "cn_relay (conns p ! 0)"
    "cn_con (conns p ! 0) = Some con" "session_of (server_world p) (con_session con) \<noteq> None"
    by (auto simp add: hosted_def at_phase_def)
  from one_message_crashes [OF this(1) env_ok_demo this(2-5)] h show ?thesis by (auto simp: hosted_def)
qed

section \<open>A connection that does not read its channel\<close>

text \<open>The connections that are registered for policies and have not been removed yet, each with whether
  it is registered for the application too.\<close>

definition registered :: "process \<Rightarrow> (nat \<times> bool) set" where
  "registered p = {(k, b). k < length (conns p) \<and> in_channel (conns p ! k) \<and> b = (cn_phase (conns p ! k) \<noteq> Listed)}"

text \<open>A step after which the channel still holds what was sent to it.\<close>

definition unread_step :: "nat \<Rightarrow> process \<Rightarrow> process \<Rightarrow> bool" where
  "unread_step ch p p' \<longleftrightarrow> process_step p p' \<and> ch_buf (chan_heap (channelManagement p') ! ch) \<noteq> []"

definition waits_for :: "nat \<Rightarrow> process \<Rightarrow> bool" where
  "waits_for ch p \<longleftrightarrow> (\<exists>chs is. feed p = Sending (ch # chs) is) \<and> ch_buf (chan_heap (channelManagement p) ! ch) \<noteq> [] \<and>
     \<not> ch_closed (chan_heap (channelManagement p) ! ch)"

lemma registered_put:
  "in_channel c = in_channel (conns p ! k) \<Longrightarrow> cn_phase c = Listed \<longleftrightarrow> cn_phase (conns p ! k) = Listed \<Longrightarrow>
     registered (put_conn k c p) = registered p"
  by (cases "k < length (conns p)") (auto simp: registered_def put_conn_def nth_list_update list_update_beyond split: if_splits)

lemmas registered_frames = ws_authorise_def ws_connect_def ws_on_connect_def ws_query_app_def ws_make_channel_def ws_enter_def ws_panics_def ws_server_info_def
  ws_receives_def ws_relays_def ws_leave_def ws_on_disconnect_def ws_first_policy_def run_event_def http_opens_def
  at_phase_def Let_def in_channel_def ws_add_channel_def ws_remove_channel_def ws_policy_def feed_moves_def registered_put

lemma registered_upgrade: "registered (ws_upgrade ok r p) = registered p"
  by (auto simp: registered_def ws_upgrade_def nth_append in_channel_def new_conn_def less_Suc_eq)

lemma registered_updates [simp]: "registered (p\<lparr>server_world := w\<rparr>) = registered p" "registered (p\<lparr>channelManagement := cm\<rparr>) = registered p"
  "registered (p\<lparr>sessions := ss\<rparr>) = registered p" "registered (p\<lparr>http := h\<rparr>) = registered p"
  "registered (p\<lparr>ran := rs\<rparr>) = registered p" "registered (p\<lparr>proc_status := st\<rparr>) = registered p"
  by (simp_all add: registered_def)

lemma registered_conns: "conns p' = conns p \<Longrightarrow> registered p' = registered p"
  by (simp add: registered_def)

lemma put_conn_frame [simp]: "channelManagement (put_conn k c p) = channelManagement p" "feed (put_conn k c p) = feed p"
  by (simp_all add: put_conn_def)

lemma unread_keeps:
  assumes "waits_for ch p" and "unread_step ch p p'"
  shows "waits_for ch p' \<and> feed p' = feed p \<and> registered p' = registered p"
proof -
  obtain chs "is" where f: "feed p = Sending (ch # chs) is" and b: "ch_buf (chan_heap (channelManagement p) ! ch) \<noteq> []"
    "\<not> ch_closed (chan_heap (channelManagement p) ! ch)" using assms(1) by (auto simp: waits_for_def)
  have l: "\<not> lock_free (feed p)" by (simp add: f)
  have u: "moves p p'" and b': "ch_buf (chan_heap (channelManagement p') ! ch) \<noteq> []"
    using assms(2) by (simp_all add: unread_step_def process_step_def)
  have same: ?thesis if "feed p' = feed p" "channelManagement p' = channelManagement p" "registered p' = registered p"
    using that f b by (simp add: waits_for_def)
  from u show ?thesis
  proof cases
    case (feed e)
    then have "p' = p" using f b by (cases e) (simp_all add: feed_moves_def)
    then show ?thesis by (intro same) simp_all
  next
    case (policy k actions)
    let ?c = "snd (cn_chan (conns p ! k))"
    have "ch_closed (chan_heap (channelManagement p') ! ch) = ch_closed (chan_heap (channelManagement p) ! ch)"
      unfolding policy(1)
      by (cases "?c = ch"; cases "?c < length (chan_heap (channelManagement p))")
        (auto simp: ws_policy_def Let_def list_update_beyond split: list.split)
    moreover have "feed p' = feed p" "conns p' = conns p"
      unfolding policy(1) by (auto simp: ws_policy_def Let_def split: list.split)
    ultimately show ?thesis using f b b' registered_conns [of p' p] by (simp add: waits_for_def)
  next
    case (make_channel k i)
    with l have "\<not> has_channel (cn_req (conns p ! k))" by blast
    with make_channel show ?thesis by (intro same) (simp_all add: registered_frames)
  next
    case (add_channel k)
    with l show ?thesis by blast
  next
    case (remove_channel k)
    with l have "\<not> has_channel (cn_req (conns p ! k))" by blast
    with remove_channel show ?thesis by (intro same) (simp_all add: registered_frames)
  next
    case upgrade
    then show ?thesis by (intro same) (simp_all add: registered_upgrade, simp_all add: ws_upgrade_def)
  qed (intro same; simp add: registered_frames split: option.split outcome.split prod.split)+
qed

text \<open>The policy service names an application twice before its connection has read the first.\<close>

lemma full_channel:
  obtains p where "reach process_start process_step p" and "proc_status p = Running" and "waits_for 0 p" and "at_phase Entered 0 p"
proof -
  obtain q con r where "hosted q con r" by (rule host_process)
  then have q: "reach process_start process_step q" "proc_status q = Running" "feed q = Dialing" "at_phase Entered 0 q"
    "chan_heap (channelManagement q) = [\<lparr>ch_buf = [], ch_closed = False\<rparr>]"
    "list_of (channelManagement q) ''app'' = [(''i'', 0)]" by (simp_all add: hosted_def)
  let ?go = "\<lambda>p e. feed_moves e p"
  let ?es = "[Dialed, Requested [(''e'', [''app'', ''app''])], Continues id, Continues id, Continues id, Continues id]"
  have v: "\<forall>e\<in>set ?es. visits e" by (simp add: is_order_def)
  have steps: "reach process_start process_step (fold feed_moves es p) \<and> at_phase Entered 0 (fold feed_moves es p)"
    if "\<forall>e\<in>set es. visits e" "\<forall>n\<le>length es. proc_status (fold feed_moves (take n es) p) = Running"
      "reach process_start process_step p" "at_phase Entered 0 p" for es p
    using that
  proof (induction es arbitrary: p)
    case (Cons e es)
    have s: "proc_status p = Running" using Cons.prems(2) [rule_format, of 0] by simp
    have "reach process_start process_step (feed_moves e p)"
      using step_to [OF Cons.prems(3) s moves.feed] Cons.prems(1) by simp
    moreover have "at_phase Entered 0 (feed_moves e p)"
      using Cons.prems(4) by (simp add: feed_moves_def at_phase_def split: feed_result.split)
    moreover have "\<forall>n\<le>length es. proc_status (fold feed_moves (take n es) (feed_moves e p)) = Running"
    proof (intro allI impI)
      fix n assume "n \<le> length es"
      with Cons.prems(2) [rule_format, of "Suc n"] show "proc_status (fold feed_moves (take n es) (feed_moves e p)) = Running" by simp
    qed
    ultimately show ?case using Cons.IH Cons.prems(1) by simp
  qed simp
  note run = feed_moves_def q put_op_def map_filter_simps
  have "\<forall>n\<le>length ?es. proc_status (fold feed_moves (take n ?es) q) = Running"
    by (simp add: run le_Suc_eq)
  from steps [OF v this q(1,4)] have "reach process_start process_step (fold feed_moves ?es q)" "at_phase Entered 0 (fold feed_moves ?es q)"
    by blast+
  moreover have "waits_for 0 (fold feed_moves ?es q)" "proc_status (fold feed_moves ?es q) = Running"
    by (simp_all add: run waits_for_def)
  ultimately show ?thesis using that by blast
qed

text \<open>C21: while the goroutine of the policy service waits to send to a connection that does not
  read, it holds the lock of all channels: however long the others run, it stays where it is,
  no connection of an identified user is registered, and none that ends is removed or
  closed.\<close>

theorem slow_reader_blocks_all:
  assumes "waits_for ch p" and "(unread_step ch)\<^sup>*\<^sup>* p p'"
  shows "feed p' = feed p \<and>
    {k. k < length (conns p') \<and> has_channel (cn_req (conns p' ! k)) \<and> cn_phase (conns p' ! k) \<in> {Registered, Entered, Leaving}} =
    {k. k < length (conns p) \<and> has_channel (cn_req (conns p ! k)) \<and> cn_phase (conns p ! k) \<in> {Registered, Entered, Leaving}}"
proof -
  from assms(2) have "waits_for ch p' \<and> feed p' = feed p \<and> registered p' = registered p"
    by (induction rule: rtranclp_induct) (use assms(1) unread_keeps in \<open>simp_all, metis\<close>)
  then have f: "feed p' = feed p" and r: "\<And>k. (k, True) \<in> registered p' \<longleftrightarrow> (k, True) \<in> registered p" by simp_all
  have "k < length (conns q) \<and> has_channel (cn_req (conns q ! k)) \<and> cn_phase (conns q ! k) \<in> {Registered, Entered, Leaving} \<longleftrightarrow>
      (k, True) \<in> registered q" for k q by (auto simp: registered_def in_channel_def)
  with f r show ?thesis by simp
qed

lemma slow_reader_blocks_all_witness:
  "\<exists>p p'. reach process_start process_step p \<and> (unread_step 0)\<^sup>*\<^sup>* p p' \<and> p' \<noteq> p \<and> feed p' = feed p"
proof -
  obtain p where p: "reach process_start process_step p" "proc_status p = Running" "waits_for 0 p" "at_phase Entered 0 p"
    by (rule full_channel)
  let ?q = "ws_relays 0 ''x'' p"
  have "unread_step 0 p ?q"
    using moves.relays [OF p(4), of "''x''"] p(2,3) by (simp add: unread_step_def process_step_def waits_for_def ws_relays_def)
  moreover have "trace (server_world ?q) \<noteq> trace (server_world p)" by (simp add: ws_relays_def)
  ultimately show ?thesis using slow_reader_blocks_all [OF p(3), of ?q] p(1) by (metis r_into_rtranclp)
qed

end
