(* ===== verification/Startup.thy ===== *)
theory Startup
  imports Process Queues Logging
begin

text \<open>
  How the program gets to the state in which \<open>Process\<close> starts: the \<open>init\<close> functions of the
  packages and \<open>main\<close> (\<open>cmd/guac/guac.go\<close>), with the client for Kubernetes (\<open>pkg/k8s.go\<close>), and
  which handler serves which path.
\<close>

section \<open>What it finds\<close>

text \<open>
  The environment variables; whether the database of countries can be opened; what opening
  the log file answers and whether the logger of recordings can be built; the home
  directory; the configurations for Kubernetes, in the cluster and from a file, and the error
  of making a client of one.
\<close>

record main_env =
  Getenv :: "string \<Rightarrow> string"
  geo_opens :: bool
  log_file :: "nat option"
  zap_builds :: bool
  home_dir :: string
  in_cluster_config :: "string + nat"
  file_config :: "string \<Rightarrow> string + nat"
  client_error :: "nat \<Rightarrow> string option"

text \<open>\<open>init\<close> of \<open>kv.go\<close>.\<close>

definition GuacIp :: "main_env \<Rightarrow> string" where
  "GuacIp env = (if Getenv env ''POD_IP'' \<noteq> [] then Getenv env ''POD_IP'' else ''127.0.0.1'')"

text \<open>The namespace; \<open>None\<close> is a panic.\<close>

definition InitK8S :: "main_env \<Rightarrow> string option" where
  "InitK8S env =
     (let cfg = (if Getenv env ''POD_IP'' \<noteq> [] then in_cluster_config env
                 else file_config env (if home_dir env \<noteq> [] then home_dir env @ ''/.kube/config'' else []))
      in case cfg of
           Inl e \<Rightarrow> None
         | Inr c \<Rightarrow>
             (case client_error env c of
                Some e \<Rightarrow> None
              | None \<Rightarrow> Some (if Getenv env ''POD_NAMESPACE'' \<noteq> [] then Getenv env ''POD_NAMESPACE'' else ''appaegis'')))"

section \<open>\<open>main\<close>\<close>

record service =
  NAMESPACE :: string
  queue_number :: int
  own_ip :: string
  geo_database :: bool
  log_files :: log_state
  serving :: process

datatype boot = BootPanics | BootExits | Serves service

text \<open>
  Up to \<open>ListenAndServe\<close>. The world is what the store of sessions and the clock are then; the
  stores of sessions and channels are new, and \<open>OnConnect\<close>, \<open>OnDisconnect\<close> and the channels of
  the websocket server are theirs.
\<close>

definition main_guac :: "main_env \<Rightarrow> world \<Rightarrow> int \<Rightarrow> boot" where
  "main_guac env w t =
     (case theNumberOfQueues (Getenv env ''NUMBER_OF_TRANSCODING_QUEUE'') of
        None \<Rightarrow> BootPanics
      | Some q \<Rightarrow>
          (case logging_Init (log_file env) (zap_builds env) log_init of
             None \<Rightarrow> BootExits
           | Some l \<Rightarrow>
               (case InitK8S env of
                  None \<Rightarrow> BootPanics
                | Some n \<Rightarrow>
                    Serves \<lparr>NAMESPACE = n, queue_number = q, own_ip = GuacIp env, geo_database = geo_opens env,
                      log_files = l, serving = start_process w t\<rparr>)))"

section \<open>Paths\<close>

datatype handler = Servlet | WsServer | SessionsPage | Promhttp

definition mux_entries :: "(string \<times> handler) list" where
  "mux_entries = [(''/tunnel'', Servlet), (''/tunnel/'', Servlet), (''/websocket-tunnel'', WsServer),
     (''/sessions/'', SessionsPage), (''/metrics'', Promhttp)]"

text \<open>
  \<open>ServeMux\<close>: a pattern that ends in a slash matches the paths below it, and the longest
  pattern wins. A path that only lacks the slash is redirected.
\<close>

datatype served = Handled handler | Redirected string | NotFound

definition matches :: "string \<Rightarrow> string \<Rightarrow> bool" where
  "matches path pat \<longleftrightarrow> pat = path \<or> (pat \<noteq> [] \<and> last pat = CHR ''/'' \<and> HasPrefix path pat)"

fun longest_match :: "string \<Rightarrow> (string \<times> handler) list \<Rightarrow> (string \<times> handler) option" where
  "longest_match path [] = None"
| "longest_match path ((pat, h) # es) =
     (case longest_match path es of
        None \<Rightarrow> if matches path pat then Some (pat, h) else None
      | Some (pat', h') \<Rightarrow> if matches path pat \<and> length pat' < length pat then Some (pat, h) else Some (pat', h'))"

definition mux_Handler :: "(string \<times> handler) list \<Rightarrow> string \<Rightarrow> served" where
  "mux_Handler es path =
     (case longest_match path es of
        Some (pat, h) \<Rightarrow> Handled h
      | None \<Rightarrow> if path @ ''/'' \<in> fst ` set es then Redirected (path @ ''/'') else NotFound)"

text \<open>Who serves what.\<close>

lemma mux_paths:
  "mux_Handler mux_entries path =
     (if path = ''/tunnel'' \<or> HasPrefix path ''/tunnel/'' then Handled Servlet
      else if path = ''/websocket-tunnel'' then Handled WsServer
      else if HasPrefix path ''/sessions/'' then Handled SessionsPage
      else if path = ''/metrics'' then Handled Promhttp
      else if path = ''/sessions'' then Redirected ''/sessions/''
      else NotFound)"
proof -
  have self: "HasPrefix s s" for s by (induction s) simp_all
  have m: "matches path ''/tunnel'' \<longleftrightarrow> path = ''/tunnel''" "matches path ''/tunnel/'' \<longleftrightarrow> HasPrefix path ''/tunnel/''"
    "matches path ''/websocket-tunnel'' \<longleftrightarrow> path = ''/websocket-tunnel''"
    "matches path ''/sessions/'' \<longleftrightarrow> HasPrefix path ''/sessions/''" "matches path ''/metrics'' \<longleftrightarrow> path = ''/metrics''"
    using self [of "''/tunnel/''"] self [of "''/sessions/''"] by (auto simp: matches_def simp del: HasPrefix.simps)
  have two: "HasPrefix path ''/tunnel/'' \<Longrightarrow> \<not> HasPrefix path ''/sessions/''"
    by (cases path; cases "tl path") auto
  have e: "path @ ''/'' \<in> fst ` set mux_entries \<longleftrightarrow> path = ''/tunnel'' \<or> path = ''/sessions''"
    using append_same_eq [of path "''/''" "''/tunnel''"] append_same_eq [of path "''/''" "''/sessions''"]
    by (auto simp: mux_entries_def dest: arg_cong [of _ _ last])
  consider "path = ''/tunnel''" | "HasPrefix path ''/tunnel/''" "path \<noteq> ''/tunnel''" | "path = ''/websocket-tunnel''"
    | "HasPrefix path ''/sessions/''" "path \<noteq> ''/websocket-tunnel''" | "path = ''/metrics''"
    | "path \<noteq> ''/tunnel''" "\<not> HasPrefix path ''/tunnel/''" "path \<noteq> ''/websocket-tunnel''" "\<not> HasPrefix path ''/sessions/''"
      "path \<noteq> ''/metrics''" by blast
  then show ?thesis
  proof cases
    case 2
    then have "path \<noteq> ''/websocket-tunnel''" "path \<noteq> ''/metrics''" by auto
    with 2 two show ?thesis by (simp add: mux_Handler_def mux_entries_def m del: HasPrefix.simps)
  next
    case 4
    then have "path \<noteq> ''/tunnel''" "path \<noteq> ''/metrics''" by auto
    moreover have "\<not> HasPrefix path ''/tunnel/''" using 4 two by blast
    ultimately show ?thesis using 4 by (simp add: mux_Handler_def mux_entries_def m del: HasPrefix.simps)
  next
    case 6
    then have "longest_match path mux_entries = None" by (simp add: mux_entries_def m del: HasPrefix.simps)
    with 6 e show ?thesis by (simp add: mux_Handler_def del: HasPrefix.simps)
  qed (simp_all add: mux_Handler_def mux_entries_def matches_def)
qed

section \<open>What it starts as\<close>

text \<open>The program comes to serve requests exactly when the number of queues is absent or a
  number, the log file can be opened and a Kubernetes client can be made; the country
  database and the logger of the recordings may be missing. It then starts in a state of
  \<open>Process\<close>, so all that is shown of its reachable states holds, with its events going to the
  log file, its namespace and its address from the environment.\<close>

theorem program_starts:
  assumes "fresh_world w" and "session_data w = []" and "trace w = []"
  shows "((\<exists>s. main_guac env w t = Serves s) \<longleftrightarrow>
      (Getenv env ''NUMBER_OF_TRANSCODING_QUEUE'' = [] \<or> (\<exists>n. Atoi (Getenv env ''NUMBER_OF_TRANSCODING_QUEUE'') = Inr n)) \<and>
      log_file env \<noteq> None \<and> InitK8S env \<noteq> None) \<and>
    (\<forall>s. main_guac env w t = Serves s \<longrightarrow>
      reach process_start process_step (serving s) \<and> conns (serving s) = [] \<and>
      printer (log_files s) = log_file env \<and> InitK8S env = Some (NAMESPACE s) \<and> NAMESPACE s \<noteq> [] \<and> own_ip s \<noteq> [] \<and>
      (Getenv env ''NUMBER_OF_TRANSCODING_QUEUE'' = [] \<longrightarrow> queue_number s = 1))"
proof -
  have q: "(\<exists>n. theNumberOfQueues x = Some n) \<longleftrightarrow> x = [] \<or> (\<exists>n. Atoi x = Inr n)" for x
    by (auto simp: theNumberOfQueues_def split: sum.split)
  have l: "(\<exists>s. logging_Init x z log_init = Some s) \<longleftrightarrow> x \<noteq> None"
    "logging_Init x z log_init = Some y \<Longrightarrow> printer y = x" for x y z
    by (auto simp: logging_Init_def split: option.splits)
  have n: "InitK8S env = Some x \<Longrightarrow> x \<noteq> []" for x
    by (auto simp: InitK8S_def Let_def split: sum.splits option.splits if_splits)
  have g: "GuacIp env \<noteq> []" by (simp add: GuacIp_def)
  have r: "reach process_start process_step (start_process w t)" "conns (start_process w t) = []"
    using assms by (auto simp: process_start_def start_process_def intro!: reach_start)
  have "(\<exists>s. main_guac env w t = Serves s) \<longleftrightarrow>
      (\<exists>q. theNumberOfQueues (Getenv env ''NUMBER_OF_TRANSCODING_QUEUE'') = Some q) \<and>
      (\<exists>y. logging_Init (log_file env) (zap_builds env) log_init = Some y) \<and> InitK8S env \<noteq> None"
    by (auto simp: main_guac_def split: option.split)
  moreover have "reach process_start process_step (serving s) \<and> conns (serving s) = [] \<and>
      printer (log_files s) = log_file env \<and> InitK8S env = Some (NAMESPACE s) \<and> NAMESPACE s \<noteq> [] \<and> own_ip s \<noteq> [] \<and>
      (Getenv env ''NUMBER_OF_TRANSCODING_QUEUE'' = [] \<longrightarrow> queue_number s = 1)" if "main_guac env w t = Serves s" for s
    using that r l(2) n g by (auto simp: main_guac_def theNumberOfQueues_def split: option.splits)
  ultimately show ?thesis by (simp add: q l(1))
qed

lemma program_starts_witness:
  "\<exists>env s. main_guac env empty_world 0 = Serves s \<and> NAMESPACE s = ''appaegis'' \<and> reach process_start process_step (serving s)"
proof -
  define env where "env = \<lparr>Getenv = \<lambda>x. [], geo_opens = False, log_file = Some 3, zap_builds = False, home_dir = ''/root'',
    in_cluster_config = Inl ''no'', file_config = \<lambda>f. Inr 0, client_error = \<lambda>c. None\<rparr>"
  have k: "InitK8S env = Some ''appaegis''" by (simp add: InitK8S_def env_def)
  have w: "fresh_world empty_world" "session_data empty_world = []" "trace empty_world = []"
    by (simp_all add: fresh_world_def empty_world_def)
  note p = program_starts [OF w, of env 0]
  have e: "Getenv env ''NUMBER_OF_TRANSCODING_QUEUE'' = []" "log_file env \<noteq> None" by (simp_all add: env_def)
  with p k obtain s where "main_guac env empty_world 0 = Serves s" by blast
  with p k show ?thesis by auto
qed

end
