(* ===== verification/Spec2Isabelle.thy ===== *)
theory Spec2Isabelle
  imports Handshake Gateway HttpProps ConnectProps WsConnection StressTest Mail Handover Logging WrappedSocket RoomLocks Admission ProcessEnds Startup
begin

text \<open>
  Verification library of the Guacamole gateway: the Go program that lets a browser use a
  remote desktop through guacd, with the sharing of sessions, policies and recordings built
  around it.

  The program. A browser opens a websocket (\<open>pkg/ws_server.go\<close>) or posts to an HTTP tunnel
  (\<open>pkg/server.go\<close>, \<open>pkg/tunnel_map.go\<close>). Both call \<open>DemoDoConnect\<close> (\<open>cmd/guac/guac.go\<close>), which
  dials guacd, shakes hands (\<open>pkg/stream.go\<close>) and returns a tunnel (\<open>pkg/tunnel.go\<close>) whose two
  directions are protected by counted locks (\<open>pkg/counted_lock.go\<close>). A websocket connection then
  enters a room (\<open>pkg/rdp_sharing.go\<close>): the host opens one, the users invited join it. Two loops
  relay instructions (\<open>pkg/instruction.go\<close>); an instruction \<open>AACMD\<close> from the browser is a command
  (\<open>pkg/commands.go\<close>), which changes the room, asks the database or sends mail (\<open>pkg/email.go\<close>).
  A goroutine listens to the policy service and tells the connections through channels
  (\<open>pkg/channel_control.go\<close>). When a room closes, its recording goes to a queue (\<open>pkg/redis.go\<close>),
  which a pod of the transcoder works off (\<open>pkg/recording.go\<close>, \<open>cmd/transcoding\<close>).
  \<open>stresstest\<close> is a client that puts load on the gateway.

  Which theory models what.
  \<^item> \<open>Prelude\<close>: outcomes (\<open>Val\<close>, \<open>Fail\<close>, \<open>Panic\<close>), the wrap-around of \<open>int\<close>, Go maps as association
    lists and the interface \<open>keyed_store\<close>. \<open>GoStd\<close>, \<open>GoStrings\<close>: what is used of \<open>strconv\<close>,
    \<open>unicode/utf8\<close>, \<open>strings\<close>, \<open>bytes\<close>, \<open>encoding/base64\<close> and \<open>encoding/json\<close>.
  \<^item> \<open>GuacErrors\<close>: \<open>pkg/errors.go\<close>, \<open>pkg/status.go\<close>. \<open>Instruction\<close>: \<open>pkg/instruction.go\<close>. \<open>Reader\<close>: the
    interface \<open>instruction_reader\<close> of \<open>pkg/tunnel.go\<close>. \<open>GuacStream\<close>: the buffer of \<open>pkg/stream.go\<close>
    over its backing array, and \<open>ReadSome\<close>. \<open>Handshake\<close>: the rest of it and \<open>pkg/config.go\<close>.
  \<^item> \<open>World\<close>: the state that the rooms, the sessions and the queue are kept in, with the list of the
    effects on everything outside. \<open>Rooms\<close>, \<open>RoomProps\<close>: \<open>pkg/rdp_sharing.go\<close>. \<open>Commands\<close>,
    \<open>CommandProps\<close>: \<open>pkg/commands.go\<close>. \<open>Mail\<close>: \<open>pkg/email.go\<close>. \<open>Logging\<close>: \<open>lib/logging\<close>.
  \<^item> \<open>WsServer\<close>, \<open>WsProps\<close>: the loops, commands and room entry of \<open>pkg/ws_server.go\<close>. \<open>WsConnection\<close>:
    one connection from beginning to end. \<open>SessionStores\<close>: \<open>pkg/mem_session.go\<close>,
    \<open>pkg/channel_control.go\<close> and \<open>/sessions/\<close>. \<open>DoConnect\<close>, \<open>ConnectProps\<close>: \<open>DemoDoConnect\<close>,
    \<open>lib/geoip\<close> and \<open>GetGuacdTarget\<close> (\<open>pkg/k8s.go\<close>).
  \<^item> \<open>Machine\<close>: reachable states, machines with an invariant, refinement. \<open>Gateway\<close>: every interleaving
    of operations on the rooms. \<open>Locks\<close>: the counted lock. \<open>TunnelMap\<close>: \<open>pkg/tunnel_map.go\<close> and
    \<open>pkg/tunnel.go\<close>. \<open>HttpServer\<close>, \<open>HttpProps\<close>: \<open>pkg/server.go\<close> and \<open>pkg/metrics.go\<close>.
  \<^item> \<open>Recording\<close>, \<open>Queues\<close>: \<open>pkg/recording.go\<close>, \<open>pkg/redis.go\<close>, \<open>cmd/transcoding\<close>. \<open>Json\<close>: the
    parser of \<open>encoding/json\<close>. \<open>Handover\<close>: a recording as JSON, and its way from the gateway to
    the pod that encodes it. \<open>StressTest\<close>: the load test.
  \<^item> \<open>WrappedSocket\<close>: \<open>pkg/types.go\<close>, the mutex around the writes to a browser, which is why a
    message to one is a single effect everywhere else. \<open>RoomLocks\<close>: the locks of \<open>pkg/rdp_sharing.go\<close>,
    with each operation as the list of what it does to them and to the shared maps.
  \<^item> \<open>PolicyFeed\<close>: the goroutine \<open>connectToAstraea\<close>. \<open>Frame\<close>: what each operation leaves alone.
    \<open>Process\<close>: the whole program, all goroutines over one state, a step for what one of them does
    between two points where others can run; which accesses of \<open>RoomLocks\<close> a goroutine may be in the
    middle of (\<open>doing\<close>), so that two that meet at a map end the process as the Go runtime does;
    and the return of \<open>main\<close>. \<open>ProcessInv\<close>, \<open>ProcessCounts\<close>, \<open>ProcessProps\<close>,
    \<open>ProcessEnds\<close>: its invariant and what follows. \<open>Admission\<close>: who gets into a room.
    \<open>Startup\<close>: \<open>main\<close> and the \<open>init\<close> functions, which end in a state \<open>Process\<close> starts from, and the routes.

  State. Pointers are indices into lists of the world (clients, sessions, tunnels, handles,
  channels), so that what two places share is shared in the model; Go maps are association
  lists with distinct keys and each loop over one visits its keys in an order that is a
  parameter. A write to a websocket, the database, the cache, the queue or the log is appended
  to the \<open>trace\<close>. A panic is the value \<open>Panic\<close>: it ends the process unless the goroutine is an
  HTTP handler's.

  Code outside the repository is a field of \<open>env\<close>, \<open>connect_env\<close>,
  \<open>encoder_env\<close> or \<open>main_env\<close>: the database, the policy services,
  the storage, the network, UUIDs, Unicode tables. Their errors are values of these fields, also
  those of redis: a push that fails (\<open>push_err\<close>), and in each \<open>round\<close> of the transcoder a peek or a
  pop that fails or a stop of the pod. What is assumed of them in every theorem about reachable
  states is that an order of visits is an order of the keys (\<open>env_ok\<close>, \<open>is_order\<close>) and that a
  new channel id is not one in use. Single theorems assume more, each in its statement, such as a
  connection that is open and whose writes succeed, or that a channel is not read; the ones about
  what a service answers are: in \<open>Handover\<close>, that the text of a time is read back as that time (\<open>format_ok\<close>) and the
  strings of a recording are well-formed UTF-8; \<open>recordings_reach_pods\<close>, that no push fails;
  \<open>EncodeRecording_drains\<close> and \<open>recordings_handed_over\<close>, as many undisturbed rounds as there are entries;
  \<open>viewer_escalates\<close>, that the database returns the invitation it was given;
  \<open>connect_then_write\<close>, a healthy connection and an id of 36 characters. In all theories
  but \<open>RoomLocks\<close>, \<open>PolicyFeed\<close> and \<open>WrappedSocket\<close> a call of a service and a write to a browser return: a
  goroutine in one that does not is one that takes no further step, and the locks it keeps
  meanwhile are in \<open>RoomLocks\<close>, where the calls that never return are a parameter (\<open>Z\<close>). The network is a
  script of what reads return.

  Interfaces are locales: \<open>keyed_store\<close> (interpreted as \<open>gm\<close>,
  \<open>rooms\<close>, \<open>sds\<close>), \<open>instruction_reader\<close> (as
  \<open>guacd\<close>), \<open>invariant_machine\<close> (as \<open>gateway\<close>,
  \<open>counted_lock\<close>, \<open>tmap\<close>, \<open>channels\<close>,
  \<open>process\<close>, \<open>admission\<close>, \<open>ws_writes\<close>,
  \<open>room_locks\<close>), \<open>refinement\<close> (as \<open>counted_mutex\<close>),
  \<open>world_preorder\<close> (as \<open>kp\<close>).

  What is shown. Instructions: printing and parsing undo each other, and reading reassembles
  what the network cuts, loses nothing and returns; the two inputs on which it does not are
  shown as well. Handshake: the instructions sent and the configuration kept. Rooms: an
  invariant of every reachable world, what each operation and command grants, which commands are
  answered, who is let in, when a room closes. Relays: what guacd and the browser get. Locks: no
  deadlock, every operation on the rooms ends if the calls it makes do, one writer at a
  time, and the races there are. Tunnels: requests answer in order, those that fail leave nothing
  behind, tunnels time out between one
  and two periods, and the lock refines a mutex. Connecting: what the policy overrides and
  what is stored. Process: in every reachable state whoever is in a room entered it over a connection
  that is still in its loops or has panicked, and was let in by the database or opened the room;
  no pointer dangles, no closed channel is sent
  to, the counters show the connections; the four ways the process ends and what blocks it for
  all. Queues, mails and log lines: where each recording goes and that it is handled, once
  unless a pop fails or the pod is stopped, who is
  mailed what, that an event is one line.

  Bounds and fuel. \<open>read_loop\<close>, \<open>guacdToWs\<close> and \<open>writeSome\<close> are partial functions into \<open>option\<close>: \<open>None\<close>
  is a loop that never returns, and that they return is proved where it holds. \<open>encode_loop\<close>
  counts the three runs of the source. \<open>EncodeRecording\<close>, \<open>mouse_loop\<close> and \<open>feed_run\<close> take the number
  of rounds, as the loops of the source never end; statements say how many are enough.
  The fuel of the JSON parser is one more than the length of the text: a level of brackets
  takes two calls and has two characters, each further element one and a comma.
  Integers that can wrap do (\<open>wrap64\<close>, words in \<open>Locks\<close>).

  Not modelled. \<open>pkg/db.go\<close> forwards to the data access module, whose answers are parameters;
  \<open>pkg/kv.go\<close> makes a redis client; \<open>pkg/alert_rules.go\<close> is a struct nothing uses; \<open>mocks\<close> are
  generated. The frames of websockets and TLS, AWS, Kubernetes and prometheus clients, the
  writing of files, and \<open>cleanExpiredRdpFiles\<close>, one library call
  on a timer, are left out. A command and an operation on a room have their effect on the state in
  one step; what they read and change statement by statement, and that two may meet there, is
  in \<open>RoomLocks\<close> and in the step \<open>maps_meet\<close> of \<open>Process\<close>. What the fields of a client read during
  a race is not modelled. \<open>SessionStores\<close> opens a channel in one step (\<open>register_channel\<close>), \<open>Process\<close>
  in the two of the source; \<open>register_channel_steps\<close> says they agree.
\<close>

end
